(* ===== verification/Prova_Prelude.thy ===== *)
theory Prova_Prelude
  imports Main "HOL-Library.Word"
begin

text \<open>
  Shared vocabulary of the development: bytes and byte strings, the sequencing of fallible
  steps, Go's fixed-width signed integers written out over \<open>int\<close>, and the
  little-endian byte encodings of \<open>encoding/binary\<close>, with the lemmas that the component
  theories use.

  A Go function that returns \<open>(T, error)\<close> is a HOL function into the sum \<open>'e + 'a\<close>:
  \<open>Inl e\<close> is the early return with the error \<open>e\<close>, \<open>Inr x\<close> the normal result.
\<close>

unbundle bit_operations_syntax

named_theorems go_defs \<open>definitions unfolded when a component is evaluated\<close>

text \<open>Byte values are read with \<open>unat\<close> throughout.\<close>

declare of_nat_unat [simp del]

type_synonym byte = "8 word"
type_synonym bytes = "byte list"

section \<open>Fallible steps\<close>

definition bindE :: "'e + 'a \<Rightarrow> ('a \<Rightarrow> 'e + 'b) \<Rightarrow> 'e + 'b" where
  "bindE m f = (case m of Inl e \<Rightarrow> Inl e | Inr x \<Rightarrow> f x)"

lemma bindE_simps [simp]:
  "bindE (Inl e) f = Inl e"
  "bindE (Inr x) f = f x"
  by (simp_all add: bindE_def)

lemma bindE_eq_Inr: "bindE m f = Inr y \<longleftrightarrow> (\<exists>x. m = Inr x \<and> f x = Inr y)"
  by (cases m) auto

lemma bindE_eq_Inl: "bindE m f = Inl e \<longleftrightarrow> m = Inl e \<or> (\<exists>x. m = Inr x \<and> f x = Inl e)"
  by (cases m) auto

lemma bindE_InrE [elim!]:
  assumes "bindE m f = Inr y"
  obtains x where "m = Inr x" and "f x = Inr y"
  using assms by (auto simp: bindE_eq_Inr)

lemma bindE_cong [fundef_cong]:
  "m = m' \<Longrightarrow> (\<And>x. m' = Inr x \<Longrightarrow> f x = f' x) \<Longrightarrow> bindE m f = bindE m' f'"
  by (cases m') auto

text \<open>\<open>guardE b e\<close>: the early return \<open>if !b { return e }\<close>.\<close>

definition guardE :: "bool \<Rightarrow> 'e \<Rightarrow> 'e + unit" where
  "guardE b e = (if b then Inr () else Inl e)"

lemma guardE_simps [simp]:
  "guardE b e = Inr u \<longleftrightarrow> b"
  "guardE b e = Inl e' \<longleftrightarrow> \<not> b \<and> e' = e"
  "guardE True e = Inr ()"
  "guardE False e = Inl e"
  by (auto simp: guardE_def)

text \<open>A loop over a slice whose body may return an error.\<close>

fun foldE :: "('s \<Rightarrow> 'x \<Rightarrow> 'e + 's) \<Rightarrow> 's \<Rightarrow> 'x list \<Rightarrow> 'e + 's" where
  "foldE f s [] = Inr s"
| "foldE f s (x # xs) = bindE (f s x) (\<lambda>s'. foldE f s' xs)"

lemma foldE_append: "foldE f s (xs @ ys) = bindE (foldE f s xs) (\<lambda>s'. foldE f s' ys)"
proof (induction xs arbitrary: s)
  case (Cons x xs)
  then show ?case by (cases "f s x") simp_all
qed simp

lemma foldE_invariant:
  assumes "foldE f s xs = Inr s'" and "P s"
    and "\<And>s x t. x \<in> set xs \<Longrightarrow> P s \<Longrightarrow> f s x = Inr t \<Longrightarrow> P t"
  shows "P s'"
  using assms by (induction xs arbitrary: s) auto

text \<open>A counting loop \<open>for i := n; i > 0; i--\<close> whose body does not read the counter.\<close>

fun repeatE :: "nat \<Rightarrow> ('s \<Rightarrow> 'e + 's) \<Rightarrow> 's \<Rightarrow> 'e + 's" where
  "repeatE 0 f s = Inr s"
| "repeatE (Suc n) f s = bindE (f s) (repeatE n f)"

section \<open>Signed fixed-width integers\<close>

text \<open>
  \<open>int64\<close> and \<open>int32\<close> values are represented by the mathematical integers in range;
  an operation that may leave the range is followed by \<open>to_int64\<close>, the two's complement
  wrap-around.
\<close>

definition in_int64 :: "int \<Rightarrow> bool" where
  "in_int64 x \<longleftrightarrow> - (2 ^ 63) \<le> x \<and> x < 2 ^ 63"

definition to_int64 :: "int \<Rightarrow> int" where
  "to_int64 x = (x + 2 ^ 63) mod 2 ^ 64 - 2 ^ 63"

definition in_int32 :: "int \<Rightarrow> bool" where
  "in_int32 x \<longleftrightarrow> - (2 ^ 31) \<le> x \<and> x < 2 ^ 31"

definition to_int32 :: "int \<Rightarrow> int" where
  "to_int32 x = (x + 2 ^ 31) mod 2 ^ 32 - 2 ^ 31"

lemma to_int32_id [simp]: "in_int32 x \<Longrightarrow> to_int32 x = x"
  by (simp add: in_int32_def to_int32_def)

lemma in_int64_nonneg: "0 \<le> x \<Longrightarrow> x \<le> 2 ^ 56 \<Longrightarrow> in_int64 x"
  by (simp add: in_int64_def)

lemma to_int64_in: "in_int64 (to_int64 x)"
  by (simp add: in_int64_def to_int64_def)

lemma to_int64_id [simp]: "in_int64 x \<Longrightarrow> to_int64 x = x"
  by (simp add: in_int64_def to_int64_def)

lemma to_int64_min: "to_int64 (- (- (2 ^ 63))) = - (2 ^ 63)"
  by (simp add: to_int64_def)

lemma sint_in_int64: "in_int64 (sint (w :: 64 word))"
  using sint_ge [of w] sint_lt [of w] by (simp add: in_int64_def)

lemma sint_word_of_int64: "in_int64 x \<Longrightarrow> sint (word_of_int x :: 64 word) = x"
  by (simp add: in_int64_def sint_sbintrunc' signed_take_bit_int_eq_self)

lemma sint_in_int32: "in_int32 (sint (w :: 32 word))"
  using sint_ge [of w] sint_lt [of w] by (simp add: in_int32_def)

lemma sint_word_of_int32: "in_int32 x \<Longrightarrow> sint (word_of_int x :: 32 word) = x"
  by (simp add: in_int32_def sint_sbintrunc' signed_take_bit_int_eq_self)

section \<open>Little-endian encodings\<close>

fun le_bytes :: "nat \<Rightarrow> nat \<Rightarrow> bytes" where
  "le_bytes 0 v = []"
| "le_bytes (Suc n) v = word_of_nat (v mod 256) # le_bytes n (v div 256)"

fun le_nat :: "bytes \<Rightarrow> nat" where
  "le_nat [] = 0"
| "le_nat (b # bs) = unat b + 256 * le_nat bs"

lemma length_le_bytes [simp]: "length (le_bytes n v) = n"
  by (induction n arbitrary: v) auto

lemma unat_byte_less [simp]: "unat (b :: byte) < 256"
  using unsigned_less [of b, where 'a = nat] by simp

lemma word_of_nat_unat [simp]: "word_of_nat (unat w) = (w :: 'a::len word)"
  by (simp add: of_nat_unat)

lemma unat_byte_pos: "(b :: byte) \<noteq> 0 \<Longrightarrow> 0 < unat b"
  by (metis gr_zeroI unsigned_eq_0_iff)

lemma uint_byte_less: "uint (b :: byte) < 256"
  using uint_lt2p [of b] by simp

lemma unat_byte_of_nat [simp]: "unat (word_of_nat v :: byte) = v mod 256"
  by (simp add: unat_of_nat)

lemma le_nat_le_bytes: "le_nat (le_bytes n v) = v mod 256 ^ n"
proof (induction n arbitrary: v)
  case (Suc n)
  have "v mod 256 ^ Suc n = v mod 256 + 256 * (v div 256 mod 256 ^ n)"
    by (simp add: mod_mult2_eq)
  with Suc show ?case by simp
qed simp

lemma le_nat_le_bytes_id: "v < 256 ^ n \<Longrightarrow> le_nat (le_bytes n v) = v"
  by (simp add: le_nat_le_bytes)

lemma le_nat_bound: "le_nat bs < 256 ^ length bs"
proof (induction bs)
  case (Cons b bs)
  have "Suc (le_nat bs) \<le> 256 ^ length bs" using Cons by simp
  then have "256 * Suc (le_nat bs) \<le> 256 * 256 ^ length bs" by (rule mult_le_mono2)
  with unat_byte_less [of b] show ?case by (simp del: unat_byte_less)
qed simp

lemma le_bytes_le_nat: "le_bytes (length bs) (le_nat bs) = bs"
proof (induction bs)
  case (Cons b bs)
  have "unat b < 256" by simp
  with Cons show ?case by simp
qed simp

lemma le_nat_inj: "length xs = length ys \<Longrightarrow> le_nat xs = le_nat ys \<Longrightarrow> xs = ys"
  by (metis le_bytes_le_nat)

lemma le_nat_append: "le_nat (xs @ ys) = le_nat xs + 256 ^ length xs * le_nat ys"
  by (induction xs) (auto simp: algebra_simps)

text \<open>The digits of a number to the base 256, without leading zeros.\<close>

fun le_digits :: "nat \<Rightarrow> bytes" where
  "le_digits m = (if m = 0 then [] else word_of_nat (m mod 256) # le_digits (m div 256))"

declare le_digits.simps [simp del]

lemma le_digits_0 [simp]: "le_digits 0 = []"
  by (subst le_digits.simps) simp

lemma le_digits_pos: "m > 0 \<Longrightarrow> le_digits m = word_of_nat (m mod 256) # le_digits (m div 256)"
  by (subst le_digits.simps) simp

lemma le_digits_eq_Nil [simp]: "le_digits m = [] \<longleftrightarrow> m = 0"
  by (subst le_digits.simps) simp

lemma le_nat_le_digits [simp]: "le_nat (le_digits m) = m"
  by (induction m rule: le_digits.induct) (subst le_digits.simps, simp)

lemma le_digits_last: "m > 0 \<Longrightarrow> last (le_digits m) \<noteq> 0"
proof (induction m rule: le_digits.induct)
  case (1 m)
  show ?case
  proof (cases "m div 256 = 0")
    case True
    then have "unat (word_of_nat m :: byte) = m" by simp
    with "1.prems" have "(word_of_nat m :: byte) \<noteq> 0" by (metis less_numeral_extra(3) unsigned_0)
    with "1.prems" True show ?thesis by (simp add: le_digits_pos)
  next
    case False
    with 1 show ?thesis by (simp add: le_digits_pos [OF "1.prems"])
  qed
qed

lemma le_nat_last_pos: "bs \<noteq> [] \<Longrightarrow> last bs \<noteq> 0 \<Longrightarrow> le_nat bs > 0"
  by (induction bs) (auto split: if_splits simp: unat_byte_pos)

lemma le_digits_le_nat: "bs = [] \<or> last bs \<noteq> 0 \<Longrightarrow> le_digits (le_nat bs) = bs"
proof (induction bs)
  case (Cons b bs)
  then have "le_nat (b # bs) > 0" by (intro le_nat_last_pos) auto
  then have "le_digits (le_nat (b # bs)) = b # le_digits (le_nat bs)"
    using unat_byte_less [of b] by (simp add: le_digits_pos del: unat_byte_less)
  with Cons show ?case by (auto split: if_splits)
qed simp

lemma length_le_digits: "m < 256 ^ k \<Longrightarrow> length (le_digits m) \<le> k"
proof (induction k arbitrary: m)
  case (Suc k)
  then have "m div 256 < 256 ^ k" by (simp add: less_mult_imp_div_less mult.commute)
  with Suc.IH show ?case by (cases "m = 0") (auto simp: le_digits_pos)
qed simp

text \<open>
  Big-endian numbers: \<open>big.Int.SetBytes\<close> and \<open>big.Int.Bytes\<close>.
\<close>

definition be_int :: "bytes \<Rightarrow> int" where
  "be_int bs = int (le_nat (rev bs))"

definition be_bytes :: "int \<Rightarrow> bytes" where
  "be_bytes n = rev (le_digits (nat \<bar>n\<bar>))"

lemma be_int_nonneg [simp]: "0 \<le> be_int bs"
  by (simp add: be_int_def)

lemma be_int_be_bytes [simp]: "0 \<le> n \<Longrightarrow> be_int (be_bytes n) = n"
  by (simp add: be_int_def be_bytes_def)

lemma be_int_zeros [simp]: "be_int (replicate k 0 @ bs) = be_int bs"
proof -
  have "le_nat (replicate k 0) = 0" by (induction k) auto
  then show ?thesis by (simp add: be_int_def le_nat_append)
qed

lemma be_int_Cons0 [simp]: "be_int (0 # bs) = be_int bs"
  using be_int_zeros [of 1 bs] by simp

lemma length_be_bytes: "0 \<le> n \<Longrightarrow> n < 256 ^ k \<Longrightarrow> length (be_bytes n) \<le> k"
  by (simp add: be_bytes_def length_le_digits nat_less_iff)

lemma be_bytes_eq_Nil [simp]: "be_bytes n = [] \<longleftrightarrow> n = 0"
  by (simp add: be_bytes_def)

lemma be_bytes_hd: "n \<noteq> 0 \<Longrightarrow> hd (be_bytes n) \<noteq> 0"
  using le_digits_last [of "nat \<bar>n\<bar>"] by (simp add: be_bytes_def hd_rev)

lemma be_int_bound: "be_int bs < 256 ^ length bs"
  using le_nat_bound [of "rev bs"] by (simp add: be_int_def flip: of_nat_less_iff)

lemma be_int_inj: "length xs = length ys \<Longrightarrow> be_int xs = be_int ys \<Longrightarrow> xs = ys"
  using le_nat_inj [of "rev xs" "rev ys"] by (simp add: be_int_def)

section \<open>Bits\<close>

lemma byte_and_7f: "(b :: byte) AND 0x7f = 0 \<longleftrightarrow> unat b mod 128 = 0"
proof -
  have "unat (b AND 0x7f) = unat (take_bit 7 b)"
    by (simp add: take_bit_eq_mask mask_eq_exp_minus_1)
  also have "\<dots> = unat b mod 128"
    by (simp only: unsigned_take_bit_eq) (simp add: take_bit_eq_mod)
  finally show ?thesis by (metis unsigned_0 unsigned_eq_0_iff)
qed

lemma byte_and_80: "(b :: byte) AND 0x80 = 0 \<longleftrightarrow> unat b < 128"
proof -
  have "b AND 0x80 = 0 \<longleftrightarrow> \<not> bit b 7"
    using and_exp_eq_0_iff_not_bit [of b 7] by simp
  also have "bit b 7 = bit (unat b) 7"
    by (simp add: bit_unsigned_iff)
  also have "\<not> bit (unat b) 7 \<longleftrightarrow> unat b < 128"
  proof (cases "unat b < 128")
    case False
    then have "unat b div 128 = 1"
      using unsigned_less [of b, where 'a = nat] by (intro div_nat_eqI) simp_all
    with False show ?thesis by (simp add: bit_iff_odd)
  qed (simp add: bit_iff_odd)
  finally show ?thesis .
qed

lemma byte_or_80: "unat (b :: byte) < 128 \<Longrightarrow> unat (b OR 0x80) = unat b + 128"
proof -
  assume b: "unat b < 128"
  then have "b AND 0x80 = 0" by (simp add: byte_and_80)
  from disjunctive_add_eq_or [OF this, symmetric] have "b OR 0x80 = b + 0x80" .
  with b show ?thesis by (simp add: unat_word_ariths)
qed

text \<open>Or-ing bytes into place is adding them.\<close>

lemma or_add_push: "0 \<le> r \<Longrightarrow> r < 2 ^ n \<Longrightarrow> (r :: int) OR push_bit n b = r + 2 ^ n * b"
proof -
  assume r: "0 \<le> r" "r < 2 ^ n"
  have "r AND push_bit n b = 0"
  proof (rule bit_eqI)
    fix m
    have "bit r m = bit (take_bit n r) m" using r by (simp add: take_bit_int_eq_self)
    then show "bit (r AND push_bit n b) m = bit 0 m"
      by (auto simp: bit_and_iff bit_push_bit_iff bit_take_bit_iff)
  qed
  from disjunctive_add_eq_or [OF this] show ?thesis by (simp add: push_bit_eq_mult mult.commute)
qed

section \<open>Lists\<close>

lemma take_length_append [simp]: "take (length xs) (xs @ ys) = xs"
  by simp

lemma nth_rev_append_last: "(xs @ [x]) ! length xs = x"
  by simp

lemma list_all_nthI: "(\<And>i. i < length xs \<Longrightarrow> P (xs ! i)) \<Longrightarrow> list_all P xs"
  by (simp add: list_all_length)

end
