(* ===== verification/Script_Error.thy ===== *)
theory Script_Error
  imports Prova_Prelude
begin

text \<open>
  The errors of package \<open>txscript\<close> (\<open>src/txscript/error.go\<close>): the enumeration
  \<open>ErrorCode\<close> with the source's constants in the source's order, and the ways in which a
  call of the package can fail to return a value.
\<close>

datatype (plugins only: code) ErrorCode =
    ErrInternal
  | ErrInvalidFlags
  | ErrInvalidIndex
  | ErrUnsupportedAddress
  | ErrNotMultisigScript
  | ErrTooManyRequiredSigs
  | ErrInvalidNumberOfKeyIds
  | ErrTooMuchNullData
  | ErrEarlyReturn
  | ErrEmptyStack
  | ErrEvalFalse
  | ErrScriptUnfinished
  | ErrInvalidProgramCounter
  | ErrScriptTooBig
  | ErrElementTooBig
  | ErrTooManyOperations
  | ErrStackOverflow
  | ErrInvalidPubKeyCount
  | ErrInvalidSignatureCount
  | ErrNumberTooBig
  | ErrVerify
  | ErrEqualVerify
  | ErrNumEqualVerify
  | ErrCheckSigVerify
  | ErrCheckMultiSigVerify
  | ErrDisabledOpcode
  | ErrReservedOpcode
  | ErrMalformedPush
  | ErrInvalidStackOperation
  | ErrUnbalancedConditional
  | ErrMinimalData
  | ErrInvalidSigHashType
  | ErrSigDER
  | ErrSigHighS
  | ErrNotPushOnly
  | ErrSigNullDummy
  | ErrPubKeyType
  | ErrCleanStack
  | ErrNullFail
  | ErrDiscourageUpgradableNOPs
  | ErrNegativeLockTime
  | ErrUnsatisfiedLockTime

text \<open>
  \<open>ScriptErr c\<close> is \<open>scriptError(c, \<dots>)\<close> (the description string is for display only),
  \<open>OtherErr\<close> an error made by \<open>fmt.Errorf\<close> or by another package, \<open>Panic\<close> a run-time
  panic such as an index out of range, and \<open>NoReturn\<close> a call that runs forever.
\<close>

datatype script_err =
    ScriptErr ErrorCode
  | OtherErr
  | Panic
  | NoReturn

type_synonym 'a res = "script_err + 'a"

text \<open>\<open>IsErrorCode\<close>.\<close>

definition IsErrorCode :: "script_err \<Rightarrow> ErrorCode \<Rightarrow> bool" where
  "IsErrorCode err c = (case err of ScriptErr c' \<Rightarrow> c' = c | _ \<Rightarrow> False)"

text \<open>Indexing a slice panics out of range.\<close>

definition idxE :: "'a list \<Rightarrow> nat \<Rightarrow> 'a res" where
  "idxE xs i = (if i < length xs then Inr (xs ! i) else Inl Panic)"

lemma idxE_simps [simp]:
  "i < length xs \<Longrightarrow> idxE xs i = Inr (xs ! i)"
  "length xs \<le> i \<Longrightarrow> idxE xs i = Inl Panic"
  by (simp_all add: idxE_def)

lemma idxE_eq_Inr: "idxE xs i = Inr x \<longleftrightarrow> i < length xs \<and> xs ! i = x"
  by (auto simp: idxE_def)

end
