(* ===== verification/Script_Num.thy ===== *)
theory Script_Num
  imports Script_Error
begin

text \<open>
  Script numbers (\<open>src/txscript/scriptnum.go\<close>): the sign-magnitude little-endian numbers that
  the script engine keeps on its stacks.  A \<open>scriptNum\<close> is an \<open>int64\<close>; it is represented by
  an \<open>int\<close> with the wrap-around of the two operations that can overflow written out.

  The lemmas show that \<open>Bytes\<close> and \<open>makeScriptNum\<close> are inverse to each other on minimally
  encoded numbers, so that a number has exactly one encoding the engine accepts, and the range
  of the numbers a given length limit admits.
\<close>

type_synonym scriptNum = int

definition maxInt32 :: int where "maxInt32 = 2 ^ 31 - 1"
definition minInt32 :: int where "minInt32 = - (2 ^ 31)"
definition defaultScriptNumLen :: nat where "defaultScriptNumLen = 4"

section \<open>Definitions\<close>

definition checkMinimalDataEncoding :: "bytes \<Rightarrow> unit res" where
  "checkMinimalDataEncoding v =
     (if v = [] then Inr ()
      else if v ! (length v - 1) AND 0x7f = 0 then
        (if length v = 1 \<or> v ! (length v - 2) AND 0x80 = 0
         then Inl (ScriptErr ErrMinimalData) else Inr ())
      else Inr ())"

text \<open>The loop \<open>for n > 0 { result = append(result, byte(n&0xff)); n >>= 8 }\<close>.\<close>

function bytes_loop :: "int \<Rightarrow> bytes \<Rightarrow> bytes" where
  "bytes_loop n result =
     (if n > 0 then bytes_loop (drop_bit 8 n) (result @ [word_of_int (n AND 0xff)]) else result)"
  by pat_completeness auto
termination
  by (relation "measure (\<lambda>(n, result). nat n)") (auto simp: drop_bit_eq_div)

declare bytes_loop.simps [simp del]

text \<open>
  \<open>scriptNum.Bytes\<close>.  Negating the smallest \<open>int64\<close> overflows to itself, the loop then
  produces nothing and the access to the last byte panics.
\<close>

definition scriptNum_Bytes :: "scriptNum \<Rightarrow> bytes res" where
  "scriptNum_Bytes n =
     (if n = 0 then Inr []
      else
        let isNegative = n < 0;
            m = (if isNegative then to_int64 (- n) else n);
            result = bytes_loop m []
        in if result = [] then Inl Panic
           else if result ! (length result - 1) AND 0x80 \<noteq> 0 then
             Inr (result @ [if isNegative then 0x80 else 0x00])
           else if isNegative then
             Inr (result[length result - 1 := result ! (length result - 1) OR 0x80])
           else Inr result)"

definition scriptNum_Int32 :: "scriptNum \<Rightarrow> int" where
  "scriptNum_Int32 n = (if n > maxInt32 then maxInt32 else if n < minInt32 then minInt32 else n)"

text \<open>The loop \<open>result |= int64(val) << uint8(8*i)\<close> over the bytes from index \<open>i\<close> on.\<close>

fun or_loop :: "nat \<Rightarrow> bytes \<Rightarrow> int \<Rightarrow> int" where
  "or_loop i [] result = result"
| "or_loop i (val # vs) result =
     or_loop (Suc i) vs (result OR to_int64 (push_bit ((8 * i) mod 256) (uint val)))"

definition makeScriptNum :: "bytes \<Rightarrow> bool \<Rightarrow> nat \<Rightarrow> scriptNum res" where
  "makeScriptNum v requireMinimal scriptNumLen =
     (if length v > scriptNumLen then Inl (ScriptErr ErrNumberTooBig)
      else bindE (if requireMinimal then checkMinimalDataEncoding v else Inr ()) (\<lambda>_.
        if v = [] then Inr 0
        else
          let result = or_loop 0 v 0
          in if v ! (length v - 1) AND 0x80 \<noteq> 0 then
               Inr (to_int64 (- (result AND NOT (to_int64 (push_bit ((8 * (length v - 1)) mod 256) 0x80)))))
             else Inr result))"

section \<open>Encoding as digits\<close>

lemma bytes_loop_eq: "n \<ge> 0 \<Longrightarrow> bytes_loop n acc = acc @ le_digits (nat n)"
proof (induction n acc rule: bytes_loop.induct)
  case (1 n acc)
  show ?case
  proof (cases "n > 0")
    case True
    have "word_of_int (n AND 0xff) = (word_of_nat (nat n mod 256) :: byte)"
    proof -
      have "n AND 0xff = n mod 256"
        using take_bit_eq_mask [of 8 n] by (simp add: mask_eq_exp_minus_1 take_bit_eq_mod)
      moreover have "n mod 256 = int (nat n mod 256)" using True by (simp add: zmod_int)
      ultimately show ?thesis by simp
    qed
    moreover have "nat (n div 256) = nat n div 256" using True by (simp add: nat_div_distrib)
    ultimately show ?thesis
      using 1 True by (simp add: bytes_loop.simps [of n] le_digits_pos [of "nat n"] drop_bit_eq_div)
  next
    case False
    with 1 show ?thesis by (simp add: bytes_loop.simps)
  qed
qed

text \<open>The bytes of a number whose magnitude fits an \<open>int64\<close>.\<close>

definition num_bytes :: "int \<Rightarrow> bytes" where
  "num_bytes n =
     (let ds = le_digits (nat \<bar>n\<bar>)
      in if ds = [] then []
         else if 128 \<le> unat (last ds) then ds @ [if n < 0 then 0x80 else 0]
         else if n < 0 then butlast ds @ [last ds OR 0x80] else ds)"

lemma scriptNum_Bytes_eq:
  assumes "- (2 ^ 63) < n" and "n < 2 ^ 63"
  shows "scriptNum_Bytes n = Inr (num_bytes n)"
proof (cases "n = 0")
  case False
  have m: "(if n < 0 then to_int64 (- n) else n) = \<bar>n\<bar>"
    using assms by (simp add: in_int64_def)
  have "\<bar>n\<bar> \<ge> 0" and "nat \<bar>n\<bar> \<noteq> 0" using False by auto
  then show ?thesis
    using False unfolding scriptNum_Bytes_def num_bytes_def Let_def m
    by (auto simp: bytes_loop_eq byte_and_80 last_conv_nth butlast_conv_take list_update_append1
        upd_conv_take_nth_drop)
qed (simp add: scriptNum_Bytes_def num_bytes_def)

lemma scriptNum_Bytes_min: "scriptNum_Bytes (- (2 ^ 63)) = Inl Panic"
  by (simp add: scriptNum_Bytes_def to_int64_def bytes_loop.simps)

section \<open>Decoding\<close>

definition num_value :: "bytes \<Rightarrow> int" where
  "num_value v =
     (if v = [] then 0
      else if unat (last v) < 128 then int (le_nat v)
      else - (int (le_nat (butlast v)) + 256 ^ (length v - 1) * (int (unat (last v)) - 128)))"

definition minimal_num :: "bytes \<Rightarrow> bool" where
  "minimal_num v \<longleftrightarrow>
     v = [] \<or> unat (last v) mod 128 \<noteq> 0 \<or> (length v > 1 \<and> 128 \<le> unat (v ! (length v - 2)))"

lemma checkMinimalDataEncoding_eq:
  "checkMinimalDataEncoding v = (if minimal_num v then Inr () else Inl (ScriptErr ErrMinimalData))"
  by (cases v) (auto simp: checkMinimalDataEncoding_def minimal_num_def byte_and_7f byte_and_80
      last_conv_nth)

lemma or_loop_eq:
  "0 \<le> r \<Longrightarrow> r < 256 ^ i \<Longrightarrow> i + length v \<le> 7 \<Longrightarrow> or_loop i v r = r + 256 ^ i * int (le_nat v)"
proof (induction v arbitrary: i r)
  case (Cons b v)
  have pow: "(256 :: int) ^ i = 2 ^ (8 * i)" by (simp add: power_mult)
  have ub: "uint b < 256" by (rule uint_byte_less)
  have i: "i \<le> 6" using Cons.prems by simp
  then have "(256 :: int) ^ i \<le> 256 ^ 6" by (intro power_increasing) auto
  then have "256 ^ i * uint b \<le> 256 ^ 6 * 256" using ub by (intro mult_mono) auto
  then have "in_int64 (256 ^ i * uint b)" by (intro in_int64_nonneg) auto
  then have "to_int64 (push_bit (8 * i mod 256) (uint b)) = push_bit (8 * i) (uint b)"
    using i by (simp add: push_bit_eq_mult pow mult.commute)
  then have step: "or_loop i (b # v) r = or_loop (Suc i) v (r + 256 ^ i * uint b)"
    using Cons.prems or_add_push [of r "8 * i" "uint b"] by (simp add: pow)
  have "256 ^ i * uint b \<le> 256 ^ i * 255" using ub by (intro mult_left_mono) auto
  then have "r + 256 ^ i * uint b < 256 ^ Suc i" using Cons.prems(2) unfolding power_Suc by linarith
  with Cons.IH [of "r + 256 ^ i * uint b" "Suc i"] Cons.prems step
  show ?case by (simp add: algebra_simps of_nat_unat)
qed simp

lemma le_nat_snoc: "le_nat (w @ [l]) = le_nat w + 256 ^ length w * unat l"
  by (simp add: le_nat_append)

lemma bit_le_nat_top:
  assumes "128 \<le> unat (l :: byte)"
  shows "bit (int (le_nat (w @ [l]))) (8 * length w + 7)"
proof -
  have "(le_nat w + 256 ^ length w * unat l) div 256 ^ length w = unat l"
    using le_nat_bound [of w] by simp
  moreover have "unat l div 128 = 1" using assms unat_byte_less [of l]
    by (intro div_nat_eqI) (simp_all del: unat_byte_less)
  ultimately have "le_nat (w @ [l]) div (256 ^ length w * 128) = 1"
    by (simp add: le_nat_snoc div_mult2_eq)
  moreover have "(256 :: nat) ^ length w * 128 = 2 ^ (8 * length w + 7)"
    by (simp add: power_mult power_add)
  ultimately have "bit (le_nat (w @ [l])) (8 * length w + 7)"
    by (simp add: bit_iff_odd)
  then show ?thesis by (simp add: bit_of_nat_iff)
qed

lemma sign_cleared:
  assumes "128 \<le> unat (l :: byte)" and "length w \<le> 6"
  shows "int (le_nat (w @ [l])) AND NOT (to_int64 (push_bit (8 * length w mod 256) 0x80))
         = int (le_nat w) + 256 ^ length w * (int (unat l) - 128)"
proof -
  let ?k = "8 * length w + 7"
  have pb: "push_bit (8 * length w) (0x80 :: int) = 2 ^ ?k"
    by (simp add: push_bit_eq_mult power_add)
  have "(2 :: int) ^ ?k \<le> 2 ^ 56" using assms(2) by (intro power_increasing) auto
  then have "in_int64 (2 ^ ?k)" by (intro in_int64_nonneg) auto
  then have "to_int64 (push_bit (8 * length w mod 256) 0x80) = 2 ^ ?k"
    using assms(2) by (simp only: pb [symmetric]) simp
  moreover have "NOT (int (le_nat (w @ [l]))) AND 2 ^ ?k = 0"
    using bit_le_nat_top [OF assms(1), of w] by (simp add: and_exp_eq_0_iff_not_bit bit_not_iff)
  from disjunctive_diff_eq_and_not [OF this]
  have "int (le_nat (w @ [l])) AND NOT (2 ^ ?k) = int (le_nat (w @ [l])) - 2 ^ ?k" by simp
  moreover have "(2 :: int) ^ ?k = 256 ^ length w * 128"
    by (simp add: power_add power_mult)
  ultimately show ?thesis by (simp add: le_nat_snoc algebra_simps)
qed

lemma le_nat_lower: "int (le_nat w) < 256 ^ length w"
  using le_nat_bound [of w] by (simp flip: of_nat_less_iff)

lemma num_value_bounds:
  assumes "v \<noteq> []"
  shows "\<bar>num_value v\<bar> < 128 * 256 ^ (length v - 1)"
proof -
  obtain w l where v: "v = w @ [l]" using assms by (metis append_butlast_last_id)
  define k where "k = (if unat l < 128 then int (unat l) else int (unat l) - 128)"
  have k: "0 \<le> k" "k \<le> 127"
    using unat_byte_less [of l] by (auto simp: k_def simp del: unat_byte_less of_nat_unat)
  then have "256 ^ length w * k \<le> 256 ^ length w * 127" by (intro mult_left_mono) auto
  moreover have "0 \<le> 256 ^ length w * k" using k by simp
  moreover have "num_value v = int (le_nat w) + 256 ^ length w * k \<or>
      num_value v = - (int (le_nat w) + 256 ^ length w * k)"
    by (simp add: v num_value_def k_def le_nat_snoc)
  ultimately have "\<bar>num_value v\<bar> < 128 * 256 ^ length w" using le_nat_lower [of w] by linarith
  then show ?thesis by (simp add: v)
qed

lemma makeScriptNum_eq:
  assumes "length v \<le> 7"
  shows "makeScriptNum v m len =
    (if length v > len then Inl (ScriptErr ErrNumberTooBig)
     else if m \<and> \<not> minimal_num v then Inl (ScriptErr ErrMinimalData)
     else Inr (num_value v))"
proof (cases "v = []")
  case False
  then obtain w l where v: "v = w @ [l]" by (metis append_butlast_last_id)
  have neg: "to_int64 (- (or_loop 0 v 0 AND NOT (to_int64 (push_bit (8 * (length v - 1) mod 256) 0x80))))
      = num_value v" if "128 \<le> unat l"
  proof -
    have nv: "num_value v = - (int (le_nat w) + 256 ^ length w * (int (unat l) - 128))"
      using that by (simp add: v num_value_def)
    have "(256 :: int) ^ length w \<le> 256 ^ 6" using assms by (intro power_increasing) (auto simp: v)
    then have "in_int64 (num_value v)" using num_value_bounds [OF False]
      by (simp add: v in_int64_def abs_less_iff)
    then show ?thesis
      using sign_cleared [OF that, of w] or_loop_eq [of 0 0 v] assms nv by (simp add: v)
  qed
  then show ?thesis
    using False or_loop_eq [of 0 0 v] assms
    by (auto simp: makeScriptNum_def checkMinimalDataEncoding_eq byte_and_80 Let_def last_conv_nth
        num_value_def v nth_append)
qed (simp add: makeScriptNum_def checkMinimalDataEncoding_eq num_value_def minimal_num_def)

lemma num_value_num_bytes: "num_value (num_bytes n) = n"
proof (cases "n = 0")
  case False
  define ds where "ds = le_digits (nat \<bar>n\<bar>)"
  have ne: "ds \<noteq> []" and L: "int (le_nat ds) = \<bar>n\<bar>" using False by (auto simp: ds_def)
  obtain w l where ds: "ds = w @ [l]" using ne by (metis append_butlast_last_id)
  have "num_bytes n = (if 128 \<le> unat l then ds @ [if n < 0 then 0x80 else 0]
      else if n < 0 then w @ [l OR 0x80] else ds)"
    by (simp add: num_bytes_def Let_def flip: ds_def) (simp add: ds)
  moreover have "unat (l OR 0x80) = unat l + 128" if "\<not> 128 \<le> unat l"
    using that by (simp add: byte_or_80)
  ultimately show ?thesis using L
    by (auto simp: num_value_def ds le_nat_append butlast_append simp del: of_nat_unat)
qed (simp add: num_bytes_def num_value_def)

lemma minimal_num_bytes: "minimal_num (num_bytes n)"
proof (cases "n = 0")
  case False
  define ds where "ds = le_digits (nat \<bar>n\<bar>)"
  have ne: "ds \<noteq> []" and l0: "last ds \<noteq> 0" using False le_digits_last by (auto simp: ds_def)
  obtain w l where ds: "ds = w @ [l]" using ne by (metis append_butlast_last_id)
  have "0 < unat l" using l0 by (simp add: ds unat_byte_pos)
  moreover have "num_bytes n = (if 128 \<le> unat l then ds @ [if n < 0 then 0x80 else 0]
      else if n < 0 then w @ [l OR 0x80] else ds)"
    by (simp add: num_bytes_def Let_def flip: ds_def) (simp add: ds)
  ultimately show ?thesis
    by (auto simp: minimal_num_def ds nth_append byte_or_80)
qed (simp add: num_bytes_def minimal_num_def)

lemma num_bytes_num_value: "minimal_num v \<Longrightarrow> num_bytes (num_value v) = v"
proof (cases "v = []")
  case False
  assume min: "minimal_num v"
  obtain w l where v: "v = w @ [l]" using False by (metis append_butlast_last_id)
  have lt: "unat l < 256" by (rule unat_byte_less)
  consider (pos) "0 < unat l" "unat l < 128" | (zero) "unat l mod 128 = 0" | (neg) "128 < unat l"
    using lt by fastforce
  then show ?thesis
  proof cases
    case pos
    then have "le_digits (le_nat v) = v" by (intro le_digits_le_nat) (auto simp: v)
    with pos show ?thesis by (auto simp: num_bytes_def num_value_def v)
  next
    case zero
    with min v have "w \<noteq> []" and hi: "128 \<le> unat (last w)"
      by (auto simp: minimal_num_def nth_append last_conv_nth)
    then have "le_digits (le_nat w) = w" and "0 < le_nat w"
      by (auto intro!: le_digits_le_nat le_nat_last_pos)
    moreover from zero lt have "unat l = 0 \<or> unat l = 128" by fastforce
    then have "l = 0 \<or> l = 0x80" by (auto intro: unsigned_word_eqI [where 'a = nat])
    ultimately show ?thesis using hi \<open>w \<noteq> []\<close>
      by (auto simp: num_bytes_def num_value_def v le_nat_append nat_add_distrib)
  next
    case neg
    define l' :: byte where "l' = word_of_nat (unat l - 128)"
    have l': "unat l' = unat l - 128"
      unfolding l'_def by (subst unat_byte_of_nat, rule mod_less) (use lt in linarith)
    have small: "unat l' < 128" using lt l' neg by linarith
    have or: "l' OR 0x80 = l"
      by (rule unsigned_word_eqI [where 'a = nat]) (use neg l' small in \<open>simp add: byte_or_80\<close>)
    have "le_digits (le_nat (w @ [l'])) = w @ [l']"
      using neg l' by (intro le_digits_le_nat) auto
    moreover have "num_value v = - int (le_nat (w @ [l']))"
      using neg l' by (simp add: num_value_def v le_nat_append of_nat_diff)
    moreover have "le_nat (w @ [l']) > 0" using neg l' by (simp add: le_nat_append)
    ultimately show ?thesis using small or
      by (auto simp: num_bytes_def Let_def v)
  qed
qed (simp add: num_bytes_def num_value_def)

lemma length_num_bytes:
  assumes "\<bar>n\<bar> < 128 * 256 ^ k"
  shows "length (num_bytes n) \<le> Suc k"
proof (cases "n = 0")
  case False
  define ds where "ds = le_digits (nat \<bar>n\<bar>)"
  have ne: "ds \<noteq> []" and L: "int (le_nat ds) = \<bar>n\<bar>" using False by (auto simp: ds_def)
  obtain w l where ds: "ds = w @ [l]" using ne by (metis append_butlast_last_id)
  have "nat \<bar>n\<bar> < 256 ^ Suc k" using assms by (simp add: nat_less_iff)
  then have len: "length ds \<le> Suc k" unfolding ds_def by (rule length_le_digits)
  moreover have "length ds \<le> k" if "128 \<le> unat l"
  proof (rule ccontr)
    assume "\<not> length ds \<le> k"
    with len have "length w = k" by (simp add: ds)
    then have "le_nat ds \<ge> 128 * 256 ^ k"
      using mult_le_mono [OF that order_refl, of "256 ^ k"]
      by (simp add: ds le_nat_append mult.commute trans_le_add2)
    then have "int (le_nat ds) \<ge> 128 * 256 ^ k" by (metis of_nat_le_iff of_nat_mult of_nat_numeral of_nat_power)
    with L assms show False by linarith
  qed
  ultimately show ?thesis
    by (auto simp: num_bytes_def Let_def simp flip: ds_def) (auto simp: ds)
qed (simp add: num_bytes_def)

lemma sub_int64: "\<bar>n\<bar> < 128 * 256 ^ k \<Longrightarrow> k \<le> 6 \<Longrightarrow> \<bar>n :: int\<bar> < 2 ^ 55"
  using power_increasing [of k 6 "256 :: int"] by simp

section \<open>Properties\<close>

text \<open>
  C23. Round trip of script numbers: every number whose magnitude fits in \<open>k + 1\<close> bytes with a
  sign bit (so for \<open>k = 3\<close> every number in \<open>(-2^31, 2^31)\<close>) is encoded by \<open>Bytes\<close> in at
  most \<open>k + 1\<close> bytes, and \<open>makeScriptNum\<close> with the minimal-encoding rule on and that length
  limit reads the number back.
\<close>

theorem scriptNum_roundtrip:
  assumes "\<bar>n\<bar> < 128 * 256 ^ k" and "k \<le> 6"
  shows "\<exists>bs. scriptNum_Bytes n = Inr bs \<and> length bs \<le> k + 1 \<and>
           makeScriptNum bs True (k + 1) = Inr n"
proof -
  have "\<bar>n\<bar> < 2 ^ 55" using assms by (rule sub_int64)
  then have "scriptNum_Bytes n = Inr (num_bytes n)" by (intro scriptNum_Bytes_eq) auto
  moreover have "length (num_bytes n) \<le> Suc k" using assms(1) by (rule length_num_bytes)
  ultimately show ?thesis using assms(2)
    by (simp add: makeScriptNum_eq minimal_num_bytes num_value_num_bytes)
qed

theorem scriptNum_roundtrip_witness:
  "\<exists>bs. scriptNum_Bytes (- 300) = Inr bs \<and> length bs \<le> 3 + 1 \<and> makeScriptNum bs True (3 + 1) = Inr (- 300)"
  using scriptNum_roundtrip [of "- 300" 3] by simp

text \<open>
  C24. Canonicity of script numbers: a byte string of at most seven bytes that
  \<open>makeScriptNum\<close> accepts under the minimal-encoding rule is exactly the string that
  \<open>Bytes\<close> produces for the number read, so no number has two accepted encodings; and the
  number read lies strictly inside the range that its length allows.
\<close>

theorem makeScriptNum_canonical:
  assumes "makeScriptNum v True len = Inr n" and "len \<le> 7"
  shows "scriptNum_Bytes n = Inr v \<and> \<bar>n\<bar> < 128 * 256 ^ (len - 1)"
proof -
  have len: "length v \<le> len" using assms(1) by (auto simp: makeScriptNum_def split: if_splits)
  then have v: "length v \<le> len" "minimal_num v" "n = num_value v"
    using assms by (auto simp: makeScriptNum_eq split: if_splits)
  have "\<bar>n\<bar> < 128 * 256 ^ (len - 1)"
  proof (cases "v = []")
    case False
    have "(256 :: int) ^ (length v - 1) \<le> 256 ^ (len - 1)" using v by (intro power_increasing) auto
    with num_value_bounds [OF False] show ?thesis unfolding v(3) by linarith
  qed (simp add: v num_value_def)
  moreover from this have "\<bar>n\<bar> < 2 ^ 55" using assms(2) by (intro sub_int64) auto
  then have "scriptNum_Bytes n = Inr (num_bytes n)" by (intro scriptNum_Bytes_eq) auto
  ultimately show ?thesis using v num_bytes_num_value by simp
qed

theorem makeScriptNum_canonical_witness:
  "makeScriptNum [0x2c, 0x81] True 4 = Inr (- 300) \<and>
   scriptNum_Bytes (- 300) = Inr [0x2c, 0x81] \<and> \<bar>- 300\<bar> < (128 :: int) * 256 ^ (4 - 1)"
proof -
  have "makeScriptNum [0x2c, 0x81] True 4 = Inr (- 300)" by code_simp
  with makeScriptNum_canonical [OF this] show ?thesis by simp
qed

end
