(* ===== verification/Script_Optable.thy ===== *)
theory Script_Optable
  imports Script_Error
begin

text \<open>
  The opcode constants and the opcode table \<open>opcodeArray\<close> of
  \<open>src/txscript/opcode.go\<close>.  The handler of an entry is a tag of the type \<open>opfunc\<close>; the
  script engine's theory runs the tags.  The lemmas give the value and the length of the entry
  at an index in closed form.
\<close>

section \<open>Opcode constants\<close>

abbreviation (input) OP_0 :: byte where "OP_0 \<equiv> 0x00"
abbreviation (input) OP_FALSE :: byte where "OP_FALSE \<equiv> 0x00"
abbreviation (input) OP_DATA_1 :: byte where "OP_DATA_1 \<equiv> 0x01"
abbreviation (input) OP_DATA_2 :: byte where "OP_DATA_2 \<equiv> 0x02"
abbreviation (input) OP_DATA_3 :: byte where "OP_DATA_3 \<equiv> 0x03"
abbreviation (input) OP_DATA_4 :: byte where "OP_DATA_4 \<equiv> 0x04"
abbreviation (input) OP_DATA_20 :: byte where "OP_DATA_20 \<equiv> 0x14"
abbreviation (input) OP_DATA_33 :: byte where "OP_DATA_33 \<equiv> 0x21"
abbreviation (input) OP_DATA_36 :: byte where "OP_DATA_36 \<equiv> 0x24"
abbreviation (input) OP_DATA_75 :: byte where "OP_DATA_75 \<equiv> 0x4b"
abbreviation (input) OP_PUSHDATA1 :: byte where "OP_PUSHDATA1 \<equiv> 0x4c"
abbreviation (input) OP_PUSHDATA2 :: byte where "OP_PUSHDATA2 \<equiv> 0x4d"
abbreviation (input) OP_PUSHDATA4 :: byte where "OP_PUSHDATA4 \<equiv> 0x4e"
abbreviation (input) OP_1NEGATE :: byte where "OP_1NEGATE \<equiv> 0x4f"
abbreviation (input) OP_RESERVED :: byte where "OP_RESERVED \<equiv> 0x50"
abbreviation (input) OP_1 :: byte where "OP_1 \<equiv> 0x51"
abbreviation (input) OP_TRUE :: byte where "OP_TRUE \<equiv> 0x51"
abbreviation (input) OP_2 :: byte where "OP_2 \<equiv> 0x52"
abbreviation (input) OP_3 :: byte where "OP_3 \<equiv> 0x53"
abbreviation (input) OP_4 :: byte where "OP_4 \<equiv> 0x54"
abbreviation (input) OP_5 :: byte where "OP_5 \<equiv> 0x55"
abbreviation (input) OP_6 :: byte where "OP_6 \<equiv> 0x56"
abbreviation (input) OP_7 :: byte where "OP_7 \<equiv> 0x57"
abbreviation (input) OP_8 :: byte where "OP_8 \<equiv> 0x58"
abbreviation (input) OP_9 :: byte where "OP_9 \<equiv> 0x59"
abbreviation (input) OP_10 :: byte where "OP_10 \<equiv> 0x5a"
abbreviation (input) OP_11 :: byte where "OP_11 \<equiv> 0x5b"
abbreviation (input) OP_12 :: byte where "OP_12 \<equiv> 0x5c"
abbreviation (input) OP_13 :: byte where "OP_13 \<equiv> 0x5d"
abbreviation (input) OP_14 :: byte where "OP_14 \<equiv> 0x5e"
abbreviation (input) OP_15 :: byte where "OP_15 \<equiv> 0x5f"
abbreviation (input) OP_16 :: byte where "OP_16 \<equiv> 0x60"
abbreviation (input) OP_NOP :: byte where "OP_NOP \<equiv> 0x61"
abbreviation (input) OP_VER :: byte where "OP_VER \<equiv> 0x62"
abbreviation (input) OP_IF :: byte where "OP_IF \<equiv> 0x63"
abbreviation (input) OP_NOTIF :: byte where "OP_NOTIF \<equiv> 0x64"
abbreviation (input) OP_VERIF :: byte where "OP_VERIF \<equiv> 0x65"
abbreviation (input) OP_VERNOTIF :: byte where "OP_VERNOTIF \<equiv> 0x66"
abbreviation (input) OP_ELSE :: byte where "OP_ELSE \<equiv> 0x67"
abbreviation (input) OP_ENDIF :: byte where "OP_ENDIF \<equiv> 0x68"
abbreviation (input) OP_VERIFY :: byte where "OP_VERIFY \<equiv> 0x69"
abbreviation (input) OP_RETURN :: byte where "OP_RETURN \<equiv> 0x6a"
abbreviation (input) OP_TOALTSTACK :: byte where "OP_TOALTSTACK \<equiv> 0x6b"
abbreviation (input) OP_FROMALTSTACK :: byte where "OP_FROMALTSTACK \<equiv> 0x6c"
abbreviation (input) OP_2DROP :: byte where "OP_2DROP \<equiv> 0x6d"
abbreviation (input) OP_2DUP :: byte where "OP_2DUP \<equiv> 0x6e"
abbreviation (input) OP_3DUP :: byte where "OP_3DUP \<equiv> 0x6f"
abbreviation (input) OP_2OVER :: byte where "OP_2OVER \<equiv> 0x70"
abbreviation (input) OP_2ROT :: byte where "OP_2ROT \<equiv> 0x71"
abbreviation (input) OP_2SWAP :: byte where "OP_2SWAP \<equiv> 0x72"
abbreviation (input) OP_IFDUP :: byte where "OP_IFDUP \<equiv> 0x73"
abbreviation (input) OP_DEPTH :: byte where "OP_DEPTH \<equiv> 0x74"
abbreviation (input) OP_DROP :: byte where "OP_DROP \<equiv> 0x75"
abbreviation (input) OP_DUP :: byte where "OP_DUP \<equiv> 0x76"
abbreviation (input) OP_NIP :: byte where "OP_NIP \<equiv> 0x77"
abbreviation (input) OP_OVER :: byte where "OP_OVER \<equiv> 0x78"
abbreviation (input) OP_PICK :: byte where "OP_PICK \<equiv> 0x79"
abbreviation (input) OP_ROLL :: byte where "OP_ROLL \<equiv> 0x7a"
abbreviation (input) OP_ROT :: byte where "OP_ROT \<equiv> 0x7b"
abbreviation (input) OP_SWAP :: byte where "OP_SWAP \<equiv> 0x7c"
abbreviation (input) OP_TUCK :: byte where "OP_TUCK \<equiv> 0x7d"
abbreviation (input) OP_CAT :: byte where "OP_CAT \<equiv> 0x7e"
abbreviation (input) OP_SUBSTR :: byte where "OP_SUBSTR \<equiv> 0x7f"
abbreviation (input) OP_LEFT :: byte where "OP_LEFT \<equiv> 0x80"
abbreviation (input) OP_RIGHT :: byte where "OP_RIGHT \<equiv> 0x81"
abbreviation (input) OP_SIZE :: byte where "OP_SIZE \<equiv> 0x82"
abbreviation (input) OP_INVERT :: byte where "OP_INVERT \<equiv> 0x83"
abbreviation (input) OP_AND :: byte where "OP_AND \<equiv> 0x84"
abbreviation (input) OP_OR :: byte where "OP_OR \<equiv> 0x85"
abbreviation (input) OP_XOR :: byte where "OP_XOR \<equiv> 0x86"
abbreviation (input) OP_EQUAL :: byte where "OP_EQUAL \<equiv> 0x87"
abbreviation (input) OP_EQUALVERIFY :: byte where "OP_EQUALVERIFY \<equiv> 0x88"
abbreviation (input) OP_RESERVED1 :: byte where "OP_RESERVED1 \<equiv> 0x89"
abbreviation (input) OP_RESERVED2 :: byte where "OP_RESERVED2 \<equiv> 0x8a"
abbreviation (input) OP_1ADD :: byte where "OP_1ADD \<equiv> 0x8b"
abbreviation (input) OP_1SUB :: byte where "OP_1SUB \<equiv> 0x8c"
abbreviation (input) OP_2MUL :: byte where "OP_2MUL \<equiv> 0x8d"
abbreviation (input) OP_2DIV :: byte where "OP_2DIV \<equiv> 0x8e"
abbreviation (input) OP_NEGATE :: byte where "OP_NEGATE \<equiv> 0x8f"
abbreviation (input) OP_ABS :: byte where "OP_ABS \<equiv> 0x90"
abbreviation (input) OP_NOT :: byte where "OP_NOT \<equiv> 0x91"
abbreviation (input) OP_0NOTEQUAL :: byte where "OP_0NOTEQUAL \<equiv> 0x92"
abbreviation (input) OP_ADD :: byte where "OP_ADD \<equiv> 0x93"
abbreviation (input) OP_SUB :: byte where "OP_SUB \<equiv> 0x94"
abbreviation (input) OP_MUL :: byte where "OP_MUL \<equiv> 0x95"
abbreviation (input) OP_DIV :: byte where "OP_DIV \<equiv> 0x96"
abbreviation (input) OP_MOD :: byte where "OP_MOD \<equiv> 0x97"
abbreviation (input) OP_LSHIFT :: byte where "OP_LSHIFT \<equiv> 0x98"
abbreviation (input) OP_RSHIFT :: byte where "OP_RSHIFT \<equiv> 0x99"
abbreviation (input) OP_BOOLAND :: byte where "OP_BOOLAND \<equiv> 0x9a"
abbreviation (input) OP_BOOLOR :: byte where "OP_BOOLOR \<equiv> 0x9b"
abbreviation (input) OP_NUMEQUAL :: byte where "OP_NUMEQUAL \<equiv> 0x9c"
abbreviation (input) OP_NUMEQUALVERIFY :: byte where "OP_NUMEQUALVERIFY \<equiv> 0x9d"
abbreviation (input) OP_NUMNOTEQUAL :: byte where "OP_NUMNOTEQUAL \<equiv> 0x9e"
abbreviation (input) OP_LESSTHAN :: byte where "OP_LESSTHAN \<equiv> 0x9f"
abbreviation (input) OP_GREATERTHAN :: byte where "OP_GREATERTHAN \<equiv> 0xa0"
abbreviation (input) OP_LESSTHANOREQUAL :: byte where "OP_LESSTHANOREQUAL \<equiv> 0xa1"
abbreviation (input) OP_GREATERTHANOREQUAL :: byte where "OP_GREATERTHANOREQUAL \<equiv> 0xa2"
abbreviation (input) OP_MIN :: byte where "OP_MIN \<equiv> 0xa3"
abbreviation (input) OP_MAX :: byte where "OP_MAX \<equiv> 0xa4"
abbreviation (input) OP_WITHIN :: byte where "OP_WITHIN \<equiv> 0xa5"
abbreviation (input) OP_RIPEMD160 :: byte where "OP_RIPEMD160 \<equiv> 0xa6"
abbreviation (input) OP_SHA1 :: byte where "OP_SHA1 \<equiv> 0xa7"
abbreviation (input) OP_SHA256 :: byte where "OP_SHA256 \<equiv> 0xa8"
abbreviation (input) OP_HASH160 :: byte where "OP_HASH160 \<equiv> 0xa9"
abbreviation (input) OP_HASH256 :: byte where "OP_HASH256 \<equiv> 0xaa"
abbreviation (input) OP_CODESEPARATOR :: byte where "OP_CODESEPARATOR \<equiv> 0xab"
abbreviation (input) OP_CHECKSIG :: byte where "OP_CHECKSIG \<equiv> 0xac"
abbreviation (input) OP_CHECKSIGVERIFY :: byte where "OP_CHECKSIGVERIFY \<equiv> 0xad"
abbreviation (input) OP_CHECKMULTISIG :: byte where "OP_CHECKMULTISIG \<equiv> 0xae"
abbreviation (input) OP_CHECKMULTISIGVERIFY :: byte where "OP_CHECKMULTISIGVERIFY \<equiv> 0xaf"
abbreviation (input) OP_NOP1 :: byte where "OP_NOP1 \<equiv> 0xb0"
abbreviation (input) OP_NOP2 :: byte where "OP_NOP2 \<equiv> 0xb1"
abbreviation (input) OP_CHECKLOCKTIMEVERIFY :: byte where "OP_CHECKLOCKTIMEVERIFY \<equiv> 0xb1"
abbreviation (input) OP_NOP3 :: byte where "OP_NOP3 \<equiv> 0xb2"
abbreviation (input) OP_CHECKSEQUENCEVERIFY :: byte where "OP_CHECKSEQUENCEVERIFY \<equiv> 0xb2"
abbreviation (input) OP_NOP4 :: byte where "OP_NOP4 \<equiv> 0xb3"
abbreviation (input) OP_NOP5 :: byte where "OP_NOP5 \<equiv> 0xb4"
abbreviation (input) OP_NOP6 :: byte where "OP_NOP6 \<equiv> 0xb5"
abbreviation (input) OP_NOP7 :: byte where "OP_NOP7 \<equiv> 0xb6"
abbreviation (input) OP_NOP8 :: byte where "OP_NOP8 \<equiv> 0xb7"
abbreviation (input) OP_NOP9 :: byte where "OP_NOP9 \<equiv> 0xb8"
abbreviation (input) OP_NOP10 :: byte where "OP_NOP10 \<equiv> 0xb9"
abbreviation (input) OP_CHECKSAFEMULTISIG :: byte where "OP_CHECKSAFEMULTISIG \<equiv> 0xba"
abbreviation (input) OP_CHECKTHREAD :: byte where "OP_CHECKTHREAD \<equiv> 0xbb"
abbreviation (input) OP_SMALLINTEGER :: byte where "OP_SMALLINTEGER \<equiv> 0xfa"
abbreviation (input) OP_PUBKEYS :: byte where "OP_PUBKEYS \<equiv> 0xfb"
abbreviation (input) OP_PUBKEYHASH :: byte where "OP_PUBKEYHASH \<equiv> 0xfd"
abbreviation (input) OP_PUBKEY :: byte where "OP_PUBKEY \<equiv> 0xfe"
abbreviation (input) OP_INVALIDOPCODE :: byte where "OP_INVALIDOPCODE \<equiv> 0xff"

abbreviation (input) AdminOpIssueKeyAdd :: byte where "AdminOpIssueKeyAdd \<equiv> 0x01"
abbreviation (input) AdminOpIssueKeyRevoke :: byte where "AdminOpIssueKeyRevoke \<equiv> 0x02"
abbreviation (input) AdminOpProvisionKeyAdd :: byte where "AdminOpProvisionKeyAdd \<equiv> 0x03"
abbreviation (input) AdminOpProvisionKeyRevoke :: byte where "AdminOpProvisionKeyRevoke \<equiv> 0x04"
abbreviation (input) AdminOpValidateKeyAdd :: byte where "AdminOpValidateKeyAdd \<equiv> 0x11"
abbreviation (input) AdminOpValidateKeyRevoke :: byte where "AdminOpValidateKeyRevoke \<equiv> 0x12"
abbreviation (input) AdminOpASPKeyAdd :: byte where "AdminOpASPKeyAdd \<equiv> 0x13"
abbreviation (input) AdminOpASPKeyRevoke :: byte where "AdminOpASPKeyRevoke \<equiv> 0x14"

section \<open>The opcode table\<close>

datatype (plugins only: code) opfunc =
    Do_opcodeFalse | Do_opcodePushData | Do_opcode1Negate | Do_opcodeReserved | Do_opcodeN
    | Do_opcodeNop | Do_opcodeIf | Do_opcodeNotIf | Do_opcodeElse | Do_opcodeEndif
    | Do_opcodeVerify | Do_opcodeReturn | Do_opcodeToAltStack | Do_opcodeFromAltStack
    | Do_opcode2Drop | Do_opcode2Dup | Do_opcode3Dup | Do_opcode2Over | Do_opcode2Rot
    | Do_opcode2Swap | Do_opcodeIfDup | Do_opcodeDepth | Do_opcodeDrop | Do_opcodeDup
    | Do_opcodeNip | Do_opcodeOver | Do_opcodePick | Do_opcodeRoll | Do_opcodeRot
    | Do_opcodeSwap | Do_opcodeTuck | Do_opcodeDisabled | Do_opcodeSize | Do_opcodeEqual
    | Do_opcodeEqualVerify | Do_opcode1Add | Do_opcode1Sub | Do_opcodeNegate | Do_opcodeAbs
    | Do_opcodeNot | Do_opcode0NotEqual | Do_opcodeAdd | Do_opcodeSub | Do_opcodeBoolAnd
    | Do_opcodeBoolOr | Do_opcodeNumEqual | Do_opcodeNumEqualVerify | Do_opcodeNumNotEqual
    | Do_opcodeLessThan | Do_opcodeGreaterThan | Do_opcodeLessThanOrEqual
    | Do_opcodeGreaterThanOrEqual | Do_opcodeMin | Do_opcodeMax | Do_opcodeWithin
    | Do_opcodeRipemd160 | Do_opcodeSha1 | Do_opcodeSha256 | Do_opcodeHash160
    | Do_opcodeHash256 | Do_opcodeCodeSeparator | Do_opcodeCheckSig | Do_opcodeCheckSigVerify
    | Do_opcodeCheckMultiSig | Do_opcodeCheckMultiSigVerify | Do_opcodeCheckLockTimeVerify
    | Do_opcodeCheckSequenceVerify | Do_opcodeCheckSafeMultiSig | Do_opcodeInvalid

datatype opcode = Opcode (op_value: byte) (op_name: string) (op_length: int) (op_func: opfunc)

text \<open>Entries 0 to 127 of the table.\<close>

definition opcodeArray_lo :: "opcode list" where
  "opcodeArray_lo = [
    Opcode 0x00 ''OP_0'' 1 Do_opcodeFalse,
    Opcode 0x01 ''OP_DATA_1'' 2 Do_opcodePushData,
    Opcode 0x02 ''OP_DATA_2'' 3 Do_opcodePushData,
    Opcode 0x03 ''OP_DATA_3'' 4 Do_opcodePushData,
    Opcode 0x04 ''OP_DATA_4'' 5 Do_opcodePushData,
    Opcode 0x05 ''OP_DATA_5'' 6 Do_opcodePushData,
    Opcode 0x06 ''OP_DATA_6'' 7 Do_opcodePushData,
    Opcode 0x07 ''OP_DATA_7'' 8 Do_opcodePushData,
    Opcode 0x08 ''OP_DATA_8'' 9 Do_opcodePushData,
    Opcode 0x09 ''OP_DATA_9'' 10 Do_opcodePushData,
    Opcode 0x0a ''OP_DATA_10'' 11 Do_opcodePushData,
    Opcode 0x0b ''OP_DATA_11'' 12 Do_opcodePushData,
    Opcode 0x0c ''OP_DATA_12'' 13 Do_opcodePushData,
    Opcode 0x0d ''OP_DATA_13'' 14 Do_opcodePushData,
    Opcode 0x0e ''OP_DATA_14'' 15 Do_opcodePushData,
    Opcode 0x0f ''OP_DATA_15'' 16 Do_opcodePushData,
    Opcode 0x10 ''OP_DATA_16'' 17 Do_opcodePushData,
    Opcode 0x11 ''OP_DATA_17'' 18 Do_opcodePushData,
    Opcode 0x12 ''OP_DATA_18'' 19 Do_opcodePushData,
    Opcode 0x13 ''OP_DATA_19'' 20 Do_opcodePushData,
    Opcode 0x14 ''OP_DATA_20'' 21 Do_opcodePushData,
    Opcode 0x15 ''OP_DATA_21'' 22 Do_opcodePushData,
    Opcode 0x16 ''OP_DATA_22'' 23 Do_opcodePushData,
    Opcode 0x17 ''OP_DATA_23'' 24 Do_opcodePushData,
    Opcode 0x18 ''OP_DATA_24'' 25 Do_opcodePushData,
    Opcode 0x19 ''OP_DATA_25'' 26 Do_opcodePushData,
    Opcode 0x1a ''OP_DATA_26'' 27 Do_opcodePushData,
    Opcode 0x1b ''OP_DATA_27'' 28 Do_opcodePushData,
    Opcode 0x1c ''OP_DATA_28'' 29 Do_opcodePushData,
    Opcode 0x1d ''OP_DATA_29'' 30 Do_opcodePushData,
    Opcode 0x1e ''OP_DATA_30'' 31 Do_opcodePushData,
    Opcode 0x1f ''OP_DATA_31'' 32 Do_opcodePushData,
    Opcode 0x20 ''OP_DATA_32'' 33 Do_opcodePushData,
    Opcode 0x21 ''OP_DATA_33'' 34 Do_opcodePushData,
    Opcode 0x22 ''OP_DATA_34'' 35 Do_opcodePushData,
    Opcode 0x23 ''OP_DATA_35'' 36 Do_opcodePushData,
    Opcode 0x24 ''OP_DATA_36'' 37 Do_opcodePushData,
    Opcode 0x25 ''OP_DATA_37'' 38 Do_opcodePushData,
    Opcode 0x26 ''OP_DATA_38'' 39 Do_opcodePushData,
    Opcode 0x27 ''OP_DATA_39'' 40 Do_opcodePushData,
    Opcode 0x28 ''OP_DATA_40'' 41 Do_opcodePushData,
    Opcode 0x29 ''OP_DATA_41'' 42 Do_opcodePushData,
    Opcode 0x2a ''OP_DATA_42'' 43 Do_opcodePushData,
    Opcode 0x2b ''OP_DATA_43'' 44 Do_opcodePushData,
    Opcode 0x2c ''OP_DATA_44'' 45 Do_opcodePushData,
    Opcode 0x2d ''OP_DATA_45'' 46 Do_opcodePushData,
    Opcode 0x2e ''OP_DATA_46'' 47 Do_opcodePushData,
    Opcode 0x2f ''OP_DATA_47'' 48 Do_opcodePushData,
    Opcode 0x30 ''OP_DATA_48'' 49 Do_opcodePushData,
    Opcode 0x31 ''OP_DATA_49'' 50 Do_opcodePushData,
    Opcode 0x32 ''OP_DATA_50'' 51 Do_opcodePushData,
    Opcode 0x33 ''OP_DATA_51'' 52 Do_opcodePushData,
    Opcode 0x34 ''OP_DATA_52'' 53 Do_opcodePushData,
    Opcode 0x35 ''OP_DATA_53'' 54 Do_opcodePushData,
    Opcode 0x36 ''OP_DATA_54'' 55 Do_opcodePushData,
    Opcode 0x37 ''OP_DATA_55'' 56 Do_opcodePushData,
    Opcode 0x38 ''OP_DATA_56'' 57 Do_opcodePushData,
    Opcode 0x39 ''OP_DATA_57'' 58 Do_opcodePushData,
    Opcode 0x3a ''OP_DATA_58'' 59 Do_opcodePushData,
    Opcode 0x3b ''OP_DATA_59'' 60 Do_opcodePushData,
    Opcode 0x3c ''OP_DATA_60'' 61 Do_opcodePushData,
    Opcode 0x3d ''OP_DATA_61'' 62 Do_opcodePushData,
    Opcode 0x3e ''OP_DATA_62'' 63 Do_opcodePushData,
    Opcode 0x3f ''OP_DATA_63'' 64 Do_opcodePushData,
    Opcode 0x40 ''OP_DATA_64'' 65 Do_opcodePushData,
    Opcode 0x41 ''OP_DATA_65'' 66 Do_opcodePushData,
    Opcode 0x42 ''OP_DATA_66'' 67 Do_opcodePushData,
    Opcode 0x43 ''OP_DATA_67'' 68 Do_opcodePushData,
    Opcode 0x44 ''OP_DATA_68'' 69 Do_opcodePushData,
    Opcode 0x45 ''OP_DATA_69'' 70 Do_opcodePushData,
    Opcode 0x46 ''OP_DATA_70'' 71 Do_opcodePushData,
    Opcode 0x47 ''OP_DATA_71'' 72 Do_opcodePushData,
    Opcode 0x48 ''OP_DATA_72'' 73 Do_opcodePushData,
    Opcode 0x49 ''OP_DATA_73'' 74 Do_opcodePushData,
    Opcode 0x4a ''OP_DATA_74'' 75 Do_opcodePushData,
    Opcode 0x4b ''OP_DATA_75'' 76 Do_opcodePushData,
    Opcode 0x4c ''OP_PUSHDATA1'' (- 1) Do_opcodePushData,
    Opcode 0x4d ''OP_PUSHDATA2'' (- 2) Do_opcodePushData,
    Opcode 0x4e ''OP_PUSHDATA4'' (- 4) Do_opcodePushData,
    Opcode 0x4f ''OP_1NEGATE'' 1 Do_opcode1Negate,
    Opcode 0x50 ''OP_RESERVED'' 1 Do_opcodeReserved,
    Opcode 0x51 ''OP_1'' 1 Do_opcodeN,
    Opcode 0x52 ''OP_2'' 1 Do_opcodeN,
    Opcode 0x53 ''OP_3'' 1 Do_opcodeN,
    Opcode 0x54 ''OP_4'' 1 Do_opcodeN,
    Opcode 0x55 ''OP_5'' 1 Do_opcodeN,
    Opcode 0x56 ''OP_6'' 1 Do_opcodeN,
    Opcode 0x57 ''OP_7'' 1 Do_opcodeN,
    Opcode 0x58 ''OP_8'' 1 Do_opcodeN,
    Opcode 0x59 ''OP_9'' 1 Do_opcodeN,
    Opcode 0x5a ''OP_10'' 1 Do_opcodeN,
    Opcode 0x5b ''OP_11'' 1 Do_opcodeN,
    Opcode 0x5c ''OP_12'' 1 Do_opcodeN,
    Opcode 0x5d ''OP_13'' 1 Do_opcodeN,
    Opcode 0x5e ''OP_14'' 1 Do_opcodeN,
    Opcode 0x5f ''OP_15'' 1 Do_opcodeN,
    Opcode 0x60 ''OP_16'' 1 Do_opcodeN,
    Opcode 0x61 ''OP_NOP'' 1 Do_opcodeNop,
    Opcode 0x62 ''OP_VER'' 1 Do_opcodeReserved,
    Opcode 0x63 ''OP_IF'' 1 Do_opcodeIf,
    Opcode 0x64 ''OP_NOTIF'' 1 Do_opcodeNotIf,
    Opcode 0x65 ''OP_VERIF'' 1 Do_opcodeReserved,
    Opcode 0x66 ''OP_VERNOTIF'' 1 Do_opcodeReserved,
    Opcode 0x67 ''OP_ELSE'' 1 Do_opcodeElse,
    Opcode 0x68 ''OP_ENDIF'' 1 Do_opcodeEndif,
    Opcode 0x69 ''OP_VERIFY'' 1 Do_opcodeVerify,
    Opcode 0x6a ''OP_RETURN'' 1 Do_opcodeReturn,
    Opcode 0x6b ''OP_TOALTSTACK'' 1 Do_opcodeToAltStack,
    Opcode 0x6c ''OP_FROMALTSTACK'' 1 Do_opcodeFromAltStack,
    Opcode 0x6d ''OP_2DROP'' 1 Do_opcode2Drop,
    Opcode 0x6e ''OP_2DUP'' 1 Do_opcode2Dup,
    Opcode 0x6f ''OP_3DUP'' 1 Do_opcode3Dup,
    Opcode 0x70 ''OP_2OVER'' 1 Do_opcode2Over,
    Opcode 0x71 ''OP_2ROT'' 1 Do_opcode2Rot,
    Opcode 0x72 ''OP_2SWAP'' 1 Do_opcode2Swap,
    Opcode 0x73 ''OP_IFDUP'' 1 Do_opcodeIfDup,
    Opcode 0x74 ''OP_DEPTH'' 1 Do_opcodeDepth,
    Opcode 0x75 ''OP_DROP'' 1 Do_opcodeDrop,
    Opcode 0x76 ''OP_DUP'' 1 Do_opcodeDup,
    Opcode 0x77 ''OP_NIP'' 1 Do_opcodeNip,
    Opcode 0x78 ''OP_OVER'' 1 Do_opcodeOver,
    Opcode 0x79 ''OP_PICK'' 1 Do_opcodePick,
    Opcode 0x7a ''OP_ROLL'' 1 Do_opcodeRoll,
    Opcode 0x7b ''OP_ROT'' 1 Do_opcodeRot,
    Opcode 0x7c ''OP_SWAP'' 1 Do_opcodeSwap,
    Opcode 0x7d ''OP_TUCK'' 1 Do_opcodeTuck,
    Opcode 0x7e ''OP_CAT'' 1 Do_opcodeDisabled,
    Opcode 0x7f ''OP_SUBSTR'' 1 Do_opcodeDisabled]"

text \<open>Entries 128 to 255 of the table.\<close>

definition opcodeArray_hi :: "opcode list" where
  "opcodeArray_hi = [
    Opcode 0x80 ''OP_LEFT'' 1 Do_opcodeDisabled,
    Opcode 0x81 ''OP_RIGHT'' 1 Do_opcodeDisabled,
    Opcode 0x82 ''OP_SIZE'' 1 Do_opcodeSize,
    Opcode 0x83 ''OP_INVERT'' 1 Do_opcodeDisabled,
    Opcode 0x84 ''OP_AND'' 1 Do_opcodeDisabled,
    Opcode 0x85 ''OP_OR'' 1 Do_opcodeDisabled,
    Opcode 0x86 ''OP_XOR'' 1 Do_opcodeDisabled,
    Opcode 0x87 ''OP_EQUAL'' 1 Do_opcodeEqual,
    Opcode 0x88 ''OP_EQUALVERIFY'' 1 Do_opcodeEqualVerify,
    Opcode 0x89 ''OP_RESERVED1'' 1 Do_opcodeReserved,
    Opcode 0x8a ''OP_RESERVED2'' 1 Do_opcodeReserved,
    Opcode 0x8b ''OP_1ADD'' 1 Do_opcode1Add,
    Opcode 0x8c ''OP_1SUB'' 1 Do_opcode1Sub,
    Opcode 0x8d ''OP_2MUL'' 1 Do_opcodeDisabled,
    Opcode 0x8e ''OP_2DIV'' 1 Do_opcodeDisabled,
    Opcode 0x8f ''OP_NEGATE'' 1 Do_opcodeNegate,
    Opcode 0x90 ''OP_ABS'' 1 Do_opcodeAbs,
    Opcode 0x91 ''OP_NOT'' 1 Do_opcodeNot,
    Opcode 0x92 ''OP_0NOTEQUAL'' 1 Do_opcode0NotEqual,
    Opcode 0x93 ''OP_ADD'' 1 Do_opcodeAdd,
    Opcode 0x94 ''OP_SUB'' 1 Do_opcodeSub,
    Opcode 0x95 ''OP_MUL'' 1 Do_opcodeDisabled,
    Opcode 0x96 ''OP_DIV'' 1 Do_opcodeDisabled,
    Opcode 0x97 ''OP_MOD'' 1 Do_opcodeDisabled,
    Opcode 0x98 ''OP_LSHIFT'' 1 Do_opcodeDisabled,
    Opcode 0x99 ''OP_RSHIFT'' 1 Do_opcodeDisabled,
    Opcode 0x9a ''OP_BOOLAND'' 1 Do_opcodeBoolAnd,
    Opcode 0x9b ''OP_BOOLOR'' 1 Do_opcodeBoolOr,
    Opcode 0x9c ''OP_NUMEQUAL'' 1 Do_opcodeNumEqual,
    Opcode 0x9d ''OP_NUMEQUALVERIFY'' 1 Do_opcodeNumEqualVerify,
    Opcode 0x9e ''OP_NUMNOTEQUAL'' 1 Do_opcodeNumNotEqual,
    Opcode 0x9f ''OP_LESSTHAN'' 1 Do_opcodeLessThan,
    Opcode 0xa0 ''OP_GREATERTHAN'' 1 Do_opcodeGreaterThan,
    Opcode 0xa1 ''OP_LESSTHANOREQUAL'' 1 Do_opcodeLessThanOrEqual,
    Opcode 0xa2 ''OP_GREATERTHANOREQUAL'' 1 Do_opcodeGreaterThanOrEqual,
    Opcode 0xa3 ''OP_MIN'' 1 Do_opcodeMin,
    Opcode 0xa4 ''OP_MAX'' 1 Do_opcodeMax,
    Opcode 0xa5 ''OP_WITHIN'' 1 Do_opcodeWithin,
    Opcode 0xa6 ''OP_RIPEMD160'' 1 Do_opcodeRipemd160,
    Opcode 0xa7 ''OP_SHA1'' 1 Do_opcodeSha1,
    Opcode 0xa8 ''OP_SHA256'' 1 Do_opcodeSha256,
    Opcode 0xa9 ''OP_HASH160'' 1 Do_opcodeHash160,
    Opcode 0xaa ''OP_HASH256'' 1 Do_opcodeHash256,
    Opcode 0xab ''OP_CODESEPARATOR'' 1 Do_opcodeCodeSeparator,
    Opcode 0xac ''OP_CHECKSIG'' 1 Do_opcodeCheckSig,
    Opcode 0xad ''OP_CHECKSIGVERIFY'' 1 Do_opcodeCheckSigVerify,
    Opcode 0xae ''OP_CHECKMULTISIG'' 1 Do_opcodeCheckMultiSig,
    Opcode 0xaf ''OP_CHECKMULTISIGVERIFY'' 1 Do_opcodeCheckMultiSigVerify,
    Opcode 0xb0 ''OP_NOP1'' 1 Do_opcodeNop,
    Opcode 0xb1 ''OP_CHECKLOCKTIMEVERIFY'' 1 Do_opcodeCheckLockTimeVerify,
    Opcode 0xb2 ''OP_CHECKSEQUENCEVERIFY'' 1 Do_opcodeCheckSequenceVerify,
    Opcode 0xb3 ''OP_NOP4'' 1 Do_opcodeNop,
    Opcode 0xb4 ''OP_NOP5'' 1 Do_opcodeNop,
    Opcode 0xb5 ''OP_NOP6'' 1 Do_opcodeNop,
    Opcode 0xb6 ''OP_NOP7'' 1 Do_opcodeNop,
    Opcode 0xb7 ''OP_NOP8'' 1 Do_opcodeNop,
    Opcode 0xb8 ''OP_NOP9'' 1 Do_opcodeNop,
    Opcode 0xb9 ''OP_NOP10'' 1 Do_opcodeNop,
    Opcode 0xba ''OP_CHECKSAFEMULTISIG'' 1 Do_opcodeCheckSafeMultiSig,
    Opcode 0xbb ''OP_CHECKTHREAD'' 1 Do_opcodeCheckSafeMultiSig,
    Opcode 0xbc ''OP_UNKNOWN188'' 1 Do_opcodeInvalid,
    Opcode 0xbd ''OP_UNKNOWN189'' 1 Do_opcodeInvalid,
    Opcode 0xbe ''OP_UNKNOWN190'' 1 Do_opcodeInvalid,
    Opcode 0xbf ''OP_UNKNOWN191'' 1 Do_opcodeInvalid,
    Opcode 0xc0 ''OP_UNKNOWN192'' 1 Do_opcodeInvalid,
    Opcode 0xc1 ''OP_UNKNOWN193'' 1 Do_opcodeInvalid,
    Opcode 0xc2 ''OP_UNKNOWN194'' 1 Do_opcodeInvalid,
    Opcode 0xc3 ''OP_UNKNOWN195'' 1 Do_opcodeInvalid,
    Opcode 0xc4 ''OP_UNKNOWN196'' 1 Do_opcodeInvalid,
    Opcode 0xc5 ''OP_UNKNOWN197'' 1 Do_opcodeInvalid,
    Opcode 0xc6 ''OP_UNKNOWN198'' 1 Do_opcodeInvalid,
    Opcode 0xc7 ''OP_UNKNOWN199'' 1 Do_opcodeInvalid,
    Opcode 0xc8 ''OP_UNKNOWN200'' 1 Do_opcodeInvalid,
    Opcode 0xc9 ''OP_UNKNOWN201'' 1 Do_opcodeInvalid,
    Opcode 0xca ''OP_UNKNOWN202'' 1 Do_opcodeInvalid,
    Opcode 0xcb ''OP_UNKNOWN203'' 1 Do_opcodeInvalid,
    Opcode 0xcc ''OP_UNKNOWN204'' 1 Do_opcodeInvalid,
    Opcode 0xcd ''OP_UNKNOWN205'' 1 Do_opcodeInvalid,
    Opcode 0xce ''OP_UNKNOWN206'' 1 Do_opcodeInvalid,
    Opcode 0xcf ''OP_UNKNOWN207'' 1 Do_opcodeInvalid,
    Opcode 0xd0 ''OP_UNKNOWN208'' 1 Do_opcodeInvalid,
    Opcode 0xd1 ''OP_UNKNOWN209'' 1 Do_opcodeInvalid,
    Opcode 0xd2 ''OP_UNKNOWN210'' 1 Do_opcodeInvalid,
    Opcode 0xd3 ''OP_UNKNOWN211'' 1 Do_opcodeInvalid,
    Opcode 0xd4 ''OP_UNKNOWN212'' 1 Do_opcodeInvalid,
    Opcode 0xd5 ''OP_UNKNOWN213'' 1 Do_opcodeInvalid,
    Opcode 0xd6 ''OP_UNKNOWN214'' 1 Do_opcodeInvalid,
    Opcode 0xd7 ''OP_UNKNOWN215'' 1 Do_opcodeInvalid,
    Opcode 0xd8 ''OP_UNKNOWN216'' 1 Do_opcodeInvalid,
    Opcode 0xd9 ''OP_UNKNOWN217'' 1 Do_opcodeInvalid,
    Opcode 0xda ''OP_UNKNOWN218'' 1 Do_opcodeInvalid,
    Opcode 0xdb ''OP_UNKNOWN219'' 1 Do_opcodeInvalid,
    Opcode 0xdc ''OP_UNKNOWN220'' 1 Do_opcodeInvalid,
    Opcode 0xdd ''OP_UNKNOWN221'' 1 Do_opcodeInvalid,
    Opcode 0xde ''OP_UNKNOWN222'' 1 Do_opcodeInvalid,
    Opcode 0xdf ''OP_UNKNOWN223'' 1 Do_opcodeInvalid,
    Opcode 0xe0 ''OP_UNKNOWN224'' 1 Do_opcodeInvalid,
    Opcode 0xe1 ''OP_UNKNOWN225'' 1 Do_opcodeInvalid,
    Opcode 0xe2 ''OP_UNKNOWN226'' 1 Do_opcodeInvalid,
    Opcode 0xe3 ''OP_UNKNOWN227'' 1 Do_opcodeInvalid,
    Opcode 0xe4 ''OP_UNKNOWN228'' 1 Do_opcodeInvalid,
    Opcode 0xe5 ''OP_UNKNOWN229'' 1 Do_opcodeInvalid,
    Opcode 0xe6 ''OP_UNKNOWN230'' 1 Do_opcodeInvalid,
    Opcode 0xe7 ''OP_UNKNOWN231'' 1 Do_opcodeInvalid,
    Opcode 0xe8 ''OP_UNKNOWN232'' 1 Do_opcodeInvalid,
    Opcode 0xe9 ''OP_UNKNOWN233'' 1 Do_opcodeInvalid,
    Opcode 0xea ''OP_UNKNOWN234'' 1 Do_opcodeInvalid,
    Opcode 0xeb ''OP_UNKNOWN235'' 1 Do_opcodeInvalid,
    Opcode 0xec ''OP_UNKNOWN236'' 1 Do_opcodeInvalid,
    Opcode 0xed ''OP_UNKNOWN237'' 1 Do_opcodeInvalid,
    Opcode 0xee ''OP_UNKNOWN238'' 1 Do_opcodeInvalid,
    Opcode 0xef ''OP_UNKNOWN239'' 1 Do_opcodeInvalid,
    Opcode 0xf0 ''OP_UNKNOWN240'' 1 Do_opcodeInvalid,
    Opcode 0xf1 ''OP_UNKNOWN241'' 1 Do_opcodeInvalid,
    Opcode 0xf2 ''OP_UNKNOWN242'' 1 Do_opcodeInvalid,
    Opcode 0xf3 ''OP_UNKNOWN243'' 1 Do_opcodeInvalid,
    Opcode 0xf4 ''OP_UNKNOWN244'' 1 Do_opcodeInvalid,
    Opcode 0xf5 ''OP_UNKNOWN245'' 1 Do_opcodeInvalid,
    Opcode 0xf6 ''OP_UNKNOWN246'' 1 Do_opcodeInvalid,
    Opcode 0xf7 ''OP_UNKNOWN247'' 1 Do_opcodeInvalid,
    Opcode 0xf8 ''OP_UNKNOWN248'' 1 Do_opcodeInvalid,
    Opcode 0xf9 ''OP_UNKNOWN249'' 1 Do_opcodeInvalid,
    Opcode 0xfa ''OP_SMALLINTEGER'' 1 Do_opcodeInvalid,
    Opcode 0xfb ''OP_PUBKEYS'' 1 Do_opcodeInvalid,
    Opcode 0xfc ''OP_UNKNOWN252'' 1 Do_opcodeInvalid,
    Opcode 0xfd ''OP_PUBKEYHASH'' 1 Do_opcodeInvalid,
    Opcode 0xfe ''OP_PUBKEY'' 1 Do_opcodeInvalid,
    Opcode 0xff ''OP_INVALIDOPCODE'' 1 Do_opcodeInvalid]"

definition opcodeArray :: "opcode list" where
  "opcodeArray = opcodeArray_lo @ opcodeArray_hi"

definition op_info :: "byte \<Rightarrow> opcode" where
  "op_info b = opcodeArray ! unat b"

section \<open>The table\<close>

lemma length_opcodeArray: "length opcodeArray = 256"
  by code_simp

lemma op_values: "map (unat \<circ> op_value) opcodeArray = [0..<256]"
  by code_simp

lemma op_value_index: "op_value (op_info b) = b"
proof -
  have "(map (unat \<circ> op_value) opcodeArray) ! unat b = [0..<256] ! unat b" by (simp only: op_values)
  then have "unat (op_value (op_info b)) = unat b" by (simp add: op_info_def length_opcodeArray)
  then show ?thesis by (rule unsigned_word_eqI)
qed

definition op_length_spec :: "nat \<Rightarrow> int" where
  "op_length_spec i = (if 1 \<le> i \<and> i \<le> 75 then int i + 1 else if i = 76 then -1 else if i = 77 then -2
     else if i = 78 then -4 else 1)"

lemma op_lengths: "map op_length opcodeArray = map op_length_spec [0..<256]"
  by code_simp

lemma op_length_eq: "op_length (op_info b) = op_length_spec (unat b)"
proof -
  have "(map op_length opcodeArray) ! unat b = map op_length_spec [0..<256] ! unat b"
    by (simp only: op_lengths)
  then show ?thesis by (simp add: op_info_def length_opcodeArray)
qed

end
