(* ===== verification/Script_Opcode.thy ===== *)
theory Script_Opcode
  imports Script_Num Script_Optable
begin

text \<open>
  Parsed scripts (\<open>src/txscript/opcode.go\<close>, \<open>src/txscript/script.go\<close>): the classification
  of opcodes, and the two directions between a serialized script and its list of parsed
  opcodes.  A pointer into \<open>opcodeArray\<close> is represented by its index, which is also the
  entry's \<open>value\<close> (lemma \<open>op_value_index\<close>).

  The lemmas show that parsing and unparsing are inverse bijections between the scripts that
  parse and the lists of opcodes that unparse.
\<close>

section \<open>Parsed opcodes\<close>

record parsedOpcode =
  opcode :: byte
  data :: bytes

definition isDisabled :: "parsedOpcode \<Rightarrow> bool" where
  "isDisabled pop \<longleftrightarrow> opcode pop \<in> set [OP_CAT, OP_SUBSTR, OP_LEFT, OP_RIGHT, OP_INVERT, OP_AND, OP_OR,
     OP_XOR, OP_2MUL, OP_2DIV, OP_MUL, OP_DIV, OP_MOD, OP_LSHIFT, OP_RSHIFT]"

definition alwaysIllegal :: "parsedOpcode \<Rightarrow> bool" where
  "alwaysIllegal pop \<longleftrightarrow> opcode pop \<in> set [OP_VERIF, OP_VERNOTIF]"

definition isConditional :: "parsedOpcode \<Rightarrow> bool" where
  "isConditional pop \<longleftrightarrow> opcode pop \<in> set [OP_IF, OP_NOTIF, OP_ELSE, OP_ENDIF]"

definition checkMinimalDataPush :: "parsedOpcode \<Rightarrow> unit res" where
  "checkMinimalDataPush pop =
     (let d = data pop; dataLen = length d; op = opcode pop
      in if dataLen = 0 \<and> op \<noteq> OP_0 then Inl (ScriptErr ErrMinimalData)
         else if dataLen = 1 \<and> d ! 0 \<ge> 1 \<and> d ! 0 \<le> 16 then
           guardE (op = OP_1 + d ! 0 - 1) (ScriptErr ErrMinimalData)
         else if dataLen = 1 \<and> d ! 0 = 0x81 then
           guardE (op = OP_1NEGATE) (ScriptErr ErrMinimalData)
         else if dataLen \<le> 75 then
           guardE (unat op = dataLen) (ScriptErr ErrMinimalData)
         else if dataLen \<le> 255 then
           guardE (op = OP_PUSHDATA1) (ScriptErr ErrMinimalData)
         else if dataLen \<le> 65535 then
           guardE (op = OP_PUSHDATA2) (ScriptErr ErrMinimalData)
         else Inr ())"

text \<open>\<open>parsedOpcode.bytes\<close>: the length prefix of the three \<open>OP_PUSHDATA\<close> opcodes first.\<close>

definition pop_prefix :: "parsedOpcode \<Rightarrow> bytes \<times> int" where
  "pop_prefix pop =
     (let l = length (data pop); op = opcode pop; oplen = op_length (op_info op)
      in if oplen = -1 then
           let retbytes = [op, word_of_nat l]
           in (retbytes, int (unat (retbytes ! 1)) + int (length retbytes))
         else if oplen = -2 then
           let retbytes = [op, word_of_nat (l AND 0xff), word_of_nat (drop_bit 8 l AND 0xff)]
           in (retbytes, int (le_nat (drop 1 retbytes)) + int (length retbytes))
         else if oplen = -4 then
           let retbytes = [op, word_of_nat (l AND 0xff), word_of_nat (drop_bit 8 l AND 0xff),
                 word_of_nat (drop_bit 16 l AND 0xff), word_of_nat (drop_bit 24 l AND 0xff)]
           in (retbytes, int (le_nat (drop 1 retbytes)) + int (length retbytes))
         else ([op], oplen))"

definition pop_bytes :: "parsedOpcode \<Rightarrow> bytes res" where
  "pop_bytes pop =
     (if op_length (op_info (opcode pop)) = 1 then
        (if length (data pop) \<noteq> 0 then Inl (ScriptErr ErrInternal) else Inr [opcode pop])
      else
        let (retbytes, nbytes) = pop_prefix pop;
            retbytes = retbytes @ data pop
        in if int (length retbytes) \<noteq> nbytes then Inl (ScriptErr ErrInternal) else Inr retbytes)"

section \<open>Parsing and unparsing scripts\<close>

text \<open>
  One iteration of the loop of \<open>parseScriptTemplate\<close> on the non-empty rest
  \<open>instr # rest\<close> of the script: the parsed opcode and what is left.  A table entry of length
  0 would keep the loop where it is.
\<close>

definition parse_one :: "byte \<Rightarrow> bytes \<Rightarrow> (parsedOpcode \<times> bytes) res" where
  "parse_one instr rest =
     (let oplen = op_length (op_info instr)
      in if oplen = 1 then Inr (\<lparr>opcode = instr, data = []\<rparr>, rest)
         else if oplen > 1 then
           (if int (length (instr # rest)) < oplen then Inl (ScriptErr ErrMalformedPush)
            else Inr (\<lparr>opcode = instr, data = take (nat (oplen - 1)) rest\<rparr>, drop (nat (oplen - 1)) rest))
         else if oplen < 0 then
           (if int (length rest) < - oplen then Inl (ScriptErr ErrMalformedPush)
            else
              bindE
                (if oplen = -1 then Inr (unat (rest ! 0))
                 else if oplen = -2 then Inr (push_bit 8 (unat (rest ! 1)) OR unat (rest ! 0))
                 else if oplen = -4 then
                   Inr (push_bit 24 (unat (rest ! 3)) OR push_bit 16 (unat (rest ! 2)) OR
                        push_bit 8 (unat (rest ! 1)) OR unat (rest ! 0))
                 else Inl (ScriptErr ErrMalformedPush))
                (\<lambda>l.
                 let rest = drop (nat (- oplen)) rest
                 in if l > length rest then Inl (ScriptErr ErrMalformedPush)
                    else Inr (\<lparr>opcode = instr, data = take l rest\<rparr>, drop l rest)))
         else Inl NoReturn)"

lemma parse_one_shorter: "parse_one instr rest = Inr (pop, rest') \<Longrightarrow> length rest' < Suc (length rest)"
  by (auto simp: parse_one_def Let_def split: if_splits)

text \<open>
  \<open>ParseScript\<close> returns the opcodes parsed up to the point of failure along with the error.
\<close>

function ParseScript :: "bytes \<Rightarrow> parsedOpcode list \<times> script_err option" where
  "ParseScript [] = ([], None)"
| "ParseScript (instr # rest) =
     (case parse_one instr rest of
        Inl e \<Rightarrow> ([], Some e)
      | Inr (pop, rest') \<Rightarrow> (case ParseScript rest' of (pops, err) \<Rightarrow> (pop # pops, err)))"
  by pat_completeness auto
termination
  by (relation "measure length") (auto simp: parse_one_shorter)

text \<open>The same as a fallible call, for the callers that drop the opcodes on an error.\<close>

definition parseScript :: "bytes \<Rightarrow> parsedOpcode list res" where
  "parseScript script = (case ParseScript script of (pops, None) \<Rightarrow> Inr pops | (_, Some e) \<Rightarrow> Inl e)"

fun UnparseScript :: "parsedOpcode list \<Rightarrow> bytes res" where
  "UnparseScript [] = Inr []"
| "UnparseScript (pop # pops) =
     bindE (pop_bytes pop) (\<lambda>b. bindE (UnparseScript pops) (\<lambda>script. Inr (b @ script)))"

section \<open>Round trip\<close>

text \<open>The length bytes are the little-endian ones, written and read.\<close>

lemma or_add_push_nat: "r < 2 ^ n \<Longrightarrow> push_bit n b OR r = r + 2 ^ n * (b :: nat)"
proof -
  assume r: "r < 2 ^ n"
  have "push_bit n b AND r = 0"
  proof (rule bit_eqI)
    fix m
    have "bit r m = bit (take_bit n r) m" using r by (simp add: take_bit_nat_eq_self)
    then show "bit (push_bit n b AND r) m = bit 0 m"
      by (auto simp: bit_and_iff bit_push_bit_iff bit_take_bit_iff)
  qed
  from disjunctive_add_eq_or [OF this] show ?thesis by (simp add: push_bit_eq_mult mult.commute)
qed

lemma or_bytes2: "push_bit 8 (unat b) OR unat a = le_nat [a, b]" for a b :: byte
  by (simp add: or_add_push_nat)

lemma or_bytes4:
  "push_bit 24 (unat d) OR push_bit 16 (unat c) OR push_bit 8 (unat b) OR unat a = le_nat [a, b, c, d]"
  for a b c d :: byte
proof -
  have "le_nat [a, b] < 2 ^ 16" "le_nat [a, b, c] < 2 ^ 24"
    using le_nat_bound [of "[a, b]"] le_nat_bound [of "[a, b, c]"] by simp_all
  then show ?thesis
    unfolding or_bytes2 by (simp add: or_add_push_nat del: push_bit_numeral)
qed

lemma and_ff_nat: "l AND 0xff = (l mod 256 :: nat)"
  using take_bit_eq_mask [of 8 l] by (simp add: mask_eq_exp_minus_1 take_bit_eq_mod)

lemma of_nat_byte_mod: "(word_of_nat (l mod 256) :: byte) = word_of_nat l"
  by (rule unsigned_word_eqI [where 'a = nat]) simp

lemma le_bytes_lits:
  "le_bytes 1 l = [word_of_nat l]"
  "le_bytes 2 l = [word_of_nat (l AND 0xff), word_of_nat (drop_bit 8 l AND 0xff)]"
  "le_bytes 4 l = [word_of_nat (l AND 0xff), word_of_nat (drop_bit 8 l AND 0xff),
     word_of_nat (drop_bit 16 l AND 0xff), word_of_nat (drop_bit 24 l AND 0xff)]"
proof -
  have *: "(2 :: nat) = Suc (Suc 0)" "(4 :: nat) = Suc (Suc (Suc (Suc 0)))" by simp_all
  show "le_bytes 1 l = [word_of_nat l]" by (simp add: of_nat_byte_mod)
  show "le_bytes 2 l = [word_of_nat (l AND 0xff), word_of_nat (drop_bit 8 l AND 0xff)]"
    unfolding *(1) by (simp add: and_ff_nat drop_bit_eq_div)
  show "le_bytes 4 l = [word_of_nat (l AND 0xff), word_of_nat (drop_bit 8 l AND 0xff),
     word_of_nat (drop_bit 16 l AND 0xff), word_of_nat (drop_bit 24 l AND 0xff)]"
    unfolding *(2) by (simp add: and_ff_nat drop_bit_eq_div flip: div_mult2_eq)
qed

text \<open>Both directions in one shape, by the three kinds of opcode.\<close>

definition push_prefix :: "byte \<Rightarrow> nat option" where
  "push_prefix b = (if b = OP_PUSHDATA1 then Some 1 else if b = OP_PUSHDATA2 then Some 2
     else if b = OP_PUSHDATA4 then Some 4 else None)"

lemma op_length_cases:
  obtains (single) "op_length (op_info b) = 1" "push_prefix b = None" "unat b = 0 \<or> 78 < unat b"
  | (direct) m where "op_length (op_info b) = int m + 1" "0 < m" "0 < unat b" "unat b \<le> 75"
      "push_prefix b = None"
  | (pushdata) n where "op_length (op_info b) = - int n" "push_prefix b = Some n" "n = 1 \<or> n = 2 \<or> n = 4"
      "75 < unat b" "unat b \<le> 78"
proof -
  have eq: "b = word_of_nat k \<longleftrightarrow> unat b = k" if "k < 256" for k
    using that by (metis mod_less unat_byte_of_nat unsigned_word_eqI)
  have "push_prefix b = (if unat b = 76 then Some 1 else if unat b = 77 then Some 2
      else if unat b = 78 then Some 4 else None)"
    using eq [of 76] eq [of 77] eq [of 78] by (simp add: push_prefix_def)
  note * = this op_length_eq [of b] op_length_spec_def [of "unat b"]
  consider "unat b = 0" | "78 < unat b" | "0 < unat b" "unat b \<le> 75"
    | "unat b = 76" | "unat b = 77" | "unat b = 78" by linarith
  then show ?thesis
    by cases (use * in \<open>simp_all add: that(1) that(2) [of "unat b"] that(3) [of 1] that(3) [of 2] that(3) [of 4]\<close>)
qed

lemma pop_bytes_single:
  "op_length (op_info (opcode pop)) = 1 \<Longrightarrow>
   pop_bytes pop = (if data pop = [] then Inr [opcode pop] else Inl (ScriptErr ErrInternal))"
  by (simp add: pop_bytes_def)

lemma pop_bytes_direct:
  "op_length (op_info (opcode pop)) = int m + 1 \<Longrightarrow> 0 < m \<Longrightarrow>
   pop_bytes pop = (if length (data pop) = m then Inr (opcode pop # data pop) else Inl (ScriptErr ErrInternal))"
  by (simp add: pop_bytes_def pop_prefix_def Let_def)

lemma pop_bytes_pushdata:
  assumes "op_length (op_info (opcode pop)) = - int n" and "n = 1 \<or> n = 2 \<or> n = 4"
  shows "pop_bytes pop = (if length (data pop) < 256 ^ n
     then Inr (opcode pop # le_bytes n (length (data pop)) @ data pop) else Inl (ScriptErr ErrInternal))"
proof -
  have "pop_prefix pop = (opcode pop # le_bytes n (length (data pop)),
      int (length (data pop) mod 256 ^ n) + int (Suc n))"
    using assms(2,1) le_nat_le_bytes [of n "length (data pop)"]
    by (elim disjE)
      (simp_all add: pop_prefix_def Let_def le_bytes_lits le_bytes_lits(1) [simplified]
        del: le_nat.simps of_nat_unat)
  moreover have "length (data pop) = length (data pop) mod 256 ^ n \<longleftrightarrow> length (data pop) < 256 ^ n"
    by (metis mod_less mod_less_divisor zero_less_numeral zero_less_power)
  ultimately show ?thesis using assms by (auto simp: pop_bytes_def simp flip: of_nat_mod)
qed

lemma length_lits:
  "length h = Suc 0 \<Longrightarrow> \<exists>a. h = [a]"
  "length h = 2 \<Longrightarrow> \<exists>a b. h = [a, b]"
  "length h = 4 \<Longrightarrow> \<exists>a b c d. h = [a, b, c, d]"
  by (auto simp: length_Suc_conv numeral_eq_Suc)

lemma parse_one_pushdata:
  assumes "op_length (op_info instr) = - int n" and "n = 1 \<or> n = 2 \<or> n = 4"
  shows "parse_one instr rest =
    (if length rest < n \<or> length (drop n rest) < le_nat (take n rest) then Inl (ScriptErr ErrMalformedPush)
     else Inr (\<lparr>opcode = instr, data = take (le_nat (take n rest)) (drop n rest)\<rparr>,
               drop (le_nat (take n rest)) (drop n rest)))"
proof (cases "length rest < n")
  case False
  then obtain h t where rest: "rest = h @ t" and h: "length h = n" 
    by (metis append_take_drop_id length_take min.absorb2 not_less)
  have "(n = 1 \<longrightarrow> unat (rest ! 0) = le_nat h) \<and> 
     (n = 2 \<longrightarrow> push_bit 8 (unat (rest ! 1)) OR unat (rest ! 0) = le_nat h) \<and> 
     (n = 4 \<longrightarrow> push_bit 24 (unat (rest ! 3)) OR push_bit 16 (unat (rest ! 2)) OR
                        push_bit 8 (unat (rest ! 1)) OR unat (rest ! 0) = le_nat h)"
    using h unfolding or_bytes4 unfolding or_bytes2 unfolding rest
    by (intro conjI impI) (auto dest!: length_lits)
  with False assms h show ?thesis
    by (auto simp: parse_one_def Let_def rest)
qed (use assms in \<open>auto simp: parse_one_def\<close>)

lemma parse_one_single:
  "op_length (op_info instr) = 1 \<Longrightarrow> parse_one instr rest = Inr (\<lparr>opcode = instr, data = []\<rparr>, rest)"
  by (simp add: parse_one_def)

lemma parse_one_direct:
  "op_length (op_info instr) = int m + 1 \<Longrightarrow> 0 < m \<Longrightarrow>
   parse_one instr rest = (if length rest < m then Inl (ScriptErr ErrMalformedPush)
     else Inr (\<lparr>opcode = instr, data = take m rest\<rparr>, drop m rest))"
  by (simp add: parse_one_def Let_def)

lemma parse_one_sound:
  assumes "parse_one instr rest = Inr (pop, rest')"
  shows "\<exists>b. pop_bytes pop = Inr b \<and> instr # rest = b @ rest'"
proof (cases rule: op_length_cases [of instr])
  case single
  with assms show ?thesis by (auto simp: parse_one_single pop_bytes_single)
next
  case (direct m)
  with assms show ?thesis
    by (auto simp: parse_one_direct pop_bytes_direct split: if_splits)
next
  case (pushdata n)
  define l where "l = le_nat (take n rest)"
  have rest: "n \<le> length rest" "l \<le> length rest - n"
    and pop: "pop = \<lparr>opcode = instr, data = take l (drop n rest)\<rparr>" "rest' = drop l (drop n rest)"
    using assms pushdata by (auto simp: parse_one_pushdata l_def split: if_splits)
  have "l < 256 ^ n" using le_nat_bound [of "take n rest"] rest by (simp add: l_def)
  moreover have "le_bytes n l = take n rest"
    using le_bytes_le_nat [of "take n rest"] rest by (simp add: l_def)
  moreover have "rest = take n rest @ take l (drop n rest) @ rest'"
    unfolding pop by (simp del: drop_drop)
  ultimately show ?thesis using pushdata rest by (simp add: pop pop_bytes_pushdata)
qed

lemma pop_bytes_sound:
  assumes "pop_bytes pop = Inr b"
  shows "\<exists>t. b = opcode pop # t \<and> parse_one (opcode pop) (t @ rest) = Inr (pop, rest)"
proof (cases rule: op_length_cases [of "opcode pop"])
  case single
  with assms show ?thesis by (auto simp: parse_one_single pop_bytes_single split: if_splits)
next
  case (direct m)
  with assms show ?thesis by (auto simp: parse_one_direct pop_bytes_direct split: if_splits)
next
  case (pushdata n)
  then have len: "length (data pop) < 256 ^ n"
    and b: "b = opcode pop # le_bytes n (length (data pop)) @ data pop"
    using assms by (auto simp: pop_bytes_pushdata split: if_splits)
  have "parse_one (opcode pop) ((le_bytes n (length (data pop)) @ data pop) @ rest) = Inr (pop, rest)"
    unfolding parse_one_pushdata [OF pushdata(1,3)] by (simp add: le_nat_le_bytes_id [OF len])
  with b show ?thesis by blast
qed

lemma parse_unparse: "ParseScript script = (pops, None) \<Longrightarrow> UnparseScript pops = Inr script"
proof (induction script arbitrary: pops rule: ParseScript.induct)
  case (2 instr rest)
  then obtain pop rest' pops' where 1: "parse_one instr rest = Inr (pop, rest')"
    and "ParseScript rest' = (pops', None)" and "pops = pop # pops'"
    by (auto split: sum.splits prod.splits)
  with 2 parse_one_sound [OF 1] show ?case by fastforce
qed simp

lemma unparse_parse: "UnparseScript pops = Inr script \<Longrightarrow> ParseScript script = (pops, None)"
proof (induction pops arbitrary: script)
  case (Cons pop pops)
  then obtain b s where b: "pop_bytes pop = Inr b" and "UnparseScript pops = Inr s" "script = b @ s"
    by auto
  with Cons.IH pop_bytes_sound [OF b, of s] show ?case by auto
qed simp

section \<open>Properties\<close>

text \<open>
  C6. Parsing and unparsing are inverse to each other in both directions: a script parses into
  a list of opcodes exactly if that list unparses to the script.  In particular no two scripts
  have the same parsed form, and whatever \<open>UnparseScript\<close> produces parses again.
\<close>

theorem parse_iff_unparse: "ParseScript script = (pops, None) \<longleftrightarrow> UnparseScript pops = Inr script"
  using parse_unparse unparse_parse by blast

end
