(* ===== verification/Script_Builder.thy ===== *)
theory Script_Builder
  imports Script_Opcode
begin

text \<open>
  The script builder (\<open>src/txscript/scriptbuilder.go\<close>).  The lemmas relate the bytes each
  builder call appends to the parsed opcode that \<open>ParseScript\<close> reads back there: pushes come
  out as the shortest push of the data, which the engine's minimal-push rule accepts.
\<close>

definition MaxScriptSize :: nat where "MaxScriptSize = 10000"
definition MaxScriptElementSize :: nat where "MaxScriptElementSize = 520"

section \<open>Definitions\<close>

record ScriptBuilder =
  script :: bytes
  err :: "script_err option"

definition NewScriptBuilder :: ScriptBuilder where
  "NewScriptBuilder = \<lparr>script = [], err = None\<rparr>"

text \<open>\<open>ErrScriptNotCanonical\<close> is an error type of its own, not a script error code.\<close>

definition AddOp :: "byte \<Rightarrow> ScriptBuilder \<Rightarrow> ScriptBuilder" where
  "AddOp op b =
     (if err b \<noteq> None then b
      else if length (script b) + 1 > MaxScriptSize then b\<lparr>err := Some OtherErr\<rparr>
      else b\<lparr>script := script b @ [op]\<rparr>)"

definition AddOps :: "bytes \<Rightarrow> ScriptBuilder \<Rightarrow> ScriptBuilder" where
  "AddOps opcodes b =
     (if err b \<noteq> None then b
      else if length (script b) + length opcodes > MaxScriptSize then b\<lparr>err := Some OtherErr\<rparr>
      else b\<lparr>script := script b @ opcodes\<rparr>)"

definition canonicalDataSize :: "bytes \<Rightarrow> nat" where
  "canonicalDataSize d =
     (let dataLen = length d
      in if dataLen = 0 then 1
         else if dataLen = 1 \<and> d ! 0 \<le> 16 then 1
         else if dataLen = 1 \<and> d ! 0 = 0x81 then 1
         else if dataLen < unat OP_PUSHDATA1 then 1 + dataLen
         else if dataLen \<le> 0xff then 2 + dataLen
         else if dataLen \<le> 0xffff then 3 + dataLen
         else 5 + dataLen)"

definition addData :: "bytes \<Rightarrow> ScriptBuilder \<Rightarrow> ScriptBuilder" where
  "addData d b =
     (let dataLen = length d
      in if dataLen = 0 \<or> dataLen = 1 \<and> d ! 0 = 0 then b\<lparr>script := script b @ [OP_0]\<rparr>
         else if dataLen = 1 \<and> d ! 0 \<le> 16 then b\<lparr>script := script b @ [(OP_1 - 1) + d ! 0]\<rparr>
         else if dataLen = 1 \<and> d ! 0 = 0x81 then b\<lparr>script := script b @ [OP_1NEGATE]\<rparr>
         else
           let b = (if dataLen < unat OP_PUSHDATA1 then
                      b\<lparr>script := script b @ [word_of_nat ((unat OP_DATA_1 - 1) + dataLen)]\<rparr>
                    else if dataLen \<le> 0xff then
                      b\<lparr>script := script b @ [OP_PUSHDATA1, word_of_nat dataLen]\<rparr>
                    else if dataLen \<le> 0xffff then
                      b\<lparr>script := script b @ [OP_PUSHDATA2] @ le_bytes 2 dataLen\<rparr>
                    else b\<lparr>script := script b @ [OP_PUSHDATA4] @ le_bytes 4 dataLen\<rparr>)
           in b\<lparr>script := script b @ d\<rparr>)"

definition AddFullData :: "bytes \<Rightarrow> ScriptBuilder \<Rightarrow> ScriptBuilder" where
  "AddFullData d b = (if err b \<noteq> None then b else addData d b)"

definition AddData :: "bytes \<Rightarrow> ScriptBuilder \<Rightarrow> ScriptBuilder" where
  "AddData d b =
     (if err b \<noteq> None then b
      else if length (script b) + canonicalDataSize d > MaxScriptSize then b\<lparr>err := Some OtherErr\<rparr>
      else if length d > MaxScriptElementSize then b\<lparr>err := Some OtherErr\<rparr>
      else addData d b)"

text \<open>
  \<open>AddInt64\<close>.  \<open>scriptNum.Bytes\<close> panics on the smallest \<open>int64\<close>, which is kept as the
  builder's error here.
\<close>

definition AddInt64 :: "int \<Rightarrow> ScriptBuilder \<Rightarrow> ScriptBuilder" where
  "AddInt64 val b =
     (if err b \<noteq> None then b
      else if length (script b) + 1 > MaxScriptSize then b\<lparr>err := Some OtherErr\<rparr>
      else if val = 0 then b\<lparr>script := script b @ [OP_0]\<rparr>
      else if val = -1 \<or> (val \<ge> 1 \<and> val \<le> 16) then
        b\<lparr>script := script b @ [word_of_int (uint (OP_1 - 1) + val)]\<rparr>
      else case scriptNum_Bytes val of Inl e \<Rightarrow> b\<lparr>err := Some e\<rparr> | Inr bs \<Rightarrow> AddData bs b)"

definition Reset :: "ScriptBuilder \<Rightarrow> ScriptBuilder" where
  "Reset b = b\<lparr>script := [], err := None\<rparr>"

definition Script :: "ScriptBuilder \<Rightarrow> bytes res" where
  "Script b = (case err b of None \<Rightarrow> Inr (script b) | Some e \<Rightarrow> Inl e)"

section \<open>The opcode a push becomes\<close>

definition push_pop :: "bytes \<Rightarrow> parsedOpcode" where
  "push_pop d =
     (if d = [] \<or> d = [0] then \<lparr>opcode = OP_0, data = []\<rparr>
      else if length d = 1 \<and> hd d \<le> 16 then \<lparr>opcode = 0x50 + hd d, data = []\<rparr>
      else if d = [0x81] then \<lparr>opcode = OP_1NEGATE, data = []\<rparr>
      else if length d < 76 then \<lparr>opcode = word_of_nat (length d), data = d\<rparr>
      else if length d \<le> 0xff then \<lparr>opcode = OP_PUSHDATA1, data = d\<rparr>
      else if length d \<le> 0xffff then \<lparr>opcode = OP_PUSHDATA2, data = d\<rparr>
      else \<lparr>opcode = OP_PUSHDATA4, data = d\<rparr>)"

text \<open>What the handlers of the push opcodes put on the stack.\<close>

definition pushed :: "parsedOpcode \<Rightarrow> bytes option" where
  "pushed pop =
     (case op_func (op_info (opcode pop)) of
        Do_opcodeFalse \<Rightarrow> Some []
      | Do_opcodePushData \<Rightarrow> Some (data pop)
      | Do_opcode1Negate \<Rightarrow> Some [0x81]
      | Do_opcodeN \<Rightarrow> Some [opcode pop - 0x50]
      | _ \<Rightarrow> None)"

lemma op_funcs:
  "map op_func (take 97 opcodeArray) =
     [Do_opcodeFalse] @ replicate 78 Do_opcodePushData @ [Do_opcode1Negate, Do_opcodeReserved] @
     replicate 16 Do_opcodeN"
  by code_simp

lemma op_func_low:
  assumes "unat b < 97"
  shows "op_func (op_info b) =
    (if unat b = 0 then Do_opcodeFalse else if unat b \<le> 78 then Do_opcodePushData
     else if unat b = 79 then Do_opcode1Negate else if unat b = 80 then Do_opcodeReserved else Do_opcodeN)"
proof -
  have "op_func (op_info b) = map op_func (take 97 opcodeArray) ! unat b"
    using assms by (simp add: op_info_def length_opcodeArray)
  also have "\<dots> = (if unat b = 0 then Do_opcodeFalse else if unat b \<le> 78 then Do_opcodePushData
     else if unat b = 79 then Do_opcode1Negate else if unat b = 80 then Do_opcodeReserved else Do_opcodeN)"
    unfolding op_funcs using assms by (auto simp: nth_append nth_Cons' le_less_Suc_eq)
  finally show ?thesis .
qed

lemma unat_0x50_plus: "unat (x :: byte) \<le> 16 \<Longrightarrow> unat (0x50 + x) = 80 + unat x"
  by (simp add: unat_word_ariths)

lemma push_cases:
  obtains (empty) "d = [] \<or> d = [0]" "push_pop d = \<lparr>opcode = OP_0, data = []\<rparr>"
  | (small) x where "d = [x]" "0 < unat x" "unat x \<le> 16" "push_pop d = \<lparr>opcode = 0x50 + x, data = []\<rparr>"
  | (negate) "d = [0x81]" "push_pop d = \<lparr>opcode = OP_1NEGATE, data = []\<rparr>"
  | (direct) "0 < length d" "length d < 76" "length d = 1 \<Longrightarrow> \<not> d ! 0 \<le> 16 \<and> d ! 0 \<noteq> 0x81"
      "push_pop d = \<lparr>opcode = word_of_nat (length d), data = d\<rparr>"
  | (pushdata) n where "76 \<le> length d" "push_pop d = \<lparr>opcode = word_of_nat (76 + n), data = d\<rparr>"
      "n = 0 \<and> length d \<le> 0xff \<or> n = 1 \<and> 0xff < length d \<and> length d \<le> 0xffff \<or> n = 2 \<and> 0xffff < length d"
proof -
  consider "d = [] \<or> d = [0]" | x where "d = [x]" "0 < unat x" "unat x \<le> 16" | "d = [0x81]"
    | "0 < length d" "length d < 76" "length d = 1 \<Longrightarrow> \<not> d ! 0 \<le> 16 \<and> d ! 0 \<noteq> 0x81" | "76 \<le> length d"
  proof (cases "length d = 1")
    case True
    then obtain x where "d = [x]" by (auto simp: length_Suc_conv)
    with that show ?thesis
      by (cases "x = 0"; cases "x \<le> 16"; cases "x = 0x81") (auto simp: word_le_nat_alt unat_byte_pos)
  next
    case False
    with that show ?thesis by (cases "d = []"; cases "length d < 76") auto
  qed
  then show ?thesis
  proof cases
    case 5
    then have "push_pop d = (if length d \<le> 0xff then \<lparr>opcode = 76, data = d\<rparr>
        else if length d \<le> 0xffff then \<lparr>opcode = 77, data = d\<rparr> else \<lparr>opcode = 78, data = d\<rparr>)"
      by (auto simp: push_pop_def)
    with 5 that(5) [of 0] that(5) [of 1] that(5) [of 2] show ?thesis by (auto split: if_splits)
  next
    case (2 x)
    then have "push_pop d = \<lparr>opcode = 0x50 + x, data = []\<rparr>"
      by (auto simp: push_pop_def word_le_nat_alt)
    with 2 that(2) show ?thesis by blast
  next
    case 4
    then have "push_pop d = \<lparr>opcode = word_of_nat (length d), data = d\<rparr>"
      by (auto simp: push_pop_def hd_conv_nth)
    with 4 that(4) show ?thesis by blast
  qed (use that in \<open>auto simp: push_pop_def word_le_nat_alt\<close>)
qed

lemma pushed_push_pop: "d \<noteq> [0] \<Longrightarrow> pushed (push_pop d) = Some d"
  by (cases rule: push_cases [of d]) (auto simp: pushed_def op_func_low unat_0x50_plus)

lemma push_pop_minimal:
  "unat (opcode (push_pop d)) \<le> 78 \<Longrightarrow> checkMinimalDataPush (push_pop d) = Inr ()"
proof (cases rule: push_cases [of d])
  case direct
  then show ?thesis by (auto simp: checkMinimalDataPush_def Let_def word_le_nat_alt)
qed (auto simp: checkMinimalDataPush_def Let_def unat_0x50_plus)

text \<open>The bytes that \<open>addData\<close> appends are the serialized opcode.\<close>

lemma addData_eq:
  assumes "length d < 2 ^ 32"
  obtains bs where "pop_bytes (push_pop d) = Inr bs" and "addData d b = b\<lparr>script := script b @ bs\<rparr>"
    and "length bs = canonicalDataSize d"
proof (cases rule: push_cases [of d])
  case empty
  then show ?thesis
    by (intro that [of "[OP_0]"])
      (auto simp: pop_bytes_def op_length_eq op_length_spec_def addData_def canonicalDataSize_def)
next
  case (small x)
  then show ?thesis
    by (intro that [of "[0x50 + x]"])
      (auto simp: pop_bytes_def op_length_eq op_length_spec_def addData_def canonicalDataSize_def
        unat_0x50_plus word_le_nat_alt)
next
  case negate
  then show ?thesis
    by (intro that [of "[OP_1NEGATE]"])
      (auto simp: pop_bytes_def op_length_eq op_length_spec_def addData_def canonicalDataSize_def)
next
  case direct
  then have "pop_bytes (push_pop d) = Inr (word_of_nat (length d) # d)"
    using pop_bytes_direct [of "push_pop d" "length d"] by (simp add: op_length_eq op_length_spec_def)
  with direct show ?thesis
    by (intro that) (auto simp: addData_def canonicalDataSize_def Let_def)
next
  case (pushdata n)
  define k where "k = (if n = 0 then 1 else if n = 1 then 2 else 4 :: nat)"
  have "op_length (op_info (opcode (push_pop d))) = - int k" "k = 1 \<or> k = 2 \<or> k = 4" "length d < 256 ^ k"
    using pushdata assms by (auto simp: k_def op_length_eq op_length_spec_def)
  then have "pop_bytes (push_pop d) = Inr (word_of_nat (76 + n) # le_bytes k (length d) @ d)"
    using pop_bytes_pushdata [of "push_pop d" k] pushdata(2) by simp
  with pushdata show ?thesis
    by (intro that) (auto simp: addData_def canonicalDataSize_def k_def le_bytes_lits Let_def)
qed

lemma UnparseScript_append:
  "UnparseScript (ps @ qs) = bindE (UnparseScript ps) (\<lambda>a. bindE (UnparseScript qs) (\<lambda>b. Inr (a @ b)))"
  by (induction ps) (auto simp: bindE_def split: sum.splits)

lemma UnparseScript_single: "UnparseScript [pop] = pop_bytes pop"
  by (cases "pop_bytes pop") simp_all

text \<open>
  \<open>builds b pops\<close>: the builder has had no error and its script is the serialization of
  \<open>pops\<close>.
\<close>

definition builds :: "ScriptBuilder \<Rightarrow> parsedOpcode list \<Rightarrow> bool" where
  "builds b pops \<longleftrightarrow> err b = None \<and> UnparseScript pops = Inr (script b)"

lemma builds_New: "builds NewScriptBuilder []"
  by (simp add: builds_def NewScriptBuilder_def)

lemma builds_snoc:
  "builds b pops \<Longrightarrow> pop_bytes pop = Inr bs \<Longrightarrow> builds (b\<lparr>script := script b @ bs\<rparr>) (pops @ [pop])"
  by (simp add: builds_def UnparseScript_append UnparseScript_single del: UnparseScript.simps)

lemma builds_Script: "builds b pops \<Longrightarrow> \<exists>scr. Script b = Inr scr \<and> ParseScript scr = (pops, None)"
  by (auto simp: builds_def Script_def unparse_parse)

lemma builds_AddOp:
  "builds b pops \<Longrightarrow> length (script b) < MaxScriptSize \<Longrightarrow> op_length (op_info op) = 1 \<Longrightarrow>
   builds (AddOp op b) (pops @ [\<lparr>opcode = op, data = []\<rparr>])"
  using builds_snoc [of b pops "\<lparr>opcode = op, data = []\<rparr>" "[op]"]
  by (auto simp: AddOp_def pop_bytes_def builds_def)

lemma builds_AddData:
  assumes "builds b pops" and "length (script b) + canonicalDataSize d \<le> MaxScriptSize"
    and "length d \<le> MaxScriptElementSize"
  shows "builds (AddData d b) (pops @ [push_pop d])"
    and "length (script (AddData d b)) = length (script b) + canonicalDataSize d"
proof -
  obtain bs where "pop_bytes (push_pop d) = Inr bs" "addData d b = b\<lparr>script := script b @ bs\<rparr>"
    "length bs = canonicalDataSize d"
    by (rule addData_eq [of d b]) (use assms(3) in \<open>auto simp: MaxScriptElementSize_def\<close>)
  moreover from this have "AddData d b = b\<lparr>script := script b @ bs\<rparr>"
    using assms by (auto simp: AddData_def builds_def)
  ultimately show "builds (AddData d b) (pops @ [push_pop d])"
    and "length (script (AddData d b)) = length (script b) + canonicalDataSize d"
    using builds_snoc assms by simp_all
qed

section \<open>Properties\<close>

text \<open>
  C26. A data push built by \<open>AddData\<close> reads back as that push.  If the script so far parses to
  \<open>pops\<close> and the call reports no error, then the extended script parses to \<open>pops\<close> followed by
  one opcode, which pushes exactly the data (a single zero byte excepted, which becomes the
  empty push) and, where the engine checks pushes for minimality, passes that check.
\<close>

theorem AddData_parses_back:
  assumes "err b = None" and "ParseScript (script b) = (pops, None)" and "err (AddData d b) = None"
  shows "\<exists>pop. ParseScript (script (AddData d b)) = (pops @ [pop], None) \<and>
           pushed pop = Some (if d = [0] then [] else d) \<and>
           (unat (opcode pop) \<le> 78 \<longrightarrow> checkMinimalDataPush pop = Inr ())"
proof -
  have b: "builds b pops" using assms by (simp add: builds_def parse_unparse)
  have sz: "length (script b) + canonicalDataSize d \<le> MaxScriptSize" "length d \<le> MaxScriptElementSize"
    using assms by (auto simp: AddData_def split: if_splits)
  have "pushed (push_pop [0]) = Some []" by (simp add: pushed_def push_pop_def op_func_low)
  with builds_AddData(1) [OF b sz] pushed_push_pop [of d] push_pop_minimal [of d] show ?thesis
    by (auto simp: builds_def unparse_parse)
qed

theorem AddData_parses_back_witness:
  "\<exists>pop. ParseScript (script (AddData [7, 8] NewScriptBuilder)) = ([] @ [pop], None) \<and>
     pushed pop = Some (if [7, 8] = [0 :: byte] then [] else [7, 8]) \<and>
     (unat (opcode pop) \<le> 78 \<longrightarrow> checkMinimalDataPush pop = Inr ())"
  by (rule AddData_parses_back) (simp_all add: NewScriptBuilder_def AddData_def addData_def
      canonicalDataSize_def MaxScriptSize_def MaxScriptElementSize_def)

end
