(* ===== verification/Wire_Codec.thy ===== *)
theory Wire_Codec
  imports Prova_Prelude
begin

text \<open>
  The primitives of the wire encoding (\<open>src/wire/common.go\<close>): fixed-width little-endian
  integers, variable length integers and byte arrays.  A reader takes the bytes of the stream
  and returns the value read with the rest of the stream, or an error; a writer returns the
  bytes it writes.  Unsigned integers read from the stream are natural numbers below their
  width's bound.

  The locale \<open>codec\<close> is the contract between a writer and a reader: reading what was written,
  followed by anything, returns the value and leaves what follows; and a reader accepts nothing
  else.  Its consequences, for single values and for sequences, are proved once and used for
  every message type.
\<close>

section \<open>Definitions\<close>

datatype wire_err = UnexpectedEOF | MessageError

type_synonym 'a reader = "bytes \<Rightarrow> wire_err + 'a \<times> bytes"

definition ReadFull :: "nat \<Rightarrow> bytes reader" where
  "ReadFull n r = (if length r < n then Inl UnexpectedEOF else Inr (take n r, drop n r))"

text \<open>\<open>binarySerializer.Uint8\<close> to \<open>Uint64\<close> and \<open>PutUint8\<close> to \<open>PutUint64\<close>, by number of bytes.\<close>

definition getUint :: "nat \<Rightarrow> nat reader" where
  "getUint n r = bindE (ReadFull n r) (\<lambda>(b, r). Inr (le_nat b, r))"

definition putUint :: "nat \<Rightarrow> nat \<Rightarrow> bytes" where
  "putUint n v = le_bytes n v"

definition ReadVarInt :: "nat reader" where
  "ReadVarInt r =
     bindE (getUint 1 r) (\<lambda>(discriminant, r).
       if discriminant = 0xff then
         bindE (getUint 8 r) (\<lambda>(rv, r). if rv < 0x100000000 then Inl MessageError else Inr (rv, r))
       else if discriminant = 0xfe then
         bindE (getUint 4 r) (\<lambda>(rv, r). if rv < 0x10000 then Inl MessageError else Inr (rv, r))
       else if discriminant = 0xfd then
         bindE (getUint 2 r) (\<lambda>(rv, r). if rv < 0xfd then Inl MessageError else Inr (rv, r))
       else Inr (discriminant, r))"

definition WriteVarInt :: "nat \<Rightarrow> bytes" where
  "WriteVarInt val =
     (if val < 0xfd then putUint 1 val
      else if val \<le> 2 ^ 16 - 1 then putUint 1 0xfd @ putUint 2 val
      else if val \<le> 2 ^ 32 - 1 then putUint 1 0xfe @ putUint 4 val
      else putUint 1 0xff @ putUint 8 val)"

definition VarIntSerializeSize :: "nat \<Rightarrow> nat" where
  "VarIntSerializeSize val =
     (if val < 0xfd then 1 else if val \<le> 2 ^ 16 - 1 then 3 else if val \<le> 2 ^ 32 - 1 then 5 else 9)"

definition ReadVarBytes :: "nat \<Rightarrow> bytes reader" where
  "ReadVarBytes maxAllowed r =
     bindE (ReadVarInt r) (\<lambda>(count, r).
       if count > maxAllowed then Inl MessageError else ReadFull count r)"

definition WriteVarBytes :: "bytes \<Rightarrow> bytes" where
  "WriteVarBytes bs = WriteVarInt (length bs) @ bs"

text \<open>Reading a counted sequence: \<open>for i := 0; i < count; i++\<close>.\<close>

fun read_many :: "'a reader \<Rightarrow> nat \<Rightarrow> 'a list reader" where
  "read_many dec 0 r = Inr ([], r)"
| "read_many dec (Suc n) r =
     bindE (dec r) (\<lambda>(x, r). bindE (read_many dec n r) (\<lambda>(xs, r). Inr (x # xs, r)))"

section \<open>The contract of a writer and a reader\<close>

locale codec =
  fixes enc :: "'a \<Rightarrow> bytes" and dec :: "'a reader" and ok :: "'a \<Rightarrow> bool"
  assumes dec_iff: "dec r = Inr (x, rest) \<longleftrightarrow> ok x \<and> r = enc x @ rest"
begin

lemma dec_enc: "ok x \<Longrightarrow> dec (enc x @ rest) = Inr (x, rest)"
  by (simp add: dec_iff)

lemma prefix_free: "ok x \<Longrightarrow> ok y \<Longrightarrow> enc x @ r = enc y @ r' \<Longrightarrow> x = y \<and> r = r'"
  by (metis Inr_inject Pair_inject dec_enc)

lemma enc_inj: "ok x \<Longrightarrow> ok y \<Longrightarrow> enc x = enc y \<Longrightarrow> x = y"
  using prefix_free [of x y "[]" "[]"] by simp

lemma read_many_iff:
  "read_many dec n r = Inr (xs, rest) \<longleftrightarrow>
     length xs = n \<and> list_all ok xs \<and> r = concat (map enc xs) @ rest"
proof (induction n arbitrary: r xs)
  case (Suc n)
  have step: "read_many dec (Suc n) r = Inr (xs, rest) \<longleftrightarrow>
      (\<exists>y ys r'. xs = y # ys \<and> dec r = Inr (y, r') \<and> read_many dec n r' = Inr (ys, rest))"
    by (cases "dec r") (auto simp: bindE_eq_Inr)
  show ?case unfolding step dec_iff Suc.IH by (cases xs) auto
qed auto

end

lemma codecI:
  assumes "\<And>r x rest. dec r = Inr (x, rest) \<Longrightarrow> ok x \<and> r = enc x @ rest"
    and "\<And>x rest. ok x \<Longrightarrow> dec (enc x @ rest) = Inr (x, rest)"
  shows "codec enc dec ok"
  by unfold_locales (use assms in blast)

section \<open>The primitives satisfy it\<close>

lemma ReadFull_iff: "ReadFull n r = Inr (b, rest) \<longleftrightarrow> length b = n \<and> r = b @ rest"
  by (auto simp: ReadFull_def)

lemma ReadFull_append [simp]: "length b = n \<Longrightarrow> ReadFull n (b @ rest) = Inr (b, rest)"
  by (simp add: ReadFull_iff)

lemma getUint_iff: "getUint n r = Inr (v, rest) \<longleftrightarrow> v < 256 ^ n \<and> r = putUint n v @ rest"
proof
  assume "getUint n r = Inr (v, rest)"
  then obtain b where "length b = n" "r = b @ rest" "v = le_nat b"
    by (auto simp: getUint_def ReadFull_iff)
  then show "v < 256 ^ n \<and> r = putUint n v @ rest"
    using le_nat_bound [of b] le_bytes_le_nat [of b] by (auto simp: putUint_def)
next
  assume "v < 256 ^ n \<and> r = putUint n v @ rest"
  then show "getUint n r = Inr (v, rest)"
    by (simp add: getUint_def putUint_def ReadFull_def le_nat_le_bytes_id)
qed

lemma length_putUint [simp]: "length (putUint n v) = n"
  by (simp add: putUint_def)

interpretation uint: codec "putUint n" "getUint n" "\<lambda>v. v < 256 ^ n" for n
  by unfold_locales (rule getUint_iff)

lemma putUint_1: "v < 256 \<Longrightarrow> putUint 1 v = [word_of_nat v]"
  by (simp add: putUint_def)

interpretation varint: codec WriteVarInt ReadVarInt "\<lambda>v. v < 2 ^ 64"
proof
  fix r v rest
  show "ReadVarInt r = Inr (v, rest) \<longleftrightarrow> v < 2 ^ 64 \<and> r = WriteVarInt v @ rest"
  proof
    assume "ReadVarInt r = Inr (v, rest)"
    then show "v < 2 ^ 64 \<and> r = WriteVarInt v @ rest"
      by (auto simp: ReadVarInt_def WriteVarInt_def getUint_iff split: if_splits)
  next
    assume "v < 2 ^ 64 \<and> r = WriteVarInt v @ rest"
    then show "ReadVarInt r = Inr (v, rest)"
      using uint.dec_enc [where x = "v" and n = 1] uint.dec_enc [where x = "0xfd" and n = 1] uint.dec_enc [where x = "0xfe" and n = 1] uint.dec_enc [where x = "0xff" and n = 1]
        uint.dec_enc [where x = "v" and n = 2] uint.dec_enc [where x = "v" and n = 4] uint.dec_enc [where x = "v" and n = 8]
      by (auto simp: ReadVarInt_def WriteVarInt_def)
  qed
qed

interpretation varbytes: codec WriteVarBytes "ReadVarBytes m" "\<lambda>bs. length bs \<le> m \<and> length bs < 2 ^ 64" for m
proof (rule codecI)
  fix r x rest
  assume "ReadVarBytes m r = Inr (x, rest)"
  then show "(length x \<le> m \<and> length x < 2 ^ 64) \<and> r = WriteVarBytes x @ rest"
    by (auto simp: ReadVarBytes_def WriteVarBytes_def varint.dec_iff ReadFull_iff split: if_splits)
qed (simp add: ReadVarBytes_def WriteVarBytes_def varint.dec_enc)

lemma length_WriteVarInt: "length (WriteVarInt v) = VarIntSerializeSize v"
  by (simp add: WriteVarInt_def VarIntSerializeSize_def)

section \<open>Properties\<close>

text \<open>
  Variable length integers are encoded canonically: reading accepts exactly the strings
  that writing produces, for every 64-bit value, and the announced size is the size written.
\<close>

theorem VarInt_canonical:
  "(ReadVarInt r = Inr (v, rest) \<longleftrightarrow> v < 2 ^ 64 \<and> r = WriteVarInt v @ rest) \<and>
   length (WriteVarInt v) = VarIntSerializeSize v"
  using varint.dec_iff length_WriteVarInt by blast

end
