(* ===== verification/Wire_Tx.thy ===== *)
theory Wire_Tx
  imports Wire_Codec
begin

text \<open>
  Transactions on the wire (\<open>src/wire/msgtx.go\<close>): the message types, their encoding and
  decoding, the size functions and the transaction hashes.  A \<open>chainhash.Hash\<close> is its 32
  bytes; \<open>uint32\<close> fields are 32-bit words; \<open>int32\<close> and \<open>int64\<close> fields are integers in
  range.  The double hash of \<open>chainhash\<close> is an argument of the functions that use it.

  The lemmas interpret the writer/reader contract for every type, so that a transaction has
  exactly one serialization and every accepted serialization is that one; they show that the
  size functions are exact and that the transaction hash does not depend on signature scripts.
\<close>

section \<open>Definitions\<close>

record OutPoint =
  Hash :: bytes
  Index :: "32 word"

record TxIn =
  PreviousOutPoint :: OutPoint
  SignatureScript :: bytes
  Sequence :: "32 word"

record TxOut =
  Value :: int
  PkScript :: bytes

record MsgTx =
  Version :: int
  TxIn :: "TxIn list"
  TxOut :: "TxOut list"
  LockTime :: "32 word"

definition HashSize :: nat where "HashSize = 32"
definition MaxTxInSequenceNum :: "32 word" where "MaxTxInSequenceNum = 0xffffffff"
definition MaxMessagePayload :: nat where "MaxMessagePayload = 1024 * 1024 * 32"
definition minTxInPayload :: nat where "minTxInPayload = 9 + HashSize"
definition maxTxInPerMessage :: nat where "maxTxInPerMessage = MaxMessagePayload div minTxInPayload + 1"
definition minTxOutPayload :: nat where "minTxOutPayload = 9"
definition maxTxOutPerMessage :: nat where "maxTxOutPerMessage = MaxMessagePayload div minTxOutPayload + 1"
definition StrippedTxInSize :: nat where "StrippedTxInSize = 41"

definition NewOutPoint :: "bytes \<Rightarrow> 32 word \<Rightarrow> OutPoint" where
  "NewOutPoint h index = \<lparr>Hash = h, Index = index\<rparr>"

definition NewTxIn :: "OutPoint \<Rightarrow> bytes \<Rightarrow> TxIn" where
  "NewTxIn prevOut signatureScript =
     \<lparr>PreviousOutPoint = prevOut, SignatureScript = signatureScript, Sequence = MaxTxInSequenceNum\<rparr>"

definition NewTxOut :: "int \<Rightarrow> bytes \<Rightarrow> TxOut" where
  "NewTxOut val pkScript = \<lparr>Value = val, PkScript = pkScript\<rparr>"

definition NewMsgTx :: "int \<Rightarrow> MsgTx" where
  "NewMsgTx version = \<lparr>Version = version, TxIn = [], TxOut = [], LockTime = 0\<rparr>"

definition AddTxIn :: "TxIn \<Rightarrow> MsgTx \<Rightarrow> MsgTx" where
  "AddTxIn ti msg = msg\<lparr>TxIn := TxIn msg @ [ti]\<rparr>"

definition AddTxOut :: "TxOut \<Rightarrow> MsgTx \<Rightarrow> MsgTx" where
  "AddTxOut to msg = msg\<lparr>TxOut := TxOut msg @ [to]\<rparr>"

text \<open>\<open>MsgTx.Copy\<close>: a deep copy, field by field.\<close>

definition MsgTx_Copy :: "MsgTx \<Rightarrow> MsgTx" where
  "MsgTx_Copy msg =
     \<lparr>Version = Version msg,
      TxIn = map (\<lambda>oldTxIn.
        let oldOutPoint = PreviousOutPoint oldTxIn;
            newOutPoint = \<lparr>Hash = Hash oldOutPoint, Index = Index oldOutPoint\<rparr>;
            oldScript = SignatureScript oldTxIn;
            newScript = (if length oldScript > 0 then take (length oldScript) oldScript else [])
        in \<lparr>PreviousOutPoint = newOutPoint, SignatureScript = newScript, Sequence = Sequence oldTxIn\<rparr>) (TxIn msg),
      TxOut = map (\<lambda>oldTxOut.
        let oldScript = PkScript oldTxOut;
            newScript = (if length oldScript > 0 then take (length oldScript) oldScript else [])
        in \<lparr>Value = Value oldTxOut, PkScript = newScript\<rparr>) (TxOut msg),
      LockTime = LockTime msg\<rparr>"

text \<open>The typed elements: \<open>uint32\<close>, \<open>int32\<close>, \<open>int64\<close> and fixed-size arrays.\<close>

definition get_uint32 :: "32 word reader" where
  "get_uint32 r = bindE (getUint 4 r) (\<lambda>(v, r). Inr (word_of_nat v, r))"

definition put_uint32 :: "32 word \<Rightarrow> bytes" where
  "put_uint32 v = putUint 4 (unat v)"

definition get_int32 :: "int reader" where
  "get_int32 r = bindE (getUint 4 r) (\<lambda>(v, r). Inr (to_int32 (int v), r))"

definition put_int32 :: "int \<Rightarrow> bytes" where
  "put_int32 v = putUint 4 (nat (v mod 2 ^ 32))"

definition get_int64 :: "int reader" where
  "get_int64 r = bindE (getUint 8 r) (\<lambda>(v, r). Inr (to_int64 (int v), r))"

definition put_int64 :: "int \<Rightarrow> bytes" where
  "put_int64 v = putUint 8 (nat (v mod 2 ^ 64))"

definition readOutPoint :: "OutPoint reader" where
  "readOutPoint r =
     bindE (ReadFull HashSize r) (\<lambda>(h, r).
     bindE (get_uint32 r) (\<lambda>(index, r). Inr (\<lparr>Hash = h, Index = index\<rparr>, r)))"

definition writeOutPoint :: "OutPoint \<Rightarrow> bytes" where
  "writeOutPoint op = Hash op @ put_uint32 (Index op)"

text \<open>\<open>readScript\<close> borrows its buffer from a pool; the bytes read are the same.\<close>

definition readScript :: "nat \<Rightarrow> bytes reader" where
  "readScript maxAllowed r =
     bindE (ReadVarInt r) (\<lambda>(count, r).
       if count > maxAllowed then Inl MessageError else ReadFull count r)"

definition readTxIn :: "TxIn reader" where
  "readTxIn r =
     bindE (readOutPoint r) (\<lambda>(op, r).
     bindE (readScript MaxMessagePayload r) (\<lambda>(scr, r).
     bindE (get_uint32 r) (\<lambda>(sq, r).
       Inr (\<lparr>PreviousOutPoint = op, SignatureScript = scr, Sequence = sq\<rparr>, r))))"

definition writeTxIn :: "bool \<Rightarrow> TxIn \<Rightarrow> bytes" where
  "writeTxIn strip ti =
     writeOutPoint (PreviousOutPoint ti) @
     (if strip then WriteVarInt 0 else WriteVarBytes (SignatureScript ti)) @
     put_uint32 (Sequence ti)"

definition readTxOut :: "TxOut reader" where
  "readTxOut r =
     bindE (get_int64 r) (\<lambda>(val, r).
     bindE (readScript MaxMessagePayload r) (\<lambda>(scr, r). Inr (\<lparr>Value = val, PkScript = scr\<rparr>, r)))"

definition WriteTxOut :: "TxOut \<Rightarrow> bytes" where
  "WriteTxOut to = put_int64 (Value to) @ WriteVarBytes (PkScript to)"

text \<open>
  The last step of \<open>MsgTx.BtcDecode\<close>: the scripts are copied one after the other into one
  contiguous buffer, and each is replaced by its subslice of that buffer.  The subslices alias
  the buffer, so they are read once all copies are made.
\<close>

definition copy_at :: "bytes \<Rightarrow> nat \<Rightarrow> bytes \<Rightarrow> bytes" where
  "copy_at dst off src =
     (let n = min (length dst - off) (length src) in take off dst @ take n src @ drop (off + n) dst)"

fun copy_scripts :: "nat \<Rightarrow> bytes \<Rightarrow> bytes list \<Rightarrow> bytes \<times> (nat \<times> nat) list" where
  "copy_scripts offset buf [] = (buf, [])"
| "copy_scripts offset buf (s # ss) =
     (let end = offset + length s; (buf', locs) = copy_scripts end (copy_at buf offset s) ss
      in (buf', (offset, end) # locs))"

definition contiguous :: "bytes list \<Rightarrow> bytes list" where
  "contiguous scripts =
     (let totalScriptSize = sum_list (map length scripts);
          (buf, locs) = copy_scripts 0 (replicate totalScriptSize 0) scripts
      in map (\<lambda>(offset, end). take (end - offset) (drop offset buf)) locs)"

definition set_scripts :: "bytes list \<Rightarrow> TxIn list \<Rightarrow> TxOut list \<Rightarrow> TxIn list \<times> TxOut list" where
  "set_scripts scripts ins outs =
     (map (\<lambda>(ti, s). ti\<lparr>SignatureScript := s\<rparr>) (zip ins (take (length ins) scripts)),
      map (\<lambda>(to, s). to\<lparr>PkScript := s\<rparr>) (zip outs (drop (length ins) scripts)))"

definition MsgTx_BtcDecode :: "MsgTx reader" where
  "MsgTx_BtcDecode r =
     bindE (get_int32 r) (\<lambda>(version, r).
     bindE (ReadVarInt r) (\<lambda>(count, r).
       if count > maxTxInPerMessage then Inl MessageError
       else
     bindE (read_many readTxIn count r) (\<lambda>(ins, r).
     bindE (ReadVarInt r) (\<lambda>(count, r).
       if count > maxTxOutPerMessage then Inl MessageError
       else
     bindE (read_many readTxOut count r) (\<lambda>(outs, r).
     bindE (get_uint32 r) (\<lambda>(lock, r).
       let scripts = contiguous (map SignatureScript ins @ map PkScript outs);
           (ins, outs) = set_scripts scripts ins outs
       in Inr (\<lparr>Version = version, TxIn = ins, TxOut = outs, LockTime = lock\<rparr>, r)))))))"

definition btcEncode :: "bool \<Rightarrow> MsgTx \<Rightarrow> bytes" where
  "btcEncode strip msg =
     put_int32 (Version msg) @
     WriteVarInt (length (TxIn msg)) @ concat (map (writeTxIn strip) (TxIn msg)) @
     WriteVarInt (length (TxOut msg)) @ concat (map WriteTxOut (TxOut msg)) @
     put_uint32 (LockTime msg)"

definition MsgTx_Serialize :: "MsgTx \<Rightarrow> bytes" where
  "MsgTx_Serialize msg = btcEncode False msg"

definition SerializeStripped :: "MsgTx \<Rightarrow> bytes" where
  "SerializeStripped msg = btcEncode True msg"

definition TxIn_SerializeSize :: "TxIn \<Rightarrow> nat" where
  "TxIn_SerializeSize t = 40 + VarIntSerializeSize (length (SignatureScript t)) + length (SignatureScript t)"

definition TxOut_SerializeSize :: "TxOut \<Rightarrow> nat" where
  "TxOut_SerializeSize t = 8 + VarIntSerializeSize (length (PkScript t)) + length (PkScript t)"

definition serializeSize :: "bool \<Rightarrow> MsgTx \<Rightarrow> nat" where
  "serializeSize strip msg =
     (let n = 8 + VarIntSerializeSize (length (TxIn msg)) + VarIntSerializeSize (length (TxOut msg));
          n = (if strip then n + StrippedTxInSize * length (TxIn msg)
               else foldl (\<lambda>n ti. n + TxIn_SerializeSize ti) n (TxIn msg))
      in foldl (\<lambda>n to. n + TxOut_SerializeSize to) n (TxOut msg))"

text \<open>\<open>TxHash\<close> and \<open>TxHashWithSig\<close>, over \<open>chainhash.DoubleHashH\<close>.\<close>

definition TxHash :: "(bytes \<Rightarrow> bytes) \<Rightarrow> MsgTx \<Rightarrow> bytes" where
  "TxHash doubleHash msg = doubleHash (SerializeStripped msg)"

definition TxHashWithSig :: "(bytes \<Rightarrow> bytes) \<Rightarrow> MsgTx \<Rightarrow> bytes" where
  "TxHashWithSig doubleHash msg = doubleHash (MsgTx_Serialize msg)"

text \<open>\<open>PkScriptLocs\<close>: the offset of each output's script in the serialization.\<close>

fun pkScriptLocs_loop :: "nat \<Rightarrow> TxOut list \<Rightarrow> nat list" where
  "pkScriptLocs_loop n [] = []"
| "pkScriptLocs_loop n (to # tos) =
     (let n = n + (8 + VarIntSerializeSize (length (PkScript to)))
      in n # pkScriptLocs_loop (n + length (PkScript to)) tos)"

definition PkScriptLocs :: "MsgTx \<Rightarrow> nat list" where
  "PkScriptLocs msg =
     (let numTxOut = length (TxOut msg)
      in if numTxOut = 0 then []
         else
           let n = 4 + VarIntSerializeSize (length (TxIn msg)) + VarIntSerializeSize numTxOut;
               n = foldl (\<lambda>n ti. n + TxIn_SerializeSize ti) n (TxIn msg)
           in pkScriptLocs_loop n (TxOut msg))"

text \<open>Well-formedness: what the Go types and the decoder's limits guarantee.\<close>

definition OutPoint_ok :: "OutPoint \<Rightarrow> bool" where
  "OutPoint_ok op \<longleftrightarrow> length (Hash op) = HashSize"

definition TxIn_ok :: "TxIn \<Rightarrow> bool" where
  "TxIn_ok ti \<longleftrightarrow> OutPoint_ok (PreviousOutPoint ti) \<and> length (SignatureScript ti) \<le> MaxMessagePayload"

definition TxOut_ok :: "TxOut \<Rightarrow> bool" where
  "TxOut_ok to \<longleftrightarrow> in_int64 (Value to) \<and> length (PkScript to) \<le> MaxMessagePayload"

definition MsgTx_ok :: "MsgTx \<Rightarrow> bool" where
  "MsgTx_ok msg \<longleftrightarrow> in_int32 (Version msg) \<and>
     length (TxIn msg) \<le> maxTxInPerMessage \<and> list_all TxIn_ok (TxIn msg) \<and>
     length (TxOut msg) \<le> maxTxOutPerMessage \<and> list_all TxOut_ok (TxOut msg)"

section \<open>The writer/reader contract for every type\<close>

lemma to_int_mod:
  "in_int32 x \<Longrightarrow> to_int32 (x mod 2 ^ 32) = x" "in_int64 x \<Longrightarrow> to_int64 (x mod 2 ^ 64) = x"
  by (simp_all add: to_int32_def to_int64_def in_int32_def in_int64_def mod_simps)

lemma in_to_int: "in_int32 (to_int32 x)" "to_int32 x mod 2 ^ 32 = x mod 2 ^ 32" "to_int64 x mod 2 ^ 64 = x mod 2 ^ 64"
  by (simp_all add: to_int32_def to_int64_def in_int32_def mod_simps)

interpretation uint32: codec put_uint32 get_uint32 "\<lambda>_. True"
proof
  fix r rest and x :: "32 word"
  have "unat x < 256 ^ 4" using unsigned_less [of x, where 'a = nat] by simp
  then show "get_uint32 r = Inr (x, rest) \<longleftrightarrow> True \<and> r = put_uint32 x @ rest"
    by (auto simp: get_uint32_def put_uint32_def bindE_eq_Inr getUint_iff unat_of_nat)
qed

interpretation int32: codec put_int32 get_int32 in_int32
proof
  fix r x rest
  show "get_int32 r = Inr (x, rest) \<longleftrightarrow> in_int32 x \<and> r = put_int32 x @ rest"
  proof
    assume "get_int32 r = Inr (x, rest)"
    then obtain v where "v < 256 ^ 4" "r = putUint 4 v @ rest" "x = to_int32 (int v)"
      by (auto simp: get_int32_def getUint_iff)
    then show "in_int32 x \<and> r = put_int32 x @ rest"
      by (simp add: put_int32_def in_to_int in_to_int [simplified])
  next
    assume "in_int32 x \<and> r = put_int32 x @ rest"
    then show "get_int32 r = Inr (x, rest)"
      using uint.dec_enc [where n = 4 and x = "nat (x mod 2 ^ 32)"]
      by (simp add: get_int32_def put_int32_def to_int_mod [simplified])
  qed
qed

interpretation int64: codec put_int64 get_int64 in_int64
proof
  fix r x rest
  show "get_int64 r = Inr (x, rest) \<longleftrightarrow> in_int64 x \<and> r = put_int64 x @ rest"
  proof
    assume "get_int64 r = Inr (x, rest)"
    then obtain v where "v < 256 ^ 8" "r = putUint 8 v @ rest" "x = to_int64 (int v)"
      by (auto simp: get_int64_def getUint_iff)
    then show "in_int64 x \<and> r = put_int64 x @ rest"
      by (simp add: put_int64_def to_int64_in in_to_int [simplified])
  next
    assume "in_int64 x \<and> r = put_int64 x @ rest"
    then show "get_int64 r = Inr (x, rest)"
      using uint.dec_enc [where n = 8 and x = "nat (x mod 2 ^ 64)"]
      by (simp add: get_int64_def put_int64_def to_int_mod [simplified])
  qed
qed

interpretation outpoint: codec writeOutPoint readOutPoint OutPoint_ok
proof (rule codecI)
  fix r x rest
  assume "readOutPoint r = Inr (x, rest)"
  then show "OutPoint_ok x \<and> r = writeOutPoint x @ rest"
    by (auto simp: readOutPoint_def writeOutPoint_def OutPoint_ok_def ReadFull_iff uint32.dec_iff)
qed (simp add: readOutPoint_def writeOutPoint_def OutPoint_ok_def uint32.dec_enc)

interpretation scripts: codec WriteVarBytes "readScript MaxMessagePayload" "\<lambda>s. length s \<le> MaxMessagePayload"
proof (rule codecI)
  fix r x rest
  assume "readScript MaxMessagePayload r = Inr (x, rest)"
  then show "length x \<le> MaxMessagePayload \<and> r = WriteVarBytes x @ rest"
    by (auto simp: readScript_def WriteVarBytes_def varint.dec_iff ReadFull_iff split: if_splits)
qed (simp add: readScript_def WriteVarBytes_def varint.dec_enc MaxMessagePayload_def)

interpretation txin: codec "writeTxIn False" readTxIn TxIn_ok
proof (rule codecI)
  fix r x rest
  assume "readTxIn r = Inr (x, rest)"
  then show "TxIn_ok x \<and> r = writeTxIn False x @ rest"
    by (auto simp: readTxIn_def writeTxIn_def TxIn_ok_def scripts.dec_iff uint32.dec_iff outpoint.dec_iff)
qed (simp add: readTxIn_def writeTxIn_def TxIn_ok_def scripts.dec_enc uint32.dec_enc outpoint.dec_enc)

interpretation txout: codec WriteTxOut readTxOut TxOut_ok
proof (rule codecI)
  fix r x rest
  assume "readTxOut r = Inr (x, rest)"
  then show "TxOut_ok x \<and> r = WriteTxOut x @ rest"
    by (auto simp: readTxOut_def WriteTxOut_def TxOut_ok_def scripts.dec_iff int64.dec_iff)
qed (simp add: readTxOut_def WriteTxOut_def TxOut_ok_def scripts.dec_enc int64.dec_enc)

text \<open>The contiguous buffer holds every script unchanged.\<close>

lemma copy_scripts_eq:
  "copy_scripts (length pre) (pre @ replicate (sum_list (map length ss)) 0) ss = (buf, locs) \<Longrightarrow>
   buf = pre @ concat ss \<and> map (\<lambda>(offset, end). take (end - offset) (drop offset buf)) locs = ss"
proof (induction ss arbitrary: pre buf locs)
  case (Cons s ss)
  have "copy_at (pre @ replicate (length s + sum_list (map length ss)) 0) (length pre) s =
      (pre @ s) @ replicate (sum_list (map length ss)) 0"
    by (simp add: copy_at_def)
  with Cons.prems obtain locs' where
    IH: "copy_scripts (length (pre @ s)) ((pre @ s) @ replicate (sum_list (map length ss)) 0) ss = (buf, locs')"
    and "locs = (length pre, length pre + length s) # locs'"
    by (auto simp: Let_def split: prod.splits)
  with Cons.IH [OF IH] show ?case by auto
qed simp

lemma contiguous_id [simp]: "contiguous ss = ss"
proof -
  obtain buf locs where c: "copy_scripts 0 (replicate (sum_list (map length ss)) 0) ss = (buf, locs)"
    by fastforce
  with copy_scripts_eq [of "[]" ss buf locs] show ?thesis by (auto simp: contiguous_def)
qed

lemma set_scripts_id [simp]: "set_scripts (map SignatureScript ins @ map PkScript outs) ins outs = (ins, outs)"
  by (simp add: set_scripts_def zip_map2 zip_same_conv_map map_idI comp_def)

lemma per_message_uint64:
  "n \<le> maxTxInPerMessage \<Longrightarrow> n < 2 ^ 64" "n \<le> maxTxOutPerMessage \<Longrightarrow> n < 2 ^ 64"
  by (simp_all add: maxTxInPerMessage_def maxTxOutPerMessage_def MaxMessagePayload_def minTxInPayload_def
      minTxOutPayload_def HashSize_def)

interpretation msgtx: codec MsgTx_Serialize MsgTx_BtcDecode MsgTx_ok
proof (rule codecI)
  fix r x rest
  assume "MsgTx_BtcDecode r = Inr (x, rest)"
  then show "MsgTx_ok x \<and> r = MsgTx_Serialize x @ rest"
    by (auto simp: MsgTx_BtcDecode_def MsgTx_Serialize_def btcEncode_def MsgTx_ok_def
        int32.dec_iff varint.dec_iff uint32.dec_iff txin.read_many_iff txout.read_many_iff split: if_splits)
next
  fix x rest
  assume ok: "MsgTx_ok x"
  have "read_many readTxIn (length (TxIn x)) (concat (map (writeTxIn False) (TxIn x)) @ r) = Inr (TxIn x, r)"
    "read_many readTxOut (length (TxOut x)) (concat (map WriteTxOut (TxOut x)) @ r) = Inr (TxOut x, r)" for r
    using ok by (simp_all add: txin.read_many_iff txout.read_many_iff MsgTx_ok_def)
  with ok show "MsgTx_BtcDecode (MsgTx_Serialize x @ rest) = Inr (x, rest)"
    by (simp add: MsgTx_BtcDecode_def MsgTx_Serialize_def btcEncode_def MsgTx_ok_def int32.dec_enc
        varint.dec_enc uint32.dec_enc per_message_uint64 del: power_numeral)
qed

section \<open>Sizes and hashes\<close>

lemma MsgTx_Copy_id [simp]: "MsgTx_Copy msg = msg"
  by (cases msg) (simp add: MsgTx_Copy_def Let_def map_idI)

lemma foldl_add: "foldl (\<lambda>n x. n + f x) n xs = n + (\<Sum>x \<leftarrow> xs. f x)" for n :: nat
  by (induction xs arbitrary: n) (simp_all add: add.assoc)

lemma length_writeOutPoint: "OutPoint_ok op \<Longrightarrow> length (writeOutPoint op) = 36"
  by (simp add: writeOutPoint_def OutPoint_ok_def put_uint32_def HashSize_def)

lemma length_WriteVarBytes: "length (WriteVarBytes bs) = VarIntSerializeSize (length bs) + length bs"
  by (simp add: WriteVarBytes_def length_WriteVarInt)

lemma length_writeTxIn:
  "TxIn_ok ti \<Longrightarrow> length (writeTxIn strip ti) = (if strip then StrippedTxInSize else TxIn_SerializeSize ti)"
  by (simp add: writeTxIn_def TxIn_ok_def length_writeOutPoint length_WriteVarBytes length_WriteVarInt put_uint32_def
      TxIn_SerializeSize_def StrippedTxInSize_def VarIntSerializeSize_def)

lemma length_WriteTxOut: "length (WriteTxOut to) = TxOut_SerializeSize to"
  by (simp add: WriteTxOut_def put_int64_def length_WriteVarBytes TxOut_SerializeSize_def)

lemma length_concat_map: "(\<And>x. x \<in> set xs \<Longrightarrow> length (f x) = g x) \<Longrightarrow> length (concat (map f xs)) = (\<Sum>x \<leftarrow> xs. g x)"
  by (induction xs) auto

lemma length_btcEncode:
  assumes "MsgTx_ok msg"
  shows "length (btcEncode strip msg) = serializeSize strip msg"
proof -
  have "length (concat (map (writeTxIn strip) (TxIn msg))) =
      (\<Sum>ti \<leftarrow> TxIn msg. if strip then StrippedTxInSize else TxIn_SerializeSize ti)"
    using assms by (intro length_concat_map length_writeTxIn) (auto simp: MsgTx_ok_def list_all_iff)
  moreover have "length (concat (map WriteTxOut (TxOut msg))) = (\<Sum>to \<leftarrow> TxOut msg. TxOut_SerializeSize to)"
    by (intro length_concat_map length_WriteTxOut)
  ultimately show ?thesis
    by (cases strip) (simp_all add: btcEncode_def serializeSize_def length_WriteVarInt put_int32_def put_uint32_def
        foldl_add sum_list_triv mult.commute)
qed

text \<open>A transaction without its signature scripts.\<close>

definition strip_tx :: "MsgTx \<Rightarrow> MsgTx" where
  "strip_tx msg = msg\<lparr>TxIn := map (\<lambda>ti. ti\<lparr>SignatureScript := []\<rparr>) (TxIn msg)\<rparr>"

lemma SerializeStripped_eq: "SerializeStripped msg = MsgTx_Serialize (strip_tx msg)"
proof -
  have "writeTxIn True = (\<lambda>ti. writeTxIn False (ti\<lparr>SignatureScript := []\<rparr>))"
    by (simp add: fun_eq_iff writeTxIn_def WriteVarBytes_def)
  then show ?thesis
    by (simp add: SerializeStripped_def MsgTx_Serialize_def btcEncode_def strip_tx_def comp_def)
qed

lemma strip_tx_ok: "MsgTx_ok msg \<Longrightarrow> MsgTx_ok (strip_tx msg)"
  by (auto simp: MsgTx_ok_def strip_tx_def list_all_iff TxIn_ok_def)

lemma pkScriptLocs_loop_correct:
  assumes "i < length tos"
  shows "take (length (PkScript (tos ! i)))
           (drop (pkScriptLocs_loop (length pre) tos ! i) (pre @ concat (map WriteTxOut tos) @ post)) =
         PkScript (tos ! i)"
  using assms
proof (induction tos arbitrary: pre i)
  case (Cons to tos)
  have len: "8 + VarIntSerializeSize (length (PkScript to)) = length (put_int64 (Value to) @ WriteVarInt (length (PkScript to)))"
    by (simp add: put_int64_def length_WriteVarInt)
  have out: "WriteTxOut to = (put_int64 (Value to) @ WriteVarInt (length (PkScript to))) @ PkScript to"
    by (simp add: WriteTxOut_def WriteVarBytes_def)
  show ?case
  proof (cases i)
    case 0
    then show ?thesis unfolding pkScriptLocs_loop.simps Let_def len by (simp add: out)
  next
    case (Suc k)
    with Cons.IH [of k "pre @ WriteTxOut to"] Cons.prems show ?thesis
      unfolding pkScriptLocs_loop.simps Let_def len by (simp add: out ac_simps)
  qed
qed simp

section \<open>Properties\<close>

text \<open>
  C8. A transaction has one serialization: the decoder accepts exactly the byte strings that
  the encoder produces for a well-formed transaction (followed by the unread rest), and returns
  that transaction, its scripts intact after their relocation into the contiguous buffer.
\<close>

theorem MsgTx_codec: "MsgTx_BtcDecode r = Inr (msg, rest) \<longleftrightarrow> MsgTx_ok msg \<and> r = MsgTx_Serialize msg @ rest"
  by (rule msgtx.dec_iff)

text \<open>
  C20. \<open>SerializeSize\<close> and \<open>SerializeSizeStripped\<close> are the exact lengths of the two
  serializations of a well-formed transaction.
\<close>

theorem SerializeSize_exact:
  assumes "MsgTx_ok msg"
  shows "length (MsgTx_Serialize msg) = serializeSize False msg \<and>
         length (SerializeStripped msg) = serializeSize True msg"
  using length_btcEncode [OF assms] by (simp add: MsgTx_Serialize_def SerializeStripped_def)

theorem SerializeSize_exact_witness:
  "length (MsgTx_Serialize (NewMsgTx 1)) = serializeSize False (NewMsgTx 1)"
  using SerializeSize_exact [of "NewMsgTx 1"] by (simp add: MsgTx_ok_def NewMsgTx_def in_int32_def)

text \<open>
  C21. The transaction hash identifies a transaction up to its signature scripts: the hashed
  bytes of two well-formed transactions are equal exactly if the transactions agree once the
  signature scripts are removed, so a change of a signature script alone never changes
  \<open>TxHash\<close>.
\<close>

theorem TxHash_preimage:
  assumes "MsgTx_ok m" and "MsgTx_ok m'"
  shows "(SerializeStripped m = SerializeStripped m' \<longleftrightarrow> strip_tx m = strip_tx m') \<and>
         TxHash doubleHash (m\<lparr>TxIn := map (\<lambda>ti. ti\<lparr>SignatureScript := f ti\<rparr>) (TxIn m)\<rparr>) = TxHash doubleHash m"
proof -
  have "strip_tx (m\<lparr>TxIn := map (\<lambda>ti. ti\<lparr>SignatureScript := f ti\<rparr>) (TxIn m)\<rparr>) = strip_tx m"
    by (simp add: strip_tx_def comp_def)
  then show ?thesis
    using msgtx.enc_inj [OF strip_tx_ok strip_tx_ok] assms by (auto simp: TxHash_def SerializeStripped_eq)
qed

theorem TxHash_preimage_witness:
  "SerializeStripped (NewMsgTx 1) = SerializeStripped (NewMsgTx 2) \<longleftrightarrow>
   strip_tx (NewMsgTx 1) = strip_tx (NewMsgTx 2)"
  using TxHash_preimage [of "NewMsgTx 1" "NewMsgTx 2" id "\<lambda>_. []"]
  by (simp add: MsgTx_ok_def NewMsgTx_def in_int32_def)

text \<open>
  \<open>PkScriptLocs\<close> points at the scripts: in the serialization of a well-formed transaction,
  the bytes of the \<open>i\<close>-th output's script stand at the \<open>i\<close>-th location.
\<close>

theorem PkScriptLocs_correct:
  assumes "MsgTx_ok msg" and "i < length (TxOut msg)"
  shows "take (length (PkScript (TxOut msg ! i))) (drop (PkScriptLocs msg ! i) (MsgTx_Serialize msg)) =
         PkScript (TxOut msg ! i)"
proof -
  define pre where "pre = put_int32 (Version msg) @ WriteVarInt (length (TxIn msg)) @
    concat (map (writeTxIn False) (TxIn msg)) @ WriteVarInt (length (TxOut msg))"
  have "length (concat (map (writeTxIn False) (TxIn msg))) = (\<Sum>ti \<leftarrow> TxIn msg. TxIn_SerializeSize ti)"
    using assms(1) length_writeTxIn [of _ False]
    by (intro length_concat_map) (auto simp: MsgTx_ok_def list_all_iff)
  then have "PkScriptLocs msg = pkScriptLocs_loop (length pre) (TxOut msg)"
    using assms(2) by (simp add: PkScriptLocs_def foldl_add pre_def put_int32_def length_WriteVarInt ac_simps)
  then show ?thesis
    using pkScriptLocs_loop_correct [OF assms(2), of pre "put_uint32 (LockTime msg)"]
    by (simp add: MsgTx_Serialize_def btcEncode_def pre_def)
qed

theorem PkScriptLocs_correct_witness:
  "take 2 (drop (PkScriptLocs (AddTxOut (NewTxOut 5 [7, 8]) (NewMsgTx 1)) ! 0)
     (MsgTx_Serialize (AddTxOut (NewTxOut 5 [7, 8]) (NewMsgTx 1)))) = [7, 8]"
  using PkScriptLocs_correct [of "AddTxOut (NewTxOut 5 [7, 8]) (NewMsgTx 1)" 0]
  by (simp add: MsgTx_ok_def NewMsgTx_def AddTxOut_def NewTxOut_def in_int32_def in_int64_def TxOut_ok_def
      maxTxOutPerMessage_def MaxMessagePayload_def numeral_2_eq_2)

end
