(* ===== verification/Btcec_Keys.thy ===== *)
theory Btcec_Keys
  imports Script_Error
begin

text \<open>
  Keys and signatures as byte strings (\<open>src/btcec/pubkey.go\<close>, \<open>src/btcec/signature.go\<close>,
  the parameters and \<open>IsOnCurve\<close> of \<open>src/btcec/btcec.go\<close>).  A public key is its pair of
  affine coordinates, a signature its pair of scalars.  The field arithmetic of
  \<open>IsOnCurve\<close> is taken modulo the prime \<open>P\<close>.

  The lemmas show that a compressed public key string that parses is the serialization of the
  key it parses to, that serialized signatures parse back also with trailing bytes, and which
  strings make the signature parser index out of range.
\<close>

record PublicKey =
  X :: int
  Y :: int

record Signature =
  R :: int
  S :: int

definition curve_P :: int where
  "curve_P = 0xFFFFFFFFFFFFFFFFFFFFFFFFFFFFFFFFFFFFFFFFFFFFFFFFFFFFFFFEFFFFFC2F"

definition curve_N :: int where
  "curve_N = 0xFFFFFFFFFFFFFFFFFFFFFFFFFFFFFFFEBAAEDCE6AF48A03BBFD25E8CD0364141"

definition curve_B :: int where "curve_B = 7"

definition QPlus1Div4 :: int where "QPlus1Div4 = (curve_P + 1) div 4"

definition halforder :: int where "halforder = drop_bit 1 curve_N"

section \<open>Public keys\<close>

text \<open>\<open>big.Int.Exp\<close> with a modulus, by repeated squaring.\<close>

function modexp :: "int \<Rightarrow> nat \<Rightarrow> int \<Rightarrow> int" where
  "modexp b e m =
     (if e = 0 then 1 mod m
      else if even e then modexp (b * b mod m) (e div 2) m
      else b * modexp (b * b mod m) (e div 2) m mod m)"
  by pat_completeness auto
termination
  by (relation "measure (\<lambda>(b, e, m). e)") auto

declare modexp.simps [simp del]

definition isOdd :: "int \<Rightarrow> bool" where "isOdd a \<longleftrightarrow> bit a 0"

definition decompressPoint :: "int \<Rightarrow> bool \<Rightarrow> int res" where
  "decompressPoint x ybit =
     (let x3 = x * x * x + curve_B;
          y = modexp x3 (nat QPlus1Div4) curve_P;
          y = (if ybit \<noteq> isOdd y then curve_P - y else y)
      in if ybit \<noteq> isOdd y then Inl OtherErr else Inr y)"

definition IsOnCurve :: "int \<Rightarrow> int \<Rightarrow> bool" where
  "IsOnCurve x y \<longleftrightarrow> (y * y) mod curve_P = (x * x * x + 7) mod curve_P"

definition PubKeyBytesLenCompressed :: nat where "PubKeyBytesLenCompressed = 33"
definition PubKeyBytesLenUncompressed :: nat where "PubKeyBytesLenUncompressed = 65"

definition ParsePubKey :: "bytes \<Rightarrow> PublicKey res" where
  "ParsePubKey pubKeyStr =
     (if length pubKeyStr = 0 then Inl OtherErr
      else
        let ybit = pubKeyStr ! 0 AND 1 = 1;
            format = pubKeyStr ! 0 AND NOT 1
        in bindE
             (if length pubKeyStr = PubKeyBytesLenUncompressed then
                (if format \<noteq> 0x4 \<and> format \<noteq> 0x6 then Inl OtherErr
                 else
                   let x = be_int (take 32 (drop 1 pubKeyStr)); y = be_int (drop 33 pubKeyStr)
                   in if format = 0x6 \<and> ybit \<noteq> isOdd y then Inl OtherErr else Inr \<lparr>X = x, Y = y\<rparr>)
              else if length pubKeyStr = PubKeyBytesLenCompressed then
                (if format \<noteq> 0x2 then Inl OtherErr
                 else
                   let x = be_int (take 32 (drop 1 pubKeyStr))
                   in bindE (decompressPoint x ybit) (\<lambda>y. Inr \<lparr>X = x, Y = y\<rparr>))
              else Inl OtherErr)
             (\<lambda>pubkey.
              if X pubkey \<ge> curve_P then Inl OtherErr
              else if Y pubkey \<ge> curve_P then Inl OtherErr
              else if \<not> IsOnCurve (X pubkey) (Y pubkey) then Inl OtherErr
              else Inr pubkey))"

definition paddedAppend :: "nat \<Rightarrow> bytes \<Rightarrow> bytes \<Rightarrow> bytes" where
  "paddedAppend sz dst src = dst @ replicate (sz - length src) 0 @ src"

definition SerializeUncompressed :: "PublicKey \<Rightarrow> bytes" where
  "SerializeUncompressed p =
     (let b = [0x4]; b = paddedAppend 32 b (be_bytes (X p)) in paddedAppend 32 b (be_bytes (Y p)))"

definition SerializeCompressed :: "PublicKey \<Rightarrow> bytes" where
  "SerializeCompressed p =
     (let format = (if isOdd (Y p) then 0x2 OR 0x1 else 0x2)
      in paddedAppend 32 [format] (be_bytes (X p)))"

definition SerializeHybrid :: "PublicKey \<Rightarrow> bytes" where
  "SerializeHybrid p =
     (let format = (if isOdd (Y p) then 0x6 OR 0x1 else 0x6);
          b = paddedAppend 32 [format] (be_bytes (X p))
      in paddedAppend 32 b (be_bytes (Y p)))"

definition PublicKey_IsEqual :: "PublicKey \<Rightarrow> PublicKey \<Rightarrow> bool" where
  "PublicKey_IsEqual p otherPubKey \<longleftrightarrow> X p = X otherPubKey \<and> Y p = Y otherPubKey"

section \<open>Signatures\<close>

definition canonicalizeInt :: "int \<Rightarrow> bytes" where
  "canonicalizeInt val =
     (let b = be_bytes val;
          b = (if length b = 0 then [0x00] else b)
      in if b ! 0 AND 0x80 \<noteq> 0 then 0 # b else b)"

definition Signature_Serialize :: "Signature \<Rightarrow> bytes" where
  "Signature_Serialize sig =
     (let sigS = (if S sig > halforder then curve_N - S sig else S sig);
          rb = canonicalizeInt (R sig);
          sb = canonicalizeInt sigS;
          len = 6 + length rb + length sb
      in [0x30, word_of_nat (len - 2), 0x02, word_of_nat (length rb)] @ rb @
         [0x02, word_of_nat (length sb)] @ sb)"

definition canonicalPadding :: "bytes \<Rightarrow> unit res" where
  "canonicalPadding b =
     bindE (idxE b 0) (\<lambda>b0.
       if b0 AND 0x80 = 0x80 then Inl OtherErr
       else if length b > 1 \<and> b0 = 0x00 \<and> b ! 1 AND 0x80 \<noteq> 0x80 then Inl OtherErr
       else Inr ())"

text \<open>
  \<open>parseSig\<close>.  The sum \<open>siglen+2\<close> is a byte, so it wraps around; the indexing into the
  trimmed slice is checked by the run-time system only.
\<close>

definition parseSig :: "bytes \<Rightarrow> bool \<Rightarrow> Signature res" where
  "parseSig sigStr der =
     (if length sigStr < 8 then Inl OtherErr
      else if sigStr ! 0 \<noteq> 0x30 then Inl OtherErr
      else
        let siglen = sigStr ! 1
        in if unat (siglen + 2) > length sigStr then Inl OtherErr
           else
             let sigStr = take (unat (siglen + 2)) sigStr
             in bindE (idxE sigStr 2) (\<lambda>marker.
                if marker \<noteq> 0x02 then Inl OtherErr
                else bindE (idxE sigStr 3) (\<lambda>rLen.
                let rLen = unat rLen; index = 4
                in if rLen \<le> 0 \<or> int rLen > int (length sigStr) - int index - 3 then Inl OtherErr
                else
                let rBytes = take rLen (drop index sigStr)
                in bindE (if der then canonicalPadding rBytes else Inr ()) (\<lambda>_.
                let r = be_int rBytes; index = index + rLen
                in bindE (idxE sigStr index) (\<lambda>marker.
                if marker \<noteq> 0x02 then Inl OtherErr
                else bindE (idxE sigStr (index + 1)) (\<lambda>sLen.
                let sLen = unat sLen; index = index + 2
                in if sLen \<le> 0 \<or> int sLen > int (length sigStr) - int index then Inl OtherErr
                else
                let sBytes = take sLen (drop index sigStr)
                in bindE (if der then canonicalPadding sBytes else Inr ()) (\<lambda>_.
                let s = be_int sBytes; index = index + sLen
                in if index \<noteq> length sigStr then Inl OtherErr
                else if r \<le> 0 then Inl OtherErr
                else if s \<le> 0 then Inl OtherErr
                else if r \<ge> curve_N then Inl OtherErr
                else if s \<ge> curve_N then Inl OtherErr
                else Inr \<lparr>R = r, S = s\<rparr>)))))))"

definition ParseSignature :: "bytes \<Rightarrow> Signature res" where
  "ParseSignature sigStr = parseSig sigStr False"

definition ParseDERSignature :: "bytes \<Rightarrow> Signature res" where
  "ParseDERSignature sigStr = parseSig sigStr True"

section \<open>Parsing public keys\<close>

lemma modexp_eq: "modexp b e m = b ^ e mod m"
proof (induction b e m rule: modexp.induct)
  case (1 b e m)
  have sq: "(b * b mod m) ^ (e div 2) mod m = (b * b) ^ (e div 2) mod m"
    by (simp add: power_mod)
  show ?case
  proof (cases "e = 0")
    case False
    have "b ^ e = (b * b) ^ (e div 2) * (if even e then 1 else b)"
      by (cases "even e") (auto simp: power_mult power2_eq_square elim!: evenE oddE)
    with 1 False sq show ?thesis
      by (simp add: modexp.simps [of b e m] mod_mult_right_eq mult.commute)
  qed (simp add: modexp.simps)
qed

lemma isOdd_iff: "isOdd a \<longleftrightarrow> odd a"
  by (simp add: isOdd_def bit_0)

lemma padded_be_int:
  assumes "length bs \<le> n"
  shows "replicate (n - length (be_bytes (be_int bs))) 0 @ be_bytes (be_int bs) =
         replicate (n - length bs) 0 @ bs"
proof (rule be_int_inj)
  have "length (be_bytes (be_int bs)) \<le> length bs" by (rule length_be_bytes) (simp_all add: be_int_bound)
  then show "length (replicate (n - length (be_bytes (be_int bs))) 0 @ be_bytes (be_int bs)) =
      length (replicate (n - length bs) (0 :: byte) @ bs)"
    using assms by simp
qed simp

lemma byte_format:
  assumes "(b :: byte) AND NOT 1 = f" and "f AND 1 = 0"
  shows "b = (if b AND 1 = 1 then f OR 1 else f)"
proof -
  have "b = (b AND NOT 1) OR (b AND 1)" by (simp flip: bit.conj_disj_distrib)
  moreover have "b AND 1 = 1 \<or> b AND 1 = 0" by (simp add: and_one_eq mod2_eq_if)
  ultimately show ?thesis using assms(1) by (metis or.right_neutral zero_neq_one)
qed

lemma ParsePubKey_compressed:
  assumes "ParsePubKey b = Inr pk" and "length b = 33"
  shows "SerializeCompressed pk = b \<and> 0 \<le> X pk \<and> X pk < curve_P \<and> Y pk < curve_P \<and> IsOnCurve (X pk) (Y pk)"
proof -
  define x where "x = be_int (take 32 (drop 1 b))"
  define ybit where "ybit = (b ! 0 AND 1 = 1)"
  obtain y where fmt: "b ! 0 AND NOT 1 = 2" and y: "decompressPoint x ybit = Inr y"
    and pk: "pk = \<lparr>X = x, Y = y\<rparr>" and ok: "x < curve_P" "y < curve_P" "IsOnCurve x y"
    using assms
    by (auto simp: ParsePubKey_def Let_def PubKeyBytesLenCompressed_def PubKeyBytesLenUncompressed_def
        x_def ybit_def split: if_splits)
  have odd: "isOdd y = ybit" using y by (auto simp: decompressPoint_def Let_def split: if_splits)
  obtain h t where b: "b = h # t" and t: "length t = 32" using assms(2) by (cases b) auto
  have "h = (if ybit then 2 OR 1 else 2)"
    using byte_format [of h 2] fmt by (simp add: b ybit_def)
  moreover have "replicate (32 - length (be_bytes x)) 0 @ be_bytes x = t"
    using padded_be_int [of t 32] t by (simp add: x_def b)
  ultimately show ?thesis using ok odd
    by (simp add: SerializeCompressed_def paddedAppend_def pk b x_def)
qed

text \<open>
  C15. Public keys in compressed form have one encoding: a 33-byte string that
  \<open>ParsePubKey\<close> accepts is the compressed serialization of the key it returns, and that key is
  a point of the curve with both coordinates below the field prime.
\<close>

theorem ParsePubKey_compressed_canonical:
  assumes "ParsePubKey b = Inr pk" and "length b = 33"
  shows "SerializeCompressed pk = b \<and> 0 \<le> X pk \<and> X pk < curve_P \<and> Y pk < curve_P \<and> IsOnCurve (X pk) (Y pk)"
  using assms by (rule ParsePubKey_compressed)

text \<open>The point with \<open>y = 1\<close>.\<close>

definition unit_y_key :: bytes where
  "unit_y_key = [0x03, 0x1f, 0xe1, 0xe5, 0xef, 0x3f, 0xce, 0xb5, 0xc1, 0x35, 0xab, 0x77, 0x41, 0x33, 0x3c,
     0xe5, 0xa6, 0xe8, 0x0d, 0x68, 0x16, 0x76, 0x53, 0xf6, 0xb2, 0xb2, 0x4b, 0xcb, 0xcf, 0xaa,
     0xaf, 0xf5, 0x07]"

lemma unit_y_key_parses: "ParsePubKey unit_y_key = Inr \<lparr>X = be_int (tl unit_y_key), Y = 1\<rparr>"
proof -
  define x where "x = be_int (tl unit_y_key)"
  have x: "x = 14420825845716772930243294451304383010336953996540286189290595400563546912007" by (simp add: x_def unit_y_key_def be_int_def)
  have "(x * x * x + 7) mod curve_P = 1" by (simp add: x curve_P_def)
  moreover from this have "modexp (x * x * x + 7) e curve_P = 1" for e
    unfolding modexp_eq by (subst power_mod [symmetric]) (simp add: curve_P_def)
  moreover have "x < curve_P" by (simp add: x curve_P_def)
  ultimately show ?thesis
    unfolding x_def
    by (simp add: ParsePubKey_def unit_y_key_def PubKeyBytesLenCompressed_def PubKeyBytesLenUncompressed_def
        decompressPoint_def curve_B_def isOdd_iff IsOnCurve_def curve_P_def)
qed

theorem ParsePubKey_compressed_canonical_witness:
  "length unit_y_key = 33 \<and> SerializeCompressed \<lparr>X = be_int (tl unit_y_key), Y = 1\<rparr> = unit_y_key"
  using ParsePubKey_compressed_canonical [OF unit_y_key_parses] by (simp add: unit_y_key_def)

section \<open>Parsing signatures\<close>

lemma byte_and_80_eq: "(b :: byte) AND 0x80 = 0x80 \<longleftrightarrow> \<not> unat b < 128"
proof -
  have "b AND 2 ^ 7 = 0 \<or> b AND 2 ^ 7 = 2 ^ 7"
    by (cases "bit b 7") (auto intro: bit_eqI simp: bit_and_iff bit_exp_iff simp del: power_numeral)
  then show ?thesis using byte_and_80 [of b] by auto
qed

lemma canonicalizeInt_props:
  assumes "0 < n" and "n < 2 ^ 256"
  shows "be_int (canonicalizeInt n) = n" and "canonicalizeInt n \<noteq> []"
    and "length (canonicalizeInt n) \<le> 33" and "canonicalPadding (canonicalizeInt n) = Inr ()"
proof -
  define b where "b = be_bytes n"
  have ne: "b \<noteq> []" and hd: "b ! 0 \<noteq> 0" and len: "length b \<le> 32"
    using assms be_bytes_hd [of n] length_be_bytes [of n 32] by (auto simp: b_def hd_conv_nth)
  have c: "canonicalizeInt n = (if unat (b ! 0) < 128 then b else 0 # b)"
    using ne by (simp add: canonicalizeInt_def byte_and_80 flip: b_def)
  have bi: "be_int b = n" using assms by (simp add: b_def)
  show "be_int (canonicalizeInt n) = n" "canonicalizeInt n \<noteq> []" "length (canonicalizeInt n) \<le> 33"
    using ne len bi by (auto simp: c)
  show "canonicalPadding (canonicalizeInt n) = Inr ()"
    using ne hd by (auto simp: canonicalPadding_def c byte_and_80_eq)
qed

lemma curve_N_bound: "curve_N < 2 ^ 256" "2 * halforder + 1 = curve_N"
  by (simp_all add: curve_N_def halforder_def drop_bit_eq_div)

lemma parseSig_shape:
  assumes str: "sigStr = [0x30, l, 2, lr] @ rb @ [2, ls] @ sb @ rest"
    and l: "unat (l + 2) = 6 + length rb + length sb"
    and lr: "unat lr = length rb" and ls: "unat ls = length sb" and ne: "rb \<noteq> []" "sb \<noteq> []"
  shows "parseSig sigStr der =
    bindE (if der then canonicalPadding rb else Inr ()) (\<lambda>_.
    bindE (if der then canonicalPadding sb else Inr ()) (\<lambda>_.
      if 0 < be_int rb \<and> 0 < be_int sb \<and> be_int rb < curve_N \<and> be_int sb < curve_N
      then Inr \<lparr>R = be_int rb, S = be_int sb\<rparr> else Inl OtherErr))"
proof -
  define t where "t = [0x30, l, 2, lr] @ rb @ [2, ls] @ sb"
  have st: "sigStr = t @ rest" by (simp add: str t_def)
  have lt: "length t = 6 + length rb + length sb" by (simp add: t_def)
  have n: "0 < length rb" "0 < length sb" "6 + length rb + length sb \<le> length sigStr"
    using ne lt by (auto simp: st)
  have hd: "sigStr ! 0 = 0x30" "sigStr ! 1 = l" by (simp_all add: str)
  have trim: "take (6 + length rb + length sb) sigStr = t" unfolding st lt [symmetric] by simp
  have idx: "idxE t 2 = Inr 2" "idxE t 3 = Inr lr" "take (length rb) (drop 4 t) = rb"
    "idxE t (4 + length rb) = Inr 2" "idxE t (4 + length rb + 1) = Inr ls"
    by (simp_all add: t_def idxE_eq_Inr nth_append)
  have sb: "take (length sb) (drop (4 + length rb + 2) t) = sb"
    using drop_append [of "4 + length rb + 2" "[0x30, l, 2, lr] @ rb @ [2, ls]" sb] by (simp add: t_def)
  have conds: "(length sigStr < 8) = False" "(length sigStr < 6 + length rb + length sb) = False"
    "(length rb \<le> 0) = False" "(length sb \<le> 0) = False"
    "(int (length t) - int 4 - 3 < int (length rb)) = False"
    "(int (length t) - int (4 + length rb + 2) < int (length sb)) = False"
    "(4 + length rb + 2 + length sb = length t) = True"
    using n lt by (auto simp del: length_greater_0_conv)
  show ?thesis
    unfolding parseSig_def Let_def
    by (simp only: conds hd l trim idx lr ls sb simp_thms if_False bindE_simps) auto
qed

lemma parse_Serialize:
  assumes "0 < R sig" "R sig < curve_N" "0 < S sig" "S sig < curve_N"
  shows "ParseDERSignature (Signature_Serialize sig @ rest) =
    Inr \<lparr>R = R sig, S = (if S sig > halforder then curve_N - S sig else S sig)\<rparr>"
proof -
  define s where "s = (if S sig > halforder then curve_N - S sig else S sig)"
  define rb where "rb = canonicalizeInt (R sig)"
  define sb where "sb = canonicalizeInt s"
  have s: "0 < s" "s < curve_N" using assms curve_N_bound by (auto simp: s_def)
  note rb = canonicalizeInt_props [of "R sig", folded rb_def]
  note sb = canonicalizeInt_props [of s, folded sb_def]
  have N: "R sig < 2 ^ 256" "s < 2 ^ 256" using assms s curve_N_bound by linarith+
  define len where "len = 4 + length rb + length sb"
  have len: "len < 254" "length rb < 256" "length sb < 256" using rb sb assms s N by (auto simp: len_def)
  define body where "body = [0x30, word_of_nat len, 2, word_of_nat (length rb)] @ rb @ [2, word_of_nat (length sb)] @ sb"
  have eq: "Signature_Serialize sig = body"
    by (simp add: Signature_Serialize_def body_def len_def rb_def sb_def s_def Let_def)
  have "unat (word_of_nat len + 2 :: byte) = 6 + length rb + length sb"
    using len(1) by (simp add: unat_word_ariths) (simp add: len_def)
  then have "parseSig (body @ rest) True = Inr \<lparr>R = R sig, S = s\<rparr>"
    using parseSig_shape [of "body @ rest" "word_of_nat len" "word_of_nat (length rb)" rb
        "word_of_nat (length sb)" sb rest True] len rb sb assms s N
    by (simp add: body_def)
  then show ?thesis by (simp add: ParseDERSignature_def eq s_def)
qed

text \<open>
  C16. Serialized signatures parse back: for scalars between 1 and the group order, the strict
  DER parser reads from the serialization, whatever bytes follow it (a block header's signature
  field is padded with zeros), the same \<open>R\<close> and the lower one of \<open>S\<close> and its complement.
\<close>

theorem Signature_roundtrip:
  assumes "0 < R sig" "R sig < curve_N" "0 < S sig" "S sig < curve_N"
  shows "ParseDERSignature (Signature_Serialize sig @ rest) =
    Inr \<lparr>R = R sig, S = (if S sig > halforder then curve_N - S sig else S sig)\<rparr>"
  using assms by (rule parse_Serialize)

theorem Signature_roundtrip_witness:
  "ParseDERSignature (Signature_Serialize \<lparr>R = 255, S = 1\<rparr> @ [0, 0]) = Inr \<lparr>R = 255, S = 1\<rparr>"
  using Signature_roundtrip [of "\<lparr>R = 255, S = 1\<rparr>" "[0, 0]"]
  by (simp add: curve_N_def halforder_def drop_bit_eq_div)

lemma canonicalPadding_no_panic: "b \<noteq> [] \<Longrightarrow> canonicalPadding b \<noteq> Inl Panic"
  by (simp add: canonicalPadding_def)

lemma byte_plus_2: "unat ((w :: byte) + 2) = (unat w + 2) mod 256"
  by (simp add: unat_word_ariths)

lemma byte_plus_2_small:
  fixes w :: byte
  shows "w = 0xfe \<longleftrightarrow> unat (w + 2) = 0" and "w = 0xff \<longleftrightarrow> unat (w + 2) = 1"
    and "w = 0 \<longleftrightarrow> unat (w + 2) = 2" and "w = 1 \<longleftrightarrow> unat (w + 2) = 3"
proof -
  have "unat w < 256" by (rule unat_byte_less)
  then consider "unat w < 254" | "unat w = 254" | "unat w = 255" by linarith
  then show "w = 0xfe \<longleftrightarrow> unat (w + 2) = 0" "w = 0xff \<longleftrightarrow> unat (w + 2) = 1"
    "w = 0 \<longleftrightarrow> unat (w + 2) = 2" "w = 1 \<longleftrightarrow> unat (w + 2) = 3"
    unfolding byte_plus_2 by (cases; simp add: word_unat_eq_iff)+
qed

lemma length_Signature_Serialize:
  assumes "0 < R sig" "R sig < curve_N" "0 < S sig" "S sig \<le> halforder"
  shows "length (Signature_Serialize sig) \<le> 72"
  using canonicalizeInt_props(3) [of "R sig"] canonicalizeInt_props(3) [of "S sig"] assms curve_N_bound
  by (simp add: Signature_Serialize_def Let_def)

text \<open>
  The signature parser indexes out of range, so that the run-time system panics, exactly on
  the strings of at least eight bytes that start with \<open>0x30\<close> and whose length byte is 0, 254
  or 255, or is 1 followed by the integer marker: \<open>siglen+2\<close> is computed in a byte, and the
  trimmed slice is not checked for its minimal length.
\<close>

lemma parseSig_panic_iff:
  "parseSig s der = Inl Panic \<longleftrightarrow>
     8 \<le> length s \<and> s ! 0 = 0x30 \<and> (s ! 1 = 0xfe \<or> s ! 1 = 0xff \<or> s ! 1 = 0 \<or> s ! 1 = 1 \<and> s ! 2 = 2)"
proof (cases "8 \<le> length s \<and> s ! 0 = 0x30 \<and> unat (s ! 1 + 2) \<le> length s")
  case True
  define n where "n = unat (s ! 1 + 2)"
  define t where "t = take n s"
  have t: "length t = n" using True by (simp add: t_def n_def)
  have "\<not> length s < 8" "s ! 0 = 0x30" "\<not> unat (s ! 1 + 2) > length s" using True by auto
  note * = parseSig_def [of s der, unfolded Let_def, folded n_def, folded t_def] this
  consider "n \<le> 2" | "n = 3" | "4 \<le> n" by linarith
  then have "parseSig s der = Inl Panic \<longleftrightarrow> n \<le> 2 \<or> n = 3 \<and> s ! 2 = 2"
  proof cases
    case 1
    then show ?thesis using * t by simp
  next
    case 2
    then have "t ! 2 = s ! 2" by (simp add: t_def)
    with 2 show ?thesis using * t by simp
  next
    case 3
    have "parseSig s der \<noteq> Inl Panic"
      using * t 3 by (auto simp: bindE_eq_Inl canonicalPadding_no_panic split: if_splits)
    with 3 show ?thesis by simp
  qed
  with True show ?thesis
    unfolding byte_plus_2_small n_def [symmetric] by auto
qed (auto simp: parseSig_def Let_def)

end
