(* ===== verification/Script_Standard.thy ===== *)
theory Script_Standard
  imports Script_Builder Wire_Tx Btcec_Keys
begin

text \<open>
  Script templates (\<open>src/txscript/standard.go\<close> and the classification and extraction
  functions of \<open>src/txscript/script.go\<close>): which public key scripts are Prova scripts, admin
  thread scripts, admin operations or null data, the scripts that pay to an address or a
  thread, and the reading of key ids, keys and thread ids back out of scripts.

  An \<open>int32\<close> key id read from a script becomes a \<open>KeyID\<close>, a 32-bit word.  A Go map is an
  association list.  The functions that read admin operations index into the pushed data; a
  push too short for that, which validation excludes before, is a panic here.
\<close>

type_synonym KeyID = "32 word"

definition MaxOpsPerScript :: int where "MaxOpsPerScript = 201"
definition MaxPubKeysPerMultiSig :: int where "MaxPubKeysPerMultiSig = 20"
definition MaxDataCarrierSize :: nat where "MaxDataCarrierSize = 80"
definition KeyIDSize :: nat where "KeyIDSize = 4"

abbreviation (input) RootThread :: byte where "RootThread \<equiv> 0"
abbreviation (input) ProvisionThread :: byte where "ProvisionThread \<equiv> 1"
abbreviation (input) IssueThread :: byte where "IssueThread \<equiv> 2"

abbreviation (input) OP_DATA_34 :: byte where "OP_DATA_34 \<equiv> 0x22"
abbreviation (input) OP_DATA_38 :: byte where "OP_DATA_38 \<equiv> 0x26"

section \<open>Opcodes as numbers\<close>

definition isSmallInt :: "byte \<Rightarrow> bool" where
  "isSmallInt op \<longleftrightarrow> op = OP_0 \<or> (op \<ge> OP_1 \<and> op \<le> OP_16)"

definition isUint32 :: "byte \<Rightarrow> bool" where
  "isUint32 op \<longleftrightarrow> isSmallInt op \<or> op = OP_DATA_1 \<or> op = OP_DATA_2 \<or> op = OP_DATA_3 \<or> op = OP_DATA_4"

definition asSmallInt :: "byte \<Rightarrow> int" where
  "asSmallInt op = (if op = OP_0 then 0 else int (unat (op - (OP_1 - 1))))"

definition asInt32 :: "parsedOpcode \<Rightarrow> int res" where
  "asInt32 pop =
     (if isSmallInt (opcode pop) then Inr (asSmallInt (opcode pop))
      else bindE (makeScriptNum (data pop) True 4) (\<lambda>result. Inr (scriptNum_Int32 result)))"

section \<open>Shapes of scripts\<close>

definition isScriptHash :: "parsedOpcode list \<Rightarrow> bool" where
  "isScriptHash pops \<longleftrightarrow> length pops = 3 \<and> opcode (pops ! 0) = OP_HASH160 \<and>
     opcode (pops ! 1) = OP_DATA_20 \<and> opcode (pops ! 2) = OP_EQUAL"

definition IsPayToScriptHash :: "bytes \<Rightarrow> bool" where
  "IsPayToScriptHash scr = (case parseScript scr of Inl _ \<Rightarrow> False | Inr pops \<Rightarrow> isScriptHash pops)"

definition isPushOnly :: "parsedOpcode list \<Rightarrow> bool" where
  "isPushOnly pops = list_all (\<lambda>pop. \<not> opcode pop > OP_16) pops"

definition IsPushOnlyScript :: "bytes \<Rightarrow> bool" where
  "IsPushOnlyScript scr = (case parseScript scr of Inl _ \<Rightarrow> False | Inr pops \<Rightarrow> isPushOnly pops)"

definition removeOpcode :: "parsedOpcode list \<Rightarrow> byte \<Rightarrow> parsedOpcode list" where
  "removeOpcode pkscript op = filter (\<lambda>pop. opcode pop \<noteq> op) pkscript"

definition canonicalPush :: "parsedOpcode \<Rightarrow> bool" where
  "canonicalPush pop =
     (let op = opcode pop; d = data pop; dataLen = length d
      in if op > OP_16 then True
         else if op < OP_PUSHDATA1 \<and> op > OP_0 \<and> (dataLen = 1 \<and> d ! 0 \<le> 16) then False
         else if op = OP_PUSHDATA1 \<and> dataLen < unat OP_PUSHDATA1 then False
         else if op = OP_PUSHDATA2 \<and> dataLen \<le> 0xff then False
         else if op = OP_PUSHDATA4 \<and> dataLen \<le> 0xffff then False
         else True)"

text \<open>\<open>bytes.Contains\<close>.\<close>

fun bytes_Contains :: "bytes \<Rightarrow> bytes \<Rightarrow> bool" where
  "bytes_Contains [] sub = (sub = [])"
| "bytes_Contains (b # bs) sub = (take (length sub) (b # bs) = sub \<or> bytes_Contains bs sub)"

definition removeOpcodeByData :: "parsedOpcode list \<Rightarrow> bytes \<Rightarrow> parsedOpcode list" where
  "removeOpcodeByData pkscript d = filter (\<lambda>pop. \<not> canonicalPush pop \<or> \<not> bytes_Contains (data pop) d) pkscript"

text \<open>\<open>isGeneralProva\<close>: the loop over the keys counts key hashes and key ids.\<close>

fun prova_keys_loop :: "parsedOpcode list \<Rightarrow> int \<Rightarrow> int \<Rightarrow> int list \<Rightarrow> (int \<times> int) option" where
  "prova_keys_loop [] nKeyIDs nKeyHashes seenKeyIDs = Some (nKeyIDs, nKeyHashes)"
| "prova_keys_loop (pop # pops) nKeyIDs nKeyHashes seenKeyIDs =
     (if length (data pop) = 20 then
        (if nKeyIDs > 0 then None else prova_keys_loop pops nKeyIDs (nKeyHashes + 1) seenKeyIDs)
      else if isUint32 (opcode pop) then
        (case asInt32 pop of
           Inl _ \<Rightarrow> None
         | Inr keyID \<Rightarrow>
             if keyID \<in> set seenKeyIDs then None
             else prova_keys_loop pops (nKeyIDs + 1) nKeyHashes (keyID # seenKeyIDs))
      else prova_keys_loop pops nKeyIDs nKeyHashes seenKeyIDs)"

definition isGeneralProva :: "parsedOpcode list \<Rightarrow> bool" where
  "isGeneralProva pops =
     (let sLen = length pops
      in if sLen < 6 then False
         else if \<not> isSmallInt (opcode (pops ! 0)) then False
         else if \<not> isSmallInt (opcode (pops ! (sLen - 2))) then False
         else if opcode (pops ! (sLen - 1)) \<noteq> OP_CHECKSAFEMULTISIG then False
         else
           let nSigs = asSmallInt (opcode (pops ! 0)); nKeys = asSmallInt (opcode (pops ! (sLen - 2)))
           in if nSigs < 2 then False
              else if int sLen - 2 - 1 \<noteq> nKeys then False
              else case prova_keys_loop (take (sLen - 3) (drop 1 pops)) 0 0 [] of
                     None \<Rightarrow> False
                   | Some (nKeyIDs, nKeyHashes) \<Rightarrow>
                       if nKeyHashes \<ge> nSigs then False
                       else if nKeyIDs < nSigs then False
                       else True)"

definition isProva :: "parsedOpcode list \<Rightarrow> bool" where
  "isProva pops =
     (if length pops < 6 then False
      else if \<not> isGeneralProva pops then False
      else if length pops = 6 \<and> opcode (pops ! 0) = OP_2 \<and> opcode (pops ! 4) = OP_3 then True
      else
        let m = case_sum (\<lambda>_. 0) id (asInt32 (pops ! 0));
            n = case_sum (\<lambda>_. 0) id (asInt32 (pops ! (length pops - 2)))
        in m = to_int32 (n - 1))"

definition isProvaAdmin :: "parsedOpcode list \<Rightarrow> bool" where
  "isProvaAdmin pops =
     (let sLen = length pops
      in if sLen \<noteq> 2 then False
         else if opcode (pops ! (sLen - 1)) \<noteq> OP_CHECKTHREAD then False
         else
           let threadID = word_of_int (asSmallInt (opcode (pops ! 0))) :: byte
           in if threadID < RootThread \<or> threadID > IssueThread then False else True)"

definition isNullData :: "parsedOpcode list \<Rightarrow> bool" where
  "isNullData pops =
     (let l = length pops
      in if l = 1 \<and> opcode (pops ! 0) = OP_RETURN then True
         else l = 2 \<and> opcode (pops ! 0) = OP_RETURN \<and>
              (isSmallInt (opcode (pops ! 1)) \<or> opcode (pops ! 1) \<le> OP_PUSHDATA4) \<and>
              length (data (pops ! 1)) \<le> MaxDataCarrierSize)"

datatype ScriptClass =
    NonStandardTy | PubKeyTy | PubKeyHashTy | ScriptHashTy | MultiSigTy | NullDataTy | ProvaTy
  | GeneralProvaTy | ProvaAdminTy

definition typeOfScript :: "parsedOpcode list \<Rightarrow> ScriptClass" where
  "typeOfScript pops =
     (if isNullData pops then NullDataTy
      else if isProva pops then ProvaTy
      else if isGeneralProva pops then GeneralProvaTy
      else if isProvaAdmin pops then ProvaAdminTy
      else NonStandardTy)"

definition GetScriptClass :: "bytes \<Rightarrow> ScriptClass" where
  "GetScriptClass scr = (case parseScript scr of Inl _ \<Rightarrow> NonStandardTy | Inr pops \<Rightarrow> typeOfScript pops)"

section \<open>Reading key ids, threads and admin operations\<close>

definition ExtractKeyIDs :: "parsedOpcode list \<Rightarrow> KeyID list res" where
  "ExtractKeyIDs pkScript =
     (if length pkScript < 6 \<or> \<not> isSmallInt (opcode (pkScript ! (length pkScript - 2))) then Inl OtherErr
      else
        let n = asSmallInt (opcode (pkScript ! (length pkScript - 2)))
        in foldE (\<lambda>keyIDs i.
             bindE (idxE pkScript i) (\<lambda>pop.
               if \<not> isUint32 (opcode pop) then Inr keyIDs
               else bindE (asInt32 pop) (\<lambda>keyID. Inr (keyIDs @ [word_of_int keyID]))))
             [] [1 ..< nat (n + 1)])"

definition ReplaceKeyIDs ::
  "parsedOpcode list \<Rightarrow> (KeyID \<times> bytes) list \<Rightarrow> parsedOpcode list res" where
  "ReplaceKeyIDs pkScript keyIdMap =
     (if length pkScript < 6 \<or> \<not> isSmallInt (opcode (pkScript ! (length pkScript - 2))) then Inl OtherErr
      else if length keyIdMap = 0 then Inl OtherErr
      else
        let n = asSmallInt (opcode (pkScript ! (length pkScript - 2)))
        in foldE (\<lambda>pkScript i.
             bindE (idxE pkScript i) (\<lambda>pop.
               if \<not> isUint32 (opcode pop) then Inr pkScript
               else case asInt32 pop of
                      Inl _ \<Rightarrow> Inl OtherErr
                    | Inr keyID \<Rightarrow>
                        (case map_of keyIdMap (word_of_int keyID) of
                           None \<Rightarrow> Inr pkScript
                         | Some val \<Rightarrow> Inr (pkScript[i := \<lparr>opcode = OP_DATA_20, data = val\<rparr>]))))
             pkScript [1 ..< nat (n + 1)])"

definition ExtractThreadID :: "parsedOpcode list \<Rightarrow> byte res" where
  "ExtractThreadID pkScript =
     (if length pkScript \<noteq> 2 \<or> \<not> isSmallInt (opcode (pkScript ! 0)) then Inl OtherErr
      else Inr (word_of_int (asSmallInt (opcode (pkScript ! 0)))))"

definition ThreadPkScript :: "bytes list \<Rightarrow> bytes res" where
  "ThreadPkScript keyHashes =
     (if length keyHashes < 2 then Inl OtherErr
      else
        let pkScript = AddOp OP_2 NewScriptBuilder;
            pkScript = foldl (\<lambda>b h. AddData h b) pkScript keyHashes
        in Script (AddOp OP_CHECKTHREAD (AddInt64 (int (length keyHashes)) pkScript)))"

definition KeyIDFromAddressBuffer :: "bytes \<Rightarrow> KeyID" where
  "KeyIDFromAddressBuffer buf = word_of_nat (le_nat (take 4 buf))"

definition admin_key_bytes :: "parsedOpcode list \<Rightarrow> bytes res" where
  "admin_key_bytes pkScript =
     bindE (idxE pkScript 1) (\<lambda>pop.
       if length (data pop) < 1 + PubKeyBytesLenCompressed then Inl Panic
       else Inr (take PubKeyBytesLenCompressed (drop 1 (data pop))))"

definition ExtractAdminData :: "parsedOpcode list \<Rightarrow> (byte \<times> PublicKey) res" where
  "ExtractAdminData pkScript =
     bindE (admin_key_bytes pkScript) (\<lambda>b.
     bindE (ParsePubKey b) (\<lambda>pubKey. Inr (data (pkScript ! 1) ! 0, pubKey)))"

definition ExtractASPData :: "parsedOpcode list \<Rightarrow> (byte \<times> PublicKey \<times> KeyID) res" where
  "ExtractASPData pkScript =
     bindE (admin_key_bytes pkScript) (\<lambda>b.
     bindE (ParsePubKey b) (\<lambda>pubKey.
       let d = data (pkScript ! 1);
           keyID = KeyIDFromAddressBuffer (drop (length d - KeyIDSize) d)
       in Inr (d ! 0, pubKey, keyID)))"

datatype KeySetType = RootKeySet | ProvisionKeySet | IssueKeySet | ValidateKeySet | ASPKeySet

text \<open>
  \<open>ExtractAdminOpData\<close>.  The parse error is dropped; the key is nil then.  An operation byte
  that is none of the eight leaves the initial values, \<open>false\<close> and the root key set.
\<close>

definition ExtractAdminOpData ::
  "parsedOpcode list \<Rightarrow> (bool \<times> KeySetType \<times> PublicKey option \<times> KeyID) res" where
  "ExtractAdminOpData pkScript =
     bindE (admin_key_bytes pkScript) (\<lambda>b.
       let pubKey = (case ParsePubKey b of Inl _ \<Rightarrow> None | Inr k \<Rightarrow> Some k);
           d = data (pkScript ! 1);
           dataLen = length d;
           keyID = (if dataLen > 1 + PubKeyBytesLenCompressed
                    then KeyIDFromAddressBuffer (drop (dataLen - KeyIDSize) d) else 0);
           op = d ! 0;
           (isAddOp, keySetType) =
             (if op = AdminOpProvisionKeyAdd then (True, ProvisionKeySet)
              else if op = AdminOpProvisionKeyRevoke then (False, ProvisionKeySet)
              else if op = AdminOpIssueKeyAdd then (True, IssueKeySet)
              else if op = AdminOpIssueKeyRevoke then (False, IssueKeySet)
              else if op = AdminOpValidateKeyAdd then (True, ValidateKeySet)
              else if op = AdminOpValidateKeyRevoke then (False, ValidateKeySet)
              else if op = AdminOpASPKeyAdd then (True, ASPKeySet)
              else if op = AdminOpASPKeyRevoke then (False, ASPKeySet)
              else (False, RootKeySet))
       in Inr (isAddOp, keySetType, pubKey, keyID))"

definition IsValidAdminOp :: "parsedOpcode list \<Rightarrow> byte \<Rightarrow> bool" where
  "IsValidAdminOp pops threadID =
     (if length pops \<noteq> 2 then False
      else if opcode (pops ! 0) \<noteq> OP_RETURN then False
      else if opcode (pops ! 1) \<noteq> OP_DATA_34 \<and> opcode (pops ! 1) \<noteq> OP_DATA_38 then False
      else case ExtractAdminData pops of
             Inl _ \<Rightarrow> False
           | Inr (op, _) \<Rightarrow>
               if threadID = RootThread then
                 op = AdminOpProvisionKeyAdd \<or> op = AdminOpProvisionKeyRevoke \<or>
                 op = AdminOpIssueKeyAdd \<or> op = AdminOpIssueKeyRevoke
               else if threadID = ProvisionThread then
                 (op = AdminOpValidateKeyAdd \<or> op = AdminOpValidateKeyRevoke) \<or>
                 (op = AdminOpASPKeyAdd \<or> op = AdminOpASPKeyRevoke) \<and>
                 length (data (pops ! 1)) = 1 + PubKeyBytesLenCompressed + KeyIDSize
               else False)"

section \<open>Transactions\<close>

fun provaTx_loop :: "TxOut list \<Rightarrow> bool \<Rightarrow> bool" where
  "provaTx_loop [] hasNullOutput = True"
| "provaTx_loop (txOut # txOuts) hasNullOutput =
     (case parseScript (PkScript txOut) of
        Inl _ \<Rightarrow> False
      | Inr pops \<Rightarrow>
          if isNullData pops then
            (if hasNullOutput then False
             else if Value txOut \<noteq> 0 then False
             else provaTx_loop txOuts True)
          else if \<not> isGeneralProva pops then False
          else provaTx_loop txOuts hasNullOutput)"

definition IsProvaTx :: "MsgTx \<Rightarrow> bool" where
  "IsProvaTx msgTx = (if length (TxOut msgTx) = 0 then False else provaTx_loop (TxOut msgTx) False)"

fun parse_outputs :: "TxOut list \<Rightarrow> parsedOpcode list list res" where
  "parse_outputs [] = Inr []"
| "parse_outputs (txOut # txOuts) =
     bindE (parseScript (PkScript txOut)) (\<lambda>pops. bindE (parse_outputs txOuts) (\<lambda>rest. Inr (pops # rest)))"

definition GetAdminDetailsMsgTx :: "MsgTx \<Rightarrow> int \<times> parsedOpcode list list" where
  "GetAdminDetailsMsgTx msgTx =
     (if length (TxOut msgTx) < 1 then (-1, [])
      else case parseScript (PkScript (TxOut msgTx ! 0)) of
             Inl _ \<Rightarrow> (-1, [])
           | Inr pops \<Rightarrow>
               if typeOfScript pops \<noteq> ProvaAdminTy then (-1, [])
               else case ExtractThreadID pops of
                      Inl _ \<Rightarrow> (-1, [])
                    | Inr threadID \<Rightarrow>
                        (case parse_outputs (drop 1 (TxOut msgTx)) of
                           Inl _ \<Rightarrow> (-1, [])
                         | Inr adminOutputs \<Rightarrow> (int (unat threadID), adminOutputs)))"

section \<open>Making scripts\<close>

definition payToProvaScript :: "bytes \<Rightarrow> KeyID list \<Rightarrow> bytes res" where
  "payToProvaScript pubKeyHash keyIDs =
     (if length keyIDs \<noteq> 2 then Inl (ScriptErr ErrInvalidNumberOfKeyIds)
      else
        let b = AddInt64 (int (length keyIDs)) NewScriptBuilder;
            b = AddData pubKeyHash b;
            b = AddInt64 (int (unat (keyIDs ! 0))) b;
            b = AddInt64 (int (unat (keyIDs ! 1))) b;
            b = AddInt64 (int (length keyIDs + 1)) b;
            b = AddOp OP_CHECKSAFEMULTISIG b
        in Script b)"

definition ProvaThreadScript :: "byte \<Rightarrow> bytes res" where
  "ProvaThreadScript threadID =
     Script (AddOp OP_CHECKTHREAD (AddInt64 (int (unat threadID)) NewScriptBuilder))"

definition NullDataScript :: "bytes \<Rightarrow> bytes res" where
  "NullDataScript d =
     (if length d > MaxDataCarrierSize then Inl (ScriptErr ErrTooMuchNullData)
      else Script (AddData d (AddOp OP_RETURN NewScriptBuilder)))"

definition MultiSigScript :: "bytes list \<Rightarrow> int \<Rightarrow> bytes res" where
  "MultiSigScript pubkeys nrequired =
     (if int (length pubkeys) < nrequired then Inl (ScriptErr ErrTooManyRequiredSigs)
      else
        let builder = AddInt64 nrequired NewScriptBuilder;
            builder = foldl (\<lambda>b key. AddData key b) builder pubkeys;
            builder = AddInt64 (int (length pubkeys)) builder;
            builder = AddOp OP_CHECKMULTISIG builder
        in Script builder)"

section \<open>Addresses and counts\<close>

record AddressProva =
  keyIDs :: "KeyID list"
  addr_hash :: bytes
  netID :: byte

definition newAddressProva :: "bytes \<Rightarrow> KeyID list \<Rightarrow> byte \<Rightarrow> AddressProva res" where
  "newAddressProva pkHash ids net =
     (if length pkHash \<noteq> 20 then Inl OtherErr
      else if length ids < 2 then Inl OtherErr
      else if length ids > 19 then Inl OtherErr
      else Inr \<lparr>keyIDs = ids, addr_hash = pkHash, netID = net\<rparr>)"

definition PayToAddrScript :: "AddressProva \<Rightarrow> bytes res" where
  "PayToAddrScript addr = payToProvaScript (addr_hash addr) (keyIDs addr)"

text \<open>
  \<open>ExtractPkScriptAddrs\<close>.  On a key id that does not read as a number the loop continues with
  0 and remembers the failure.
\<close>

definition ExtractPkScriptAddrs :: "bytes \<Rightarrow> byte \<Rightarrow> (ScriptClass \<times> AddressProva list \<times> int) res" where
  "ExtractPkScriptAddrs pkScript net =
     bindE (parseScript pkScript) (\<lambda>pops.
       let scriptClass = typeOfScript pops
       in if scriptClass = ProvaTy then
            let numKeyIDs = length pops - 4;
                ids = map (\<lambda>i. asInt32 (pops ! (2 + i))) [0 ..< numKeyIDs];
                keyIDError = list_ex isl ids;
                keyIDs = map (\<lambda>r. word_of_int (case_sum (\<lambda>_. 0) id r)) ids
            in case newAddressProva (data (pops ! 1)) keyIDs net of
                 Inr addr \<Rightarrow> Inr (scriptClass, if keyIDError then [] else [addr], int numKeyIDs)
               | Inl _ \<Rightarrow> Inr (scriptClass, [], int numKeyIDs)
          else if scriptClass = ProvaAdminTy then Inr (scriptClass, [], 2)
          else Inr (scriptClass, [], 0))"

fun sigOp_loop :: "byte option \<Rightarrow> parsedOpcode list \<Rightarrow> bool \<Rightarrow> int \<Rightarrow> int" where
  "sigOp_loop prev [] precise nSigs = nSigs"
| "sigOp_loop prev (pop # pops) precise nSigs =
     sigOp_loop (Some (opcode pop)) pops precise
       (if opcode pop = OP_CHECKSIG \<or> opcode pop = OP_CHECKSIGVERIFY then nSigs + 1
        else if opcode pop = OP_CHECKMULTISIG \<or> opcode pop = OP_CHECKMULTISIGVERIFY then
          (case prev of
             Some p \<Rightarrow> if precise \<and> p \<ge> OP_1 \<and> p \<le> OP_16 then nSigs + asSmallInt p
                       else nSigs + MaxPubKeysPerMultiSig
           | None \<Rightarrow> nSigs + MaxPubKeysPerMultiSig)
        else nSigs)"

definition getSigOpCount :: "parsedOpcode list \<Rightarrow> bool \<Rightarrow> int" where
  "getSigOpCount pops precise = sigOp_loop None pops precise 0"

definition GetSigOpCount :: "bytes \<Rightarrow> int" where
  "GetSigOpCount scr = getSigOpCount (fst (ParseScript scr)) False"

definition GetPreciseSigOpCount :: "bytes \<Rightarrow> bytes \<Rightarrow> bool \<Rightarrow> int" where
  "GetPreciseSigOpCount scriptSig scriptPubKey bip16 =
     (let pops = fst (ParseScript scriptPubKey)
      in if \<not> (bip16 \<and> isScriptHash pops) then getSigOpCount pops True
         else case parseScript scriptSig of
                Inl _ \<Rightarrow> 0
              | Inr sigPops \<Rightarrow>
                  if \<not> isPushOnly sigPops \<or> length sigPops = 0 then 0
                  else
                    let shScript = data (sigPops ! (length sigPops - 1))
                    in if length shScript = 0 then 0
                       else getSigOpCount (fst (ParseScript shScript)) True)"

definition IsUnspendable :: "bytes \<Rightarrow> bool" where
  "IsUnspendable pkScript =
     (case parseScript pkScript of
        Inl _ \<Rightarrow> True
      | Inr pops \<Rightarrow> length pops > 0 \<and> opcode (pops ! 0) = OP_RETURN)"

section \<open>What a Prova script is\<close>

definition is_key_hash :: "parsedOpcode \<Rightarrow> bool" where
  "is_key_hash pop \<longleftrightarrow> length (data pop) = 20"

definition is_key_id :: "parsedOpcode \<Rightarrow> bool" where
  "is_key_id pop \<longleftrightarrow> length (data pop) \<noteq> 20 \<and> isUint32 (opcode pop)"

definition id_value :: "parsedOpcode \<Rightarrow> int" where
  "id_value pop = projr (asInt32 pop)"

text \<open>The keys of a script: hashes before ids, and the ids readable and distinct.\<close>

definition keys_wf :: "parsedOpcode list \<Rightarrow> bool" where
  "keys_wf keys \<longleftrightarrow>
     (\<forall>pop \<in> set keys. is_key_id pop \<longrightarrow> \<not> isl (asInt32 pop)) \<and>
     distinct (map id_value (filter is_key_id keys)) \<and>
     sorted_wrt (\<lambda>p q. \<not> (is_key_id p \<and> is_key_hash q)) keys"

lemma keys_sorted_no_hash:
  "filter is_key_hash keys = [] \<Longrightarrow> sorted_wrt (\<lambda>p q. \<not> (is_key_id p \<and> is_key_hash q)) keys"
  by (induction keys) (auto simp: filter_empty_conv split: if_splits)

lemma prova_keys_loop_eq:
  "0 \<le> i \<Longrightarrow> prova_keys_loop keys i h seen =
     (if keys_wf keys \<and> set (map id_value (filter is_key_id keys)) \<inter> set seen = {} \<and>
         (i > 0 \<longrightarrow> filter is_key_hash keys = [])
      then Some (i + int (length (filter is_key_id keys)), h + int (length (filter is_key_hash keys)))
      else None)"
proof (induction keys arbitrary: i h seen)
  case (Cons pop keys)
  consider (hash) "is_key_hash pop" "\<not> is_key_id pop" | (id) "is_key_id pop" "\<not> is_key_hash pop"
    | (none) "\<not> is_key_id pop" "\<not> is_key_hash pop"
    by (auto simp: is_key_id_def is_key_hash_def)
  then show ?case
  proof cases
    case hash
    then have "prova_keys_loop (pop # keys) i h seen =
        (if i > 0 then None else prova_keys_loop keys i (h + 1) seen)"
      by (simp add: is_key_hash_def)
    with hash Cons show ?thesis by (auto simp: keys_wf_def)
  next
    case none
    then have "prova_keys_loop (pop # keys) i h seen = prova_keys_loop keys i h seen"
      by (simp add: is_key_hash_def is_key_id_def)
    with none Cons show ?thesis by (auto simp: keys_wf_def)
  next
    case id
    show ?thesis
    proof (cases "asInt32 pop")
      case (Inl e)
      with id show ?thesis by (auto simp: keys_wf_def is_key_id_def)
    next
      case (Inr k)
      then have k: "id_value pop = k" by (simp add: id_value_def)
      have "prova_keys_loop (pop # keys) i h seen =
          (if k \<in> set seen then None else prova_keys_loop keys (i + 1) h (k # seen))"
        using id Inr by (simp add: is_key_id_def)
      moreover have "sorted_wrt (\<lambda>p q. \<not> (is_key_id p \<and> is_key_hash q)) (pop # keys) \<longleftrightarrow>
          filter is_key_hash keys = []"
        using id keys_sorted_no_hash [of keys] by (auto simp: filter_empty_conv)
      moreover have "keys_wf (pop # keys) \<longleftrightarrow> keys_wf keys \<and> filter is_key_hash keys = [] \<and>
          k \<notin> set (map id_value (filter is_key_id keys))"
        using id k Inr calculation(2) keys_sorted_no_hash [of keys] by (auto simp: keys_wf_def)
      ultimately show ?thesis using id k Cons by auto
    qed
  qed
qed (simp add: keys_wf_def)

definition prova_keys :: "parsedOpcode list \<Rightarrow> parsedOpcode list" where
  "prova_keys pops = take (length pops - 3) (drop 1 pops)"

definition is_prova_script :: "parsedOpcode list \<Rightarrow> bool" where
  "is_prova_script pops \<longleftrightarrow>
     (\<exists>m n. pops = [m] @ prova_keys pops @ [n, \<lparr>opcode = OP_CHECKSAFEMULTISIG, data = data (last pops)\<rparr>] \<and>
        isSmallInt (opcode m) \<and> isSmallInt (opcode n) \<and>
        length (prova_keys pops) \<ge> 3 \<and> int (length (prova_keys pops)) = asSmallInt (opcode n) \<and>
        keys_wf (prova_keys pops) \<and> 2 \<le> asSmallInt (opcode m) \<and>
        int (length (filter is_key_hash (prova_keys pops))) < asSmallInt (opcode m) \<and>
        asSmallInt (opcode m) \<le> int (length (filter is_key_id (prova_keys pops))))"

lemma pops_split:
  assumes "3 \<le> length pops"
  shows "pops = [pops ! 0] @ prova_keys pops @ [pops ! (length pops - 2), pops ! (length pops - 1)]"
proof -
  obtain m r where 1: "pops = m # r" using assms by (cases pops) auto
  obtain r' z where 2: "r = r' @ [z]" using assms 1 by (cases r rule: rev_cases) auto
  obtain k n where "r' = k @ [n]" using assms 1 2 by (cases r' rule: rev_cases) auto
  with 1 2 show ?thesis by (simp add: prova_keys_def nth_append)
qed

lemma isGeneralProva_eq:
  assumes "6 \<le> length pops"
  shows "isGeneralProva pops \<longleftrightarrow>
    isSmallInt (opcode (pops ! 0)) \<and> isSmallInt (opcode (pops ! (length pops - 2))) \<and>
    opcode (pops ! (length pops - 1)) = OP_CHECKSAFEMULTISIG \<and>
    2 \<le> asSmallInt (opcode (pops ! 0)) \<and>
    int (length (prova_keys pops)) = asSmallInt (opcode (pops ! (length pops - 2))) \<and>
    keys_wf (prova_keys pops) \<and>
    int (length (filter is_key_hash (prova_keys pops))) < asSmallInt (opcode (pops ! 0)) \<and>
    asSmallInt (opcode (pops ! 0)) \<le> int (length (filter is_key_id (prova_keys pops)))"
proof -
  have "int (length pops) - 2 - 1 = int (length (prova_keys pops))" using assms by (simp add: prova_keys_def)
  then show ?thesis
    using assms unfolding isGeneralProva_def Let_def prova_keys_def [symmetric]
    by (auto simp: prova_keys_loop_eq split: if_splits)
qed

lemma parsedOpcode_eta: "opcode p = op \<Longrightarrow> p = \<lparr>opcode = op, data = data p\<rparr>"
  by simp

text \<open>Small integers pushed by \<open>AddInt64\<close>.\<close>

definition int_pop :: "int \<Rightarrow> parsedOpcode" where
  "int_pop v = (if v = 0 then \<lparr>opcode = OP_0, data = []\<rparr>
     else if v \<le> 16 then \<lparr>opcode = word_of_int (80 + v), data = []\<rparr>
     else \<lparr>opcode = word_of_nat (length (num_bytes v)), data = num_bytes v\<rparr>)"

lemma num_bytes_short: "16 < v \<Longrightarrow> length (num_bytes v) \<le> 4 \<longleftrightarrow> v < 2 ^ 31"
proof
  assume v: "16 < v" "length (num_bytes v) \<le> 4"
  then have "num_bytes v \<noteq> []" using num_value_num_bytes [of v] by (auto simp: num_value_def)
  from num_value_bounds [OF this] have "\<bar>v\<bar> < 128 * 256 ^ (length (num_bytes v) - 1)" by (simp add: num_value_num_bytes)
  also have "\<dots> \<le> 128 * 256 ^ 3" using v(2) by (intro mult_left_mono power_increasing) auto
  finally show "v < 2 ^ 31" by simp
qed (use length_num_bytes [of v 3] in simp)

lemma num_bytes_pushed:
  assumes "16 < v" and "v < 2 ^ 32"
  shows "push_pop (num_bytes v) = int_pop v" and "0 < length (num_bytes v)" and "length (num_bytes v) \<le> 5"
proof -
  have len: "length (num_bytes v) \<le> 5" using length_num_bytes [of v 4] assms by simp
  have val: "num_value (num_bytes v) = v" by (rule num_value_num_bytes)
  then have ne: "num_bytes v \<noteq> []" using assms by (auto simp: num_value_def)
  have single: "\<not> b \<le> 16 \<and> b \<noteq> 0x81 \<and> b \<noteq> 0" if "num_bytes v = [b]" for b
  proof -
    have "unat b < 128" "v = int (unat b)"
      using val assms(1) unfolding that by (simp_all add: num_value_def split: if_splits)
    then show ?thesis using assms(1) by (auto simp: word_le_nat_alt)
  qed
  have "push_pop (num_bytes v) = \<lparr>opcode = word_of_nat (length (num_bytes v)), data = num_bytes v\<rparr>"
  proof (cases rule: push_cases [of "num_bytes v"])
    case empty
    with ne single [of 0] show ?thesis by blast
  next
    case (small x)
    with single [of x] show ?thesis by (simp add: word_le_nat_alt)
  next
    case negate
    with single [of "0x81"] show ?thesis by blast
  next
    case (pushdata n)
    with len show ?thesis by linarith
  qed
  then show "push_pop (num_bytes v) = int_pop v" using assms by (simp add: int_pop_def)
  show "0 < length (num_bytes v)" "length (num_bytes v) \<le> 5" using ne len by auto
qed

lemma unat_byte_of_int: "unat (word_of_int k :: byte) = nat (k mod 256)"
  by (simp add: unsigned_of_int take_bit_eq_mod)

lemma small_op:
  assumes "1 \<le> v" and "v \<le> 16"
  shows "unat (80 + word_of_int v :: byte) = 80 + nat v" and "unat (word_of_int v :: byte) = nat v"
proof -
  show v: "unat (word_of_int v :: byte) = nat v" using assms by (simp add: unat_byte_of_int)
  show "unat (80 + word_of_int v :: byte) = 80 + nat v"
    using assms unat_0x50_plus [of "word_of_int v"] by (simp add: v)
qed

lemma int_pop_props:
  assumes "0 \<le> v" and "v < 2 ^ 31"
  shows "isUint32 (opcode (int_pop v))" and "asInt32 (int_pop v) = Inr v" and "length (data (int_pop v)) \<le> 4"
proof -
  consider "v = 0" | "1 \<le> v" "v \<le> 16" | "16 < v" using assms by linarith
  then have "isUint32 (opcode (int_pop v)) \<and> asInt32 (int_pop v) = Inr v \<and> length (data (int_pop v)) \<le> 4"
  proof cases
    case 2
    then show ?thesis using small_op [OF 2]
      by (auto simp: int_pop_def isUint32_def isSmallInt_def asInt32_def asSmallInt_def word_le_nat_alt
          word_unat_eq_iff)
  next
    case 3
    have v32: "v < 2 ^ 32" using assms(2) by simp
    have * : "0 < length (num_bytes v)" "length (num_bytes v) \<le> 4"
      using num_bytes_pushed(2) [OF 3 v32] num_bytes_short [OF 3] assms(2) by simp_all
    let ?l = "length (num_bytes v)"
    have u: "unat (word_of_nat ?l :: byte) = ?l" using * by simp
    moreover have "?l = 1 \<or> ?l = 2 \<or> ?l = 3 \<or> ?l = 4" using * by linarith
    ultimately have op: "isUint32 (word_of_nat ?l)" "\<not> isSmallInt (word_of_nat ?l)"
      by (auto simp: isUint32_def isSmallInt_def word_unat_eq_iff word_le_nat_alt)
    have "makeScriptNum (num_bytes v) True 4 = Inr v"
      using * by (simp add: makeScriptNum_eq minimal_num_bytes num_value_num_bytes)
    with op * 3 assms(2) show ?thesis
      by (simp add: int_pop_def asInt32_def scriptNum_Int32_def maxInt32_def minInt32_def)
  qed (simp add: int_pop_def isUint32_def isSmallInt_def asInt32_def asSmallInt_def)
  then show "isUint32 (opcode (int_pop v))" "asInt32 (int_pop v) = Inr v" "length (data (int_pop v)) \<le> 4"
    by auto
qed

text \<open>A number from \<open>2^31\<close> on takes five bytes, and is not read as a key id.\<close>

lemma int_pop_large:
  assumes "2 ^ 31 \<le> v" and "v < 2 ^ 32"
  shows "\<not> is_key_id (int_pop v)" and "\<not> is_key_hash (int_pop v)"
proof -
  have "16 < v" using assms(1) by simp
  then have "length (num_bytes v) = 5" using num_bytes_pushed(3) [of v] num_bytes_short [of v] assms by simp
  with \<open>16 < v\<close> show "\<not> is_key_id (int_pop v)" "\<not> is_key_hash (int_pop v)"
    by (simp_all add: int_pop_def is_key_id_def is_key_hash_def isUint32_def isSmallInt_def)
qed

lemma builds_AddInt64:
  assumes "builds b pops" and "length (script b) + 6 \<le> MaxScriptSize" and "0 \<le> v" and "v < 2 ^ 32"
  shows "builds (AddInt64 v b) (pops @ [int_pop v])" and "length (script (AddInt64 v b)) \<le> length (script b) + 6"
proof -
  consider "v = 0" | "1 \<le> v" "v \<le> 16" | "16 < v" using assms by linarith
  then have "builds (AddInt64 v b) (pops @ [int_pop v]) \<and> length (script (AddInt64 v b)) \<le> length (script b) + 6"
  proof cases
    case 1
    then show ?thesis
      using assms(1,2) builds_snoc [OF assms(1), of "int_pop 0" "[0]"]
      by (simp add: AddInt64_def builds_def int_pop_def pop_bytes_def op_length_eq op_length_spec_def)
  next
    case 2
    have "pop_bytes (int_pop v) = Inr [word_of_int (80 + v)]"
      using 2 small_op [OF 2] by (simp add: int_pop_def pop_bytes_def op_length_eq op_length_spec_def)
    with 2 show ?thesis
      using assms(1,2) builds_snoc [OF assms(1), of "int_pop v"] by (simp add: AddInt64_def builds_def)
  next
    case 3
    note * = num_bytes_pushed [OF 3 assms(4)]
    have sz: "canonicalDataSize (num_bytes v) \<le> 6" using * by (simp add: canonicalDataSize_def Let_def)
    have "AddInt64 v b = AddData (num_bytes v) b"
      using 3 assms by (simp add: AddInt64_def builds_def scriptNum_Bytes_eq)
    then show ?thesis
      using builds_AddData [OF assms(1), of "num_bytes v"] sz * assms(2) by (simp add: MaxScriptElementSize_def)
  qed
  then show "builds (AddInt64 v b) (pops @ [int_pop v])" "length (script (AddInt64 v b)) \<le> length (script b) + 6"
    by auto
qed

lemma push_pop_hash: "length h = 20 \<Longrightarrow> push_pop h = \<lparr>opcode = OP_DATA_20, data = h\<rparr>"
  by (auto simp: push_pop_def)

lemma payToProva_pops:
  assumes "length h = 20"
  shows "\<exists>scr. payToProvaScript h [a, b] = Inr scr \<and>
    ParseScript scr = ([int_pop 2, \<lparr>opcode = OP_DATA_20, data = h\<rparr>, int_pop (int (unat a)), int_pop (int (unat b)),
      int_pop 3, \<lparr>opcode = OP_CHECKSAFEMULTISIG, data = []\<rparr>], None)"
proof -
  have ab: "int (unat a) < 2 ^ 32" "int (unat b) < 2 ^ 32"
    using unsigned_less [where 'a = nat, of a] unsigned_less [where 'a = nat, of b] by simp_all
  define b1 where "b1 = AddInt64 2 NewScriptBuilder"
  define b2 where "b2 = AddData h b1"
  define b3 where "b3 = AddInt64 (int (unat a)) b2"
  define b4 where "b4 = AddInt64 (int (unat b)) b3"
  define b5 where "b5 = AddInt64 3 b4"
  have 1: "builds b1 ([] @ [int_pop 2])" "length (script b1) \<le> 6"
    using builds_AddInt64 [OF builds_New, of 2] by (simp_all add: b1_def NewScriptBuilder_def MaxScriptSize_def)
  have sz: "canonicalDataSize h = 21" using assms(1) by (simp add: canonicalDataSize_def Let_def)
  have 2: "builds b2 (([] @ [int_pop 2]) @ [push_pop h])" "length (script b2) \<le> 27"
    using builds_AddData [OF 1(1), of h] 1(2) assms(1) sz
    by (simp_all add: b2_def MaxScriptSize_def MaxScriptElementSize_def)
  have 3: "builds b3 ((([] @ [int_pop 2]) @ [push_pop h]) @ [int_pop (int (unat a))])" "length (script b3) \<le> 33"
    using builds_AddInt64 [OF 2(1), of "int (unat a)"] 2(2) ab by (simp_all add: b3_def MaxScriptSize_def)
  have 4: "builds b4 (((([] @ [int_pop 2]) @ [push_pop h]) @ [int_pop (int (unat a))]) @ [int_pop (int (unat b))])"
    "length (script b4) \<le> 39"
    using builds_AddInt64 [OF 3(1), of "int (unat b)"] 3(2) ab by (simp_all add: b4_def MaxScriptSize_def)
  have 5: "builds b5 ((((([] @ [int_pop 2]) @ [push_pop h]) @ [int_pop (int (unat a))]) @ [int_pop (int (unat b))]) @ [int_pop 3])"
    "length (script b5) \<le> 45"
    using builds_AddInt64 [OF 4(1), of 3] 4(2) by (simp_all add: b5_def MaxScriptSize_def)
  have "payToProvaScript h [a, b] = Script (AddOp OP_CHECKSAFEMULTISIG b5)"
    by (simp add: payToProvaScript_def Let_def b1_def b2_def b3_def b4_def b5_def)
  with builds_Script [OF builds_AddOp [OF 5(1), of OP_CHECKSAFEMULTISIG]] 5(2) assms(1) show ?thesis
    by (simp add: MaxScriptSize_def op_length_eq op_length_spec_def push_pop_hash)
qed

lemma parseScript_eq: "ParseScript scr = (pops, None) \<Longrightarrow> parseScript scr = Inr pops"
  by (simp add: parseScript_def)

lemma int_pop_small: "int_pop 2 = \<lparr>opcode = OP_2, data = []\<rparr>" "int_pop 3 = \<lparr>opcode = OP_3, data = []\<rparr>"
  by (simp_all add: int_pop_def)

definition prova_pops :: "bytes \<Rightarrow> KeyID \<Rightarrow> KeyID \<Rightarrow> parsedOpcode list" where
  "prova_pops h a b =
     [\<lparr>opcode = OP_2, data = []\<rparr>, \<lparr>opcode = OP_DATA_20, data = h\<rparr>, int_pop (int (unat a)), int_pop (int (unat b)),
      \<lparr>opcode = OP_3, data = []\<rparr>, \<lparr>opcode = OP_CHECKSAFEMULTISIG, data = []\<rparr>]"

lemma key_id_pop:
  fixes a :: KeyID
  shows "is_key_id (int_pop (int (unat a))) \<longleftrightarrow> unat a < 2 ^ 31" and "\<not> is_key_hash (int_pop (int (unat a)))"
    and "unat a < 2 ^ 31 \<Longrightarrow> asInt32 (int_pop (int (unat a))) = Inr (int (unat a))"
proof -
  let ?v = "int (unat a)"
  have lt: "?v < 2 ^ 32" using unsigned_less [where 'a = nat, of a] by simp
  have "(is_key_id (int_pop ?v) \<longleftrightarrow> unat a < 2 ^ 31) \<and> \<not> is_key_hash (int_pop ?v)"
  proof (cases "unat a < 2 ^ 31")
    case True
    then show ?thesis using int_pop_props [of ?v] by (auto simp: is_key_id_def is_key_hash_def)
  next
    case False
    then show ?thesis using int_pop_large [of ?v] lt by auto
  qed
  then show "is_key_id (int_pop ?v) \<longleftrightarrow> unat a < 2 ^ 31" "\<not> is_key_hash (int_pop ?v)" by auto
  show "unat a < 2 ^ 31 \<Longrightarrow> asInt32 (int_pop ?v) = Inr ?v" using int_pop_props(2) [of ?v] by simp
qed

lemma prova_pops_general:
  assumes "length h = 20"
  shows "isGeneralProva (prova_pops h a b) \<longleftrightarrow> a \<noteq> b \<and> unat a < 2 ^ 31 \<and> unat b < 2 ^ 31"
proof -
  have keys: "prova_keys (prova_pops h a b) = [\<lparr>opcode = OP_DATA_20, data = h\<rparr>, int_pop (int (unat a)), int_pop (int (unat b))]"
    by (simp add: prova_keys_def prova_pops_def)
  have hash: "is_key_hash \<lparr>opcode = OP_DATA_20, data = h\<rparr>" "\<not> is_key_id \<lparr>opcode = OP_DATA_20, data = h\<rparr>"
    using assms by (simp_all add: is_key_id_def is_key_hash_def)
  have shape: "length (prova_pops h a b) = 6" "prova_pops h a b ! 0 = \<lparr>opcode = OP_2, data = []\<rparr>"
      "prova_pops h a b ! 4 = \<lparr>opcode = OP_3, data = []\<rparr>" "prova_pops h a b ! 5 = \<lparr>opcode = OP_CHECKSAFEMULTISIG, data = []\<rparr>"
    by (simp_all add: prova_pops_def)
  show ?thesis
    using key_id_pop [of a] key_id_pop [of b] hash
    by (subst isGeneralProva_eq) (auto simp: shape keys keys_wf_def id_value_def isSmallInt_def asSmallInt_def word_unat_eq_iff)
qed

lemma prova_pops_readable:
  assumes "length h = 20" and "a \<noteq> b" and "unat a < 2 ^ 31" and "unat b < 2 ^ 31"
  shows "typeOfScript (prova_pops h a b) = ProvaTy"
proof -
  have "isGeneralProva (prova_pops h a b)" using prova_pops_general assms by blast
  then have "isProva (prova_pops h a b)" by (simp add: isProva_def) (simp add: prova_pops_def)
  then show ?thesis by (simp add: typeOfScript_def) (simp add: isNullData_def prova_pops_def)
qed

lemma prova_pops_unreadable:
  assumes "length h = 20" and "\<not> (a \<noteq> b \<and> unat a < 2 ^ 31 \<and> unat b < 2 ^ 31)"
  shows "typeOfScript (prova_pops h a b) = NonStandardTy"
proof -
  have "\<not> isGeneralProva (prova_pops h a b)" using prova_pops_general assms by blast
  moreover have "\<not> isNullData (prova_pops h a b)" "\<not> isProvaAdmin (prova_pops h a b)"
    by (simp_all add: isNullData_def isProvaAdmin_def prova_pops_def)
  ultimately show ?thesis by (simp add: typeOfScript_def isProva_def)
qed

lemma prova_pops_address:
  assumes "length h = 20" and "ParseScript scr = (prova_pops h a b, None)" and "a \<noteq> b" and "unat a < 2 ^ 31" and "unat b < 2 ^ 31"
  shows "ExtractPkScriptAddrs scr net = Inr (ProvaTy, [\<lparr>keyIDs = [a, b], addr_hash = h, netID = net\<rparr>], 2)"
  using prova_pops_readable [OF assms(1,3-5)] key_id_pop(3) [OF assms(4)] key_id_pop(3) [OF assms(5)] assms(1)
  by (simp add: ExtractPkScriptAddrs_def parseScript_eq [OF assms(2)] Let_def newAddressProva_def)
    (simp add: prova_pops_def upt_rec numeral_eq_Suc)

lemma isGeneralProva_shape:
  assumes "3 \<le> length keys"
  shows "isGeneralProva ([m] @ keys @ [n, op]) \<longleftrightarrow>
    isSmallInt (opcode m) \<and> isSmallInt (opcode n) \<and> opcode op = OP_CHECKSAFEMULTISIG \<and> 2 \<le> asSmallInt (opcode m) \<and>
    int (length keys) = asSmallInt (opcode n) \<and> keys_wf keys \<and>
    int (length (filter is_key_hash keys)) < asSmallInt (opcode m) \<and> asSmallInt (opcode m) \<le> int (length (filter is_key_id keys))"
proof -
  have "prova_keys ([m] @ keys @ [n, op]) = keys" by (simp add: prova_keys_def)
  moreover have "([m] @ keys @ [n, op]) ! (length ([m] @ keys @ [n, op]) - 2) = n" "([m] @ keys @ [n, op]) ! (length ([m] @ keys @ [n, op]) - 1) = op"
    by (simp_all add: nth_append)
  moreover have "6 \<le> length ([m] @ keys @ [n, op])" using assms by simp
  ultimately show ?thesis using isGeneralProva_eq [of "[m] @ keys @ [n, op]"] by simp
qed

text \<open>Key elements that are neither hash nor id do not matter for the keys.\<close>

lemma keys_wf_ignores:
  assumes "\<not> is_key_hash e" and "\<not> is_key_id e"
  shows "keys_wf (ks @ e # ls) \<longleftrightarrow> keys_wf (ks @ ls)"
  using assms by (auto simp: keys_wf_def sorted_wrt_append)

section \<open>Properties\<close>

text \<open>
  C10. A script is a general Prova script exactly if it is \<open>m\<close>, then at least three key
  elements, then their number, then \<open>OP_CHECKSAFEMULTISIG\<close>, where: at least two signatures
  are required; key hashes come before key ids; the key ids are minimally encoded numbers, all
  distinct; the key hashes alone are fewer than the signatures required, and the key ids alone
  are at least as many.
\<close>

theorem isGeneralProva_iff: "isGeneralProva pops \<longleftrightarrow> is_prova_script pops"
proof (cases "6 \<le> length pops")
  case True
  have split: "pops = [pops ! 0] @ prova_keys pops @ [pops ! (length pops - 2), pops ! (length pops - 1)]"
    using True by (intro pops_split) simp
  have len: "length (prova_keys pops) \<ge> 3" using True by (simp add: prova_keys_def)
  have lst: "last pops = pops ! (length pops - 1)" using True by (intro last_conv_nth) auto
  have "is_prova_script pops \<longleftrightarrow> opcode (pops ! (length pops - 1)) = OP_CHECKSAFEMULTISIG \<and>
      isSmallInt (opcode (pops ! 0)) \<and> isSmallInt (opcode (pops ! (length pops - 2))) \<and>
      int (length (prova_keys pops)) = asSmallInt (opcode (pops ! (length pops - 2))) \<and>
      keys_wf (prova_keys pops) \<and> 2 \<le> asSmallInt (opcode (pops ! 0)) \<and>
      int (length (filter is_key_hash (prova_keys pops))) < asSmallInt (opcode (pops ! 0)) \<and>
      asSmallInt (opcode (pops ! 0)) \<le> int (length (filter is_key_id (prova_keys pops)))" (is "_ \<longleftrightarrow> ?R")
  proof
    assume "is_prova_script pops"
    then obtain m n where eq: "pops = [m] @ prova_keys pops @ [n, \<lparr>opcode = OP_CHECKSAFEMULTISIG, data = data (last pops)\<rparr>]"
      and *: "isSmallInt (opcode m)" "isSmallInt (opcode n)" "int (length (prova_keys pops)) = asSmallInt (opcode n)"
        "keys_wf (prova_keys pops)" "2 \<le> asSmallInt (opcode m)"
        "int (length (filter is_key_hash (prova_keys pops))) < asSmallInt (opcode m)"
        "asSmallInt (opcode m) \<le> int (length (filter is_key_id (prova_keys pops)))"
      unfolding is_prova_script_def by blast
    have "[m] @ prova_keys pops @ [n, \<lparr>opcode = OP_CHECKSAFEMULTISIG, data = data (last pops)\<rparr>] =
        [pops ! 0] @ prova_keys pops @ [pops ! (length pops - 2), pops ! (length pops - 1)]"
      using eq split by metis
    then have "pops ! 0 = m" "pops ! (length pops - 2) = n"
      "pops ! (length pops - 1) = \<lparr>opcode = OP_CHECKSAFEMULTISIG, data = data (last pops)\<rparr>"
      by auto
    with * show ?R by simp
  next
    assume R: ?R
    then have "pops ! (length pops - 1) = \<lparr>opcode = OP_CHECKSAFEMULTISIG, data = data (last pops)\<rparr>"
      by (simp add: lst)
    with R split len show "is_prova_script pops" unfolding is_prova_script_def by metis
  qed
  then show ?thesis using isGeneralProva_eq [OF True] by blast
next
  case False
  then have "length (prova_keys pops) < 3" by (simp add: prova_keys_def)
  then have "\<not> is_prova_script pops" by (auto simp: is_prova_script_def)
  then show ?thesis using False by (simp add: isGeneralProva_def)
qed

text \<open>
  C11. Paying to an address and reading the address back: a script is made for every 20-byte key
  hash and every two key ids.  If the ids are distinct and below \<open>2^31\<close> it is a standard Prova script
  that requires two signatures, and the address extracted from it is the one it was made for.
  Otherwise the script is not standard and no address is extracted from it: a key id is a
  32-bit number, but one from \<open>2^31\<close> on is pushed with five bytes, which are not read as a key id.
\<close>

theorem payToProva_roundtrip:
  assumes "length h = 20"
  shows "\<exists>scr. payToProvaScript h [a, b] = Inr scr \<and>
    (if a \<noteq> b \<and> unat a < 2 ^ 31 \<and> unat b < 2 ^ 31
     then GetScriptClass scr = ProvaTy \<and>
       ExtractPkScriptAddrs scr net = Inr (ProvaTy, [\<lparr>keyIDs = [a, b], addr_hash = h, netID = net\<rparr>], 2)
     else GetScriptClass scr = NonStandardTy \<and> ExtractPkScriptAddrs scr net = Inr (NonStandardTy, [], 0))"
proof -
  obtain scr where scr: "payToProvaScript h [a, b] = Inr scr" and p: "ParseScript scr = (prova_pops h a b, None)"
    using payToProva_pops [OF assms] by (auto simp: prova_pops_def int_pop_small)
  show ?thesis
  proof (cases "a \<noteq> b \<and> unat a < 2 ^ 31 \<and> unat b < 2 ^ 31")
    case True
    then have "GetScriptClass scr = ProvaTy" "ExtractPkScriptAddrs scr net = Inr (ProvaTy, [\<lparr>keyIDs = [a, b], addr_hash = h, netID = net\<rparr>], 2)"
      using prova_pops_readable [OF assms, of a b] prova_pops_address [OF assms p, of net] by (auto simp: GetScriptClass_def parseScript_eq [OF p])
    with True scr show ?thesis by auto
  next
    case False
    then have "typeOfScript (prova_pops h a b) = NonStandardTy" using prova_pops_unreadable [OF assms, of a b] by blast
    then have "GetScriptClass scr = NonStandardTy" "ExtractPkScriptAddrs scr net = Inr (NonStandardTy, [], 0)"
      by (simp_all add: GetScriptClass_def ExtractPkScriptAddrs_def parseScript_eq [OF p])
    with False scr show ?thesis by auto
  qed
qed

theorem payToProva_roundtrip_witness:
  "(\<exists>scr. payToProvaScript (replicate 20 7) [1, 70000] = Inr scr \<and> GetScriptClass scr = ProvaTy \<and>
     ExtractPkScriptAddrs scr 33 =
       Inr (ProvaTy, [\<lparr>keyIDs = [1, 70000], addr_hash = replicate 20 7, netID = 33\<rparr>], 2)) \<and>
   (\<exists>scr. payToProvaScript (replicate 20 7) [1, 0x80000000] = Inr scr \<and> GetScriptClass scr = NonStandardTy)"
  using payToProva_roundtrip [where h = "replicate 20 7" and a = 1 and b = 70000 and net = 33]
    payToProva_roundtrip [where h = "replicate 20 7" and a = 1 and b = "0x80000000" and net = 33]
  by auto

text \<open>
  C14. A key element of a Prova script that is neither 20 bytes long nor a number is counted in the
  number of keys that the script announces, and is ignored otherwise: put anywhere among at least three
  key elements, with the announced number one higher, it does not change whether the script is a
  general Prova script, whatever its opcode and its data are.
\<close>

theorem isGeneralProva_unchecked_key:
  assumes "\<not> is_key_hash e" and "\<not> is_key_id e" and "3 \<le> length ks + length ls"
    and "isSmallInt (opcode n)" and "isSmallInt (opcode n')" and "asSmallInt (opcode n') = asSmallInt (opcode n) + 1"
  shows "isGeneralProva ([m] @ (ks @ e # ls) @ [n', op]) \<longleftrightarrow> isGeneralProva ([m] @ (ks @ ls) @ [n, op])"
  using assms isGeneralProva_shape [of "ks @ e # ls" m n' op] isGeneralProva_shape [of "ks @ ls" m n op]
    keys_wf_ignores [OF assms(1,2), of ks ls] by auto

theorem isGeneralProva_unchecked_key_witness:
  "isGeneralProva [\<lparr>opcode = OP_2, data = []\<rparr>, \<lparr>opcode = OP_DATA_20, data = replicate 20 1\<rparr>, \<lparr>opcode = OP_DUP, data = []\<rparr>,
     \<lparr>opcode = OP_1, data = []\<rparr>, \<lparr>opcode = OP_2, data = []\<rparr>, \<lparr>opcode = OP_4, data = []\<rparr>, \<lparr>opcode = OP_CHECKSAFEMULTISIG, data = []\<rparr>]"
proof -
  let ?h = "\<lparr>opcode = OP_DATA_20, data = replicate 20 1\<rparr>" and ?op = "\<lambda>c. \<lparr>opcode = c, data = []\<rparr>"
  have "isGeneralProva ([?op OP_2] @ ([?h] @ [?op OP_1, ?op OP_2]) @ [?op OP_3, ?op OP_CHECKSAFEMULTISIG])" by code_simp
  then show ?thesis
    using isGeneralProva_unchecked_key [of "?op OP_DUP" "[?h]" "[?op OP_1, ?op OP_2]" "?op OP_3" "?op OP_4" "?op OP_2" "?op OP_CHECKSAFEMULTISIG"]
    by (simp add: is_key_hash_def is_key_id_def isUint32_def isSmallInt_def asSmallInt_def)
qed

text \<open>
  C13. The admin thread scripts are the two-opcode scripts ending in \<open>OP_CHECKTHREAD\<close> whose
  first opcode is one of \<open>OP_0\<close>, \<open>OP_1\<close>, \<open>OP_2\<close> or \<open>OP_RESERVED\<close>; the last one is classified
  as an admin script, but no thread id can be extracted from it.
\<close>

theorem isProvaAdmin_iff:
  "isProvaAdmin pops \<longleftrightarrow>
     length pops = 2 \<and> opcode (pops ! 1) = OP_CHECKTHREAD \<and>
     (ExtractThreadID pops = Inr RootThread \<or> ExtractThreadID pops = Inr ProvisionThread \<or>
      ExtractThreadID pops = Inr IssueThread \<or> opcode (pops ! 0) = OP_RESERVED)"
proof -
  define op where "op = opcode (pops ! 0)"
  have le: "op - 0x50 \<le> 2 \<longleftrightarrow> op = 0x50 \<or> op = 0x51 \<or> op = 0x52"
  proof
    assume "op - 0x50 \<le> 2"
    then have "unat (op - 0x50) \<le> 2" by (simp add: word_le_nat_alt)
    then have "unat (op - 0x50) = 0 \<or> unat (op - 0x50) = 1 \<or> unat (op - 0x50) = 2" by linarith
    then have "op - 0x50 = 0 \<or> op - 0x50 = 1 \<or> op - 0x50 = 2"
      by (auto simp: word_unat_eq_iff)
    then show "op = 0x50 \<or> op = 0x51 \<or> op = 0x52" by (auto simp: diff_eq_eq)
  qed auto
  have small: "isSmallInt op \<Longrightarrow> op - 0x50 = 0 \<Longrightarrow> op = 0" by (auto simp: isSmallInt_def)
  show ?thesis
    using le small
    by (auto simp: isProvaAdmin_def ExtractThreadID_def asSmallInt_def not_less diff_eq_eq simp flip: op_def)
      (auto simp: isSmallInt_def op_def)
qed

text \<open>
  C12. What passes as an admin operation can be extracted: for an operation valid at a thread,
  \<open>ExtractAdminOpData\<close> finds a parsed public key, and the key set it names belongs to the
  thread, the provision and issue sets to the root thread, the validate and ASP sets to the
  provision thread.  The issue thread has no admin operations.
\<close>

theorem IsValidAdminOp_extract:
  assumes "IsValidAdminOp pops threadID"
  shows "\<exists>isAdd keySet pubKey keyID. ExtractAdminOpData pops = Inr (isAdd, keySet, Some pubKey, keyID) \<and>
    (threadID = RootThread \<and> (keySet = ProvisionKeySet \<or> keySet = IssueKeySet) \<or>
     threadID = ProvisionThread \<and> (keySet = ValidateKeySet \<or> keySet = ASPKeySet))"
  using assms
  by (auto simp: IsValidAdminOp_def ExtractAdminData_def ExtractAdminOpData_def Let_def
      split: if_splits sum.splits)

theorem IsValidAdminOp_extract_witness:
  "\<exists>isAdd keySet pubKey keyID.
     ExtractAdminOpData [\<lparr>opcode = OP_RETURN, data = []\<rparr>, \<lparr>opcode = OP_DATA_34, data = AdminOpIssueKeyAdd # unit_y_key\<rparr>] =
       Inr (isAdd, keySet, Some pubKey, keyID)"
proof -
  have "take 33 unit_y_key = unit_y_key" "length unit_y_key = 33" by (simp_all add: unit_y_key_def)
  then have "IsValidAdminOp [\<lparr>opcode = OP_RETURN, data = []\<rparr>,
      \<lparr>opcode = OP_DATA_34, data = AdminOpIssueKeyAdd # unit_y_key\<rparr>] RootThread"
    by (simp add: IsValidAdminOp_def ExtractAdminData_def admin_key_bytes_def PubKeyBytesLenCompressed_def
        unit_y_key_parses)
  from IsValidAdminOp_extract [OF this] show ?thesis by blast
qed

end
