(* ===== verification/Crypto_Params.thy ===== *)
theory Crypto_Params
  imports Btcec_Keys
begin

text \<open>
  The cryptographic primitives of the Go standard library and of \<open>golang.org/x/crypto\<close> that
  the code calls: hash functions and \<open>ecdsa.Verify\<close>.  They are one record that the model
  takes as an argument; properties that need a documented fact about them, such as the length
  of a digest, state it as a hypothesis.  The compositions of \<open>src/chaincfg/chainhash/hashfuncs.go\<close>
  and \<open>src/provautil/hash160.go\<close> are defined over them.
\<close>

record crypto =
  sha256 :: "bytes \<Rightarrow> bytes"
  sha3 :: "bytes \<Rightarrow> bytes"
  ripemd160 :: "bytes \<Rightarrow> bytes"
  sha1 :: "bytes \<Rightarrow> bytes"
  ecdsa_Verify :: "PublicKey \<Rightarrow> bytes \<Rightarrow> int \<Rightarrow> int \<Rightarrow> bool"

definition HashB :: "'x crypto_scheme \<Rightarrow> bytes \<Rightarrow> bytes" where
  "HashB c b = sha256 c b"

definition DoubleHashB :: "'x crypto_scheme \<Rightarrow> bytes \<Rightarrow> bytes" where
  "DoubleHashB c b = (let first = sha256 c b in sha256 c first)"

definition PowHashB :: "'x crypto_scheme \<Rightarrow> bytes \<Rightarrow> bytes" where
  "PowHashB c b = sha3 c b"

definition Hash160 :: "'x crypto_scheme \<Rightarrow> bytes \<Rightarrow> bytes" where
  "Hash160 c buf = ripemd160 c (sha256 c buf)"

definition Signature_Verify :: "'x crypto_scheme \<Rightarrow> Signature \<Rightarrow> bytes \<Rightarrow> PublicKey \<Rightarrow> bool" where
  "Signature_Verify c sig h pubKey = ecdsa_Verify c pubKey h (R sig) (S sig)"

text \<open>
  A concrete choice of the parameters, with digests of the right lengths, at which properties
  with hypotheses about them are instantiated.
\<close>

definition example_crypto :: crypto where
  "example_crypto = \<lparr>sha256 = (\<lambda>b. take 32 (b @ replicate 32 0)), sha3 = (\<lambda>b. take 32 (b @ replicate 32 0)),
     ripemd160 = (\<lambda>b. take 20 (b @ replicate 20 0)), sha1 = (\<lambda>b. take 20 (b @ replicate 20 0)),
     ecdsa_Verify = (\<lambda>pk m r s. r = X pk \<and> s = Y pk)\<rparr>"

lemma example_crypto_sha256: "length (sha256 example_crypto b) = 32"
  by (simp add: example_crypto_def)

lemma example_crypto_ripemd160: "length (ripemd160 example_crypto b) = 20"
  by (simp add: example_crypto_def)

end
