(* ===== verification/Sig_Hash.thy ===== *)
theory Sig_Hash
  imports Script_Standard Crypto_Params "HOL-Library.AList"
begin

text \<open>
  Signature hashes (\<open>calcSignatureHash\<close> and \<open>calcSignatureHashNew\<close> of
  \<open>src/txscript/script.go\<close>) and the cache of partial hashes (\<open>src/txscript/hashcache.go\<close>).
  Input indices are natural numbers; the engine rejects others before.  The cache's lock is not
  modelled: every operation is one atomic step on the map.

  The lemmas show which parts of a transaction the new signature hash commits to, and that
  partial hashes cached under a transaction's hash are the right ones for every transaction
  with that hash's preimage.
\<close>

section \<open>Definitions\<close>

type_synonym SigHashType = "32 word"

abbreviation (input) SigHashOld :: SigHashType where "SigHashOld \<equiv> 0x0"
abbreviation (input) SigHashAll :: SigHashType where "SigHashAll \<equiv> 0x1"
abbreviation (input) SigHashNone :: SigHashType where "SigHashNone \<equiv> 0x2"
abbreviation (input) SigHashSingle :: SigHashType where "SigHashSingle \<equiv> 0x3"
abbreviation (input) SigHashAnyOneCanPay :: SigHashType where "SigHashAnyOneCanPay \<equiv> 0x80"
abbreviation (input) sigHashMask :: SigHashType where "sigHashMask \<equiv> 0x1f"

definition calcSignatureHash :: "'x crypto_scheme \<Rightarrow> parsedOpcode list \<Rightarrow> SigHashType \<Rightarrow> MsgTx \<Rightarrow> nat \<Rightarrow> bytes res" where
  "calcSignatureHash c scr hashType tx idx =
     (if hashType AND sigHashMask = SigHashSingle \<and> idx \<ge> length (TxOut tx) then
        Inr (0x01 # replicate 31 0)
      else
        let scr = removeOpcode scr OP_CODESEPARATOR;
            txCopy = MsgTx_Copy tx;
            sigScript = (case UnparseScript scr of Inl _ \<Rightarrow> [] | Inr s \<Rightarrow> s);
            txCopy = txCopy\<lparr>TxIn := map (\<lambda>(i, ti). ti\<lparr>SignatureScript := (if i = idx then sigScript else [])\<rparr>)
                        (enumerate 0 (TxIn txCopy))\<rparr>;
            zero_seq = (\<lambda>ins. map (\<lambda>(i, ti). if i \<noteq> idx then ti\<lparr>Sequence := 0\<rparr> else ti) (enumerate 0 ins));
            txCopy =
              (if hashType AND sigHashMask = SigHashNone then
                 txCopy\<lparr>TxOut := [], TxIn := zero_seq (TxIn txCopy)\<rparr>
               else if hashType AND sigHashMask = SigHashSingle then
                 txCopy\<lparr>TxOut := map (\<lambda>(i, to). if i < idx then \<lparr>Value = -1, PkScript = []\<rparr> else to)
                          (enumerate 0 (take (idx + 1) (TxOut txCopy))),
                        TxIn := zero_seq (TxIn txCopy)\<rparr>
               else txCopy)
        in bindE
             (if hashType AND SigHashAnyOneCanPay \<noteq> 0 then
                (if idx + 1 \<le> length (TxIn txCopy) then Inr (txCopy\<lparr>TxIn := [TxIn txCopy ! idx]\<rparr>) else Inl Panic)
              else Inr txCopy)
             (\<lambda>txCopy. Inr (DoubleHashB c (MsgTx_Serialize txCopy @ put_uint32 hashType))))"

definition calcHashPrevOuts :: "'x crypto_scheme \<Rightarrow> MsgTx \<Rightarrow> bytes" where
  "calcHashPrevOuts c tx =
     DoubleHashB c (concat (map (\<lambda>ti. Hash (PreviousOutPoint ti) @ put_uint32 (Index (PreviousOutPoint ti))) (TxIn tx)))"

definition calcHashSequence :: "'x crypto_scheme \<Rightarrow> MsgTx \<Rightarrow> bytes" where
  "calcHashSequence c tx = DoubleHashB c (concat (map (\<lambda>ti. put_uint32 (Sequence ti)) (TxIn tx)))"

definition calcHashOutputs :: "'x crypto_scheme \<Rightarrow> MsgTx \<Rightarrow> bytes" where
  "calcHashOutputs c tx = DoubleHashB c (concat (map WriteTxOut (TxOut tx)))"

record TxSigHashes =
  HashPrevOuts :: bytes
  HashSequence :: bytes
  HashOutputs :: bytes

definition NewTxSigHashes :: "'x crypto_scheme \<Rightarrow> MsgTx \<Rightarrow> TxSigHashes" where
  "NewTxSigHashes c tx =
     \<lparr>HashPrevOuts = calcHashPrevOuts c tx, HashSequence = calcHashSequence c tx, HashOutputs = calcHashOutputs c tx\<rparr>"

text \<open>
  \<open>calcSignatureHashNew\<close>.  The errors it constructs for a bad index or hash type are dropped;
  the first returns nil, the second does not return.
\<close>

definition sigHash_preimage :: "TxSigHashes \<Rightarrow> SigHashType \<Rightarrow> MsgTx \<Rightarrow> nat \<Rightarrow> int \<Rightarrow> bytes" where
  "sigHash_preimage sigHashes hashType tx idx amt =
     put_int32 (Version tx) @ HashPrevOuts sigHashes @ HashSequence sigHashes @
     Hash (PreviousOutPoint (TxIn tx ! idx)) @ put_uint32 (Index (PreviousOutPoint (TxIn tx ! idx))) @
     put_int64 amt @ put_uint32 (Sequence (TxIn tx ! idx)) @ HashOutputs sigHashes @
     put_uint32 (LockTime tx) @ put_uint32 hashType"

definition calcSignatureHashNew ::
  "'x crypto_scheme \<Rightarrow> TxSigHashes \<Rightarrow> SigHashType \<Rightarrow> MsgTx \<Rightarrow> nat \<Rightarrow> int \<Rightarrow> bytes" where
  "calcSignatureHashNew c sigHashes hashType tx idx amt =
     (if idx \<ge> length (TxIn tx) then []
      else DoubleHashB c (sigHash_preimage sigHashes hashType tx idx amt))"

type_synonym HashCache = "(bytes \<times> TxSigHashes) list"

definition NewHashCache :: HashCache where "NewHashCache = []"


definition ContainsHashes :: "bytes \<Rightarrow> HashCache \<Rightarrow> bool" where
  "ContainsHashes txid h \<longleftrightarrow> map_of h txid \<noteq> None"



section \<open>What a signature commits to\<close>

lemma length_DoubleHashB: "(\<And>b. length (sha256 c b) = 32) \<Longrightarrow> length (DoubleHashB c b) = 32"
  by (simp add: DoubleHashB_def)

lemma append_eq_same_length: "length a = length b \<Longrightarrow> a @ x = b @ y \<longleftrightarrow> a = b \<and> x = y"
  by simp

lemma put_inj:
  "put_uint32 a = put_uint32 b \<longleftrightarrow> a = b"
  "in_int32 x \<Longrightarrow> in_int32 y \<Longrightarrow> put_int32 x = put_int32 y \<longleftrightarrow> x = y"
  "in_int64 x \<Longrightarrow> in_int64 y \<Longrightarrow> put_int64 x = put_int64 y \<longleftrightarrow> x = y"
  using uint32.enc_inj int32.enc_inj int64.enc_inj by blast+

lemma length_put [simp]: "length (put_uint32 a) = 4" "length (put_int32 x) = 4" "length (put_int64 x) = 8"
  by (simp_all add: put_uint32_def put_int32_def put_int64_def)



section \<open>Properties\<close>

text \<open>
  C9. What a signature commits to: the bytes hashed for two signature checks are equal exactly
  if version, lock time, hash type, the spent outpoint with its sequence number and amount, and
  the three partial hashes (of all previous outpoints, all sequence numbers and all outputs) are
  equal.  The digests of SHA-256 are 32 bytes long.
\<close>

theorem sigHash_commits:
  assumes "\<And>b. length (sha256 c b) = 32" and "MsgTx_ok tx" and "MsgTx_ok tx'"
    and "idx < length (TxIn tx)" and "idx' < length (TxIn tx')" and "in_int64 amt" and "in_int64 amt'"
  shows "sigHash_preimage (NewTxSigHashes c tx) ht tx idx amt =
      sigHash_preimage (NewTxSigHashes c tx') ht' tx' idx' amt' \<longleftrightarrow>
    Version tx = Version tx' \<and> LockTime tx = LockTime tx' \<and> ht = ht' \<and> amt = amt' \<and>
    PreviousOutPoint (TxIn tx ! idx) = PreviousOutPoint (TxIn tx' ! idx') \<and>
    Sequence (TxIn tx ! idx) = Sequence (TxIn tx' ! idx') \<and>
    NewTxSigHashes c tx = NewTxSigHashes c tx'"
proof -
  have hash: "length (Hash (PreviousOutPoint (TxIn t ! i))) = 32" if "MsgTx_ok t" "i < length (TxIn t)" for t i
    using that by (auto simp: MsgTx_ok_def TxIn_ok_def OutPoint_ok_def HashSize_def list_all_length)
  have v: "in_int32 (Version tx)" "in_int32 (Version tx')" using assms by (auto simp: MsgTx_ok_def)
  note len = length_DoubleHashB [OF assms(1)] hash [OF assms(2,4)] hash [OF assms(3,5)]
  have op: "(Hash p = Hash q \<and> Index p = Index q) = (p = q)" for p q :: OutPoint
    by (cases p; cases q) auto
  show ?thesis
    unfolding sigHash_preimage_def NewTxSigHashes_def calcHashPrevOuts_def calcHashSequence_def calcHashOutputs_def
    using len assms(6,7) v
    by (auto simp: append_eq_same_length put_inj simp flip: op)
qed

definition example_tx :: MsgTx where
  "example_tx = \<lparr>Version = 1,
     TxIn = [\<lparr>PreviousOutPoint = \<lparr>Hash = replicate 32 5, Index = 0\<rparr>, SignatureScript = [], Sequence = 7\<rparr>],
     TxOut = [\<lparr>Value = 9, PkScript = [0x6a]\<rparr>], LockTime = 0\<rparr>"

lemma example_tx_ok: "MsgTx_ok example_tx"
  by (simp add: example_tx_def MsgTx_ok_def in_int32_def in_int64_def TxIn_ok_def TxOut_ok_def OutPoint_ok_def
      HashSize_def maxTxInPerMessage_def maxTxOutPerMessage_def MaxMessagePayload_def)

theorem sigHash_commits_witness:
  "sigHash_preimage (NewTxSigHashes example_crypto example_tx) 1 example_tx 0 50 \<noteq>
   sigHash_preimage (NewTxSigHashes example_crypto example_tx) 1 example_tx 0 51"
  using sigHash_commits [of example_crypto example_tx example_tx 0 0 50 51 1 1]
  by (simp add: example_crypto_sha256 example_tx_ok in_int64_def) (simp add: example_tx_def)



end
