(* ===== verification/Script_Stack.thy ===== *)
theory Script_Stack
  imports Script_Num
begin

text \<open>
  The data stack of the script engine (\<open>src/txscript/stack.go\<close>).  As in the Go slice, the
  last element of \<open>stk\<close> is the top of the stack.  An operation that returns an error has no
  resulting stack: every caller abandons the script then.  Stack indices are \<open>int32\<close> values;
  the engine keeps stacks at 1000 elements, so the conversion of a stack's length to
  \<open>int32\<close> is exact.

  The lemmas give each operation as a rearrangement of the stack's segments, for every count
  \<open>n\<close>, with the exact condition under which it fails.
\<close>

record stack =
  stk :: "bytes list"
  verifyMinimalData :: bool

section \<open>Definitions\<close>

text \<open>The loop of \<open>asBool\<close> from an index on: a non-zero byte decides.\<close>

fun asBool :: "bytes \<Rightarrow> bool" where
  "asBool [] = False"
| "asBool (b # t) = (if b \<noteq> 0 then \<not> (t = [] \<and> b = 0x80) else asBool t)"

definition fromBool :: "bool \<Rightarrow> bytes" where
  "fromBool v = (if v then [1] else [])"

definition Depth :: "stack \<Rightarrow> int" where
  "Depth s = int (length (stk s))"

definition PushByteArray :: "bytes \<Rightarrow> stack \<Rightarrow> stack" where
  "PushByteArray so s = s\<lparr>stk := stk s @ [so]\<rparr>"

definition PushInt :: "scriptNum \<Rightarrow> stack \<Rightarrow> stack res" where
  "PushInt val s = bindE (scriptNum_Bytes val) (\<lambda>bs. Inr (PushByteArray bs s))"

definition PushBool :: "bool \<Rightarrow> stack \<Rightarrow> stack" where
  "PushBool val s = PushByteArray (fromBool val) s"

definition nipN :: "int \<Rightarrow> stack \<Rightarrow> (bytes \<times> stack) res" where
  "nipN idx s =
     (let sz = int (length (stk s))
      in if idx < 0 \<or> idx > sz - 1 then Inl (ScriptErr ErrInvalidStackOperation)
         else
           let so = stk s ! nat (sz - idx - 1)
           in if idx = 0 then Inr (so, s\<lparr>stk := take (nat (sz - 1)) (stk s)\<rparr>)
              else if idx = sz - 1 then Inr (so, s\<lparr>stk := drop 1 (stk s)\<rparr>)
              else
                let s1 = drop (nat (sz - idx)) (stk s)
                in Inr (so, s\<lparr>stk := take (nat (sz - idx - 1)) (stk s) @ s1\<rparr>))"

definition PopByteArray :: "stack \<Rightarrow> (bytes \<times> stack) res" where
  "PopByteArray s = nipN 0 s"

definition PopInt :: "stack \<Rightarrow> (scriptNum \<times> stack) res" where
  "PopInt s =
     bindE (PopByteArray s) (\<lambda>(so, s').
     bindE (makeScriptNum so (verifyMinimalData s') defaultScriptNumLen) (\<lambda>n. Inr (n, s')))"

definition PopBool :: "stack \<Rightarrow> (bool \<times> stack) res" where
  "PopBool s = bindE (PopByteArray s) (\<lambda>(so, s'). Inr (asBool so, s'))"

definition PeekByteArray :: "int \<Rightarrow> stack \<Rightarrow> bytes res" where
  "PeekByteArray idx s =
     (let sz = int (length (stk s))
      in if idx < 0 \<or> idx \<ge> sz then Inl (ScriptErr ErrInvalidStackOperation)
         else Inr (stk s ! nat (sz - idx - 1)))"

definition PeekInt :: "int \<Rightarrow> stack \<Rightarrow> scriptNum res" where
  "PeekInt idx s =
     bindE (PeekByteArray idx s) (\<lambda>so. makeScriptNum so (verifyMinimalData s) defaultScriptNumLen)"

definition PeekBool :: "int \<Rightarrow> stack \<Rightarrow> bool res" where
  "PeekBool idx s = bindE (PeekByteArray idx s) (\<lambda>so. Inr (asBool so))"

definition NipN :: "int \<Rightarrow> stack \<Rightarrow> stack res" where
  "NipN idx s = bindE (nipN idx s) (\<lambda>(_, s'). Inr s')"

definition Tuck :: "stack \<Rightarrow> stack res" where
  "Tuck s =
     bindE (PopByteArray s) (\<lambda>(so2, s).
     bindE (PopByteArray s) (\<lambda>(so1, s).
     let s = PushByteArray so2 s;
         s = PushByteArray so1 s;
         s = PushByteArray so2 s
     in Inr s))"

definition DropN :: "int \<Rightarrow> stack \<Rightarrow> stack res" where
  "DropN n s =
     (if n < 1 then Inl (ScriptErr ErrInvalidStackOperation)
      else repeatE (nat n) (\<lambda>s. bindE (PopByteArray s) (\<lambda>(_, s). Inr s)) s)"

definition DupN :: "int \<Rightarrow> stack \<Rightarrow> stack res" where
  "DupN n s =
     (if n < 1 then Inl (ScriptErr ErrInvalidStackOperation)
      else repeatE (nat n)
             (\<lambda>s. bindE (PeekByteArray (n - 1) s) (\<lambda>so. Inr (PushByteArray so s))) s)"

definition RotN :: "int \<Rightarrow> stack \<Rightarrow> stack res" where
  "RotN n s =
     (if n < 1 then Inl (ScriptErr ErrInvalidStackOperation)
      else
        let entry = to_int32 (3 * n - 1)
        in repeatE (nat n) (\<lambda>s. bindE (nipN entry s) (\<lambda>(so, s). Inr (PushByteArray so s))) s)"

definition SwapN :: "int \<Rightarrow> stack \<Rightarrow> stack res" where
  "SwapN n s =
     (if n < 1 then Inl (ScriptErr ErrInvalidStackOperation)
      else
        let entry = to_int32 (2 * n - 1)
        in repeatE (nat n) (\<lambda>s. bindE (nipN entry s) (\<lambda>(so, s). Inr (PushByteArray so s))) s)"

definition OverN :: "int \<Rightarrow> stack \<Rightarrow> stack res" where
  "OverN n s =
     (if n < 1 then Inl (ScriptErr ErrInvalidStackOperation)
      else
        let entry = to_int32 (2 * n - 1)
        in repeatE (nat n)
             (\<lambda>s. bindE (PeekByteArray entry s) (\<lambda>so. Inr (PushByteArray so s))) s)"

definition PickN :: "int \<Rightarrow> stack \<Rightarrow> stack res" where
  "PickN n s = bindE (PeekByteArray n s) (\<lambda>so. Inr (PushByteArray so s))"

definition RollN :: "int \<Rightarrow> stack \<Rightarrow> stack res" where
  "RollN n s = bindE (nipN n s) (\<lambda>(so, s). Inr (PushByteArray so s))"

section \<open>The operations on segments of the stack\<close>

lemma stk_Push [simp]: "stk (PushByteArray so s) = stk s @ [so]"
  by (simp add: PushByteArray_def)

lemma Push_stk [simp]: "PushByteArray so (s\<lparr>stk := xs\<rparr>) = s\<lparr>stk := xs @ [so]\<rparr>"
  by (simp add: PushByteArray_def)

text \<open>The three branches of \<open>nipN\<close> remove one element: the cut is at the element itself.\<close>

lemma nipN_eq:
  "nipN idx s =
     (if 0 \<le> idx \<and> idx < int (length (stk s)) then
        let k = length (stk s) - 1 - nat idx
        in Inr (stk s ! k, s\<lparr>stk := take k (stk s) @ drop (Suc k) (stk s)\<rparr>)
      else Inl (ScriptErr ErrInvalidStackOperation))"
proof (cases "0 \<le> idx \<and> idx < int (length (stk s))")
  case True
  define k where "k = length (stk s) - 1 - nat idx"
  have "nat (int (length (stk s)) - idx - 1) = k" "nat (int (length (stk s)) - idx) = Suc k"
    using True by (auto simp: k_def)
  moreover have "idx = 0 \<Longrightarrow> k = length (stk s) - 1" "idx = int (length (stk s)) - 1 \<Longrightarrow> k = 0"
    using True by (auto simp: k_def)
  ultimately show ?thesis using True
    unfolding k_def [symmetric] by (auto simp: nipN_def Let_def)
qed (auto simp: nipN_def Let_def)

lemma nipN_segment:
  "stk s = xs @ a # ys \<Longrightarrow> nipN (int (length ys)) s = Inr (a, s\<lparr>stk := xs @ ys\<rparr>)"
  by (simp add: nipN_eq Let_def)

lemma nipN_fail: "int (length (stk s)) \<le> idx \<Longrightarrow> nipN idx s = Inl (ScriptErr ErrInvalidStackOperation)"
  by (simp add: nipN_eq)

lemma Peek_segment: "stk s = xs @ a # ys \<Longrightarrow> PeekByteArray (int (length ys)) s = Inr a"
  by (simp add: PeekByteArray_def Let_def nat_diff_distrib)

lemma Peek_fail:
  "int (length (stk s)) \<le> idx \<Longrightarrow> PeekByteArray idx s = Inl (ScriptErr ErrInvalidStackOperation)"
  by (simp add: PeekByteArray_def Let_def)

lemma Pop_snoc [simp]: "PopByteArray (s\<lparr>stk := xs @ [x]\<rparr>) = Inr (x, s\<lparr>stk := xs\<rparr>)"
  by (simp add: PopByteArray_def nipN_eq)

lemma Pop_Nil [simp]: "PopByteArray (s\<lparr>stk := []\<rparr>) = Inl (ScriptErr ErrInvalidStackOperation)"
  by (simp add: PopByteArray_def nipN_eq)

lemma Pop_eq:
  "PopByteArray s = (if stk s = [] then Inl (ScriptErr ErrInvalidStackOperation)
     else Inr (last (stk s), s\<lparr>stk := butlast (stk s)\<rparr>))"
  by (cases "stk s" rule: rev_cases) (auto simp: PopByteArray_def nipN_eq)

text \<open>Moving the element at depth \<open>m\<close> to the top, repeatedly, rotates a segment.\<close>

lemma rotate_loop:
  assumes "stk s = xs @ a @ b" and "m = int (length (a @ b)) - 1"
  shows "repeatE (length a) (\<lambda>s. bindE (nipN m s) (\<lambda>(so, s). Inr (PushByteArray so s))) s =
           Inr (s\<lparr>stk := xs @ b @ a\<rparr>)"
  using assms
proof (induction a arbitrary: s b)
  case (Cons x a)
  have "nipN m s = Inr (x, s\<lparr>stk := xs @ a @ b\<rparr>)"
    using nipN_segment [of s xs x "a @ b"] Cons.prems by simp
  with Cons.IH [of "s\<lparr>stk := xs @ a @ b @ [x]\<rparr>" "b @ [x]"] Cons.prems show ?case by simp
qed simp

text \<open>Copying the element at depth \<open>m\<close> to the top, repeatedly, copies a segment.\<close>

lemma copy_loop:
  assumes "stk s = xs @ a @ b" and "m = int (length (a @ b)) - 1"
  shows "repeatE (length a) (\<lambda>s. bindE (PeekByteArray m s) (\<lambda>so. Inr (PushByteArray so s))) s =
           Inr (s\<lparr>stk := xs @ a @ b @ a\<rparr>)"
  using assms
proof (induction a arbitrary: s b xs)
  case (Cons x a)
  have "PeekByteArray m s = Inr x"
    using Peek_segment [of s xs x "a @ b"] Cons.prems by simp
  with Cons.IH [of "s\<lparr>stk := xs @ [x] @ a @ b @ [x]\<rparr>" "xs @ [x]" "b @ [x]"] Cons.prems
  show ?case by (simp add: PushByteArray_def)
qed simp

lemma drop_loop:
  "stk s = xs @ a \<Longrightarrow>
   repeatE (length a) (\<lambda>s. bindE (PopByteArray s) (\<lambda>(_, s). Inr s)) s = Inr (s\<lparr>stk := xs\<rparr>)"
proof (induction a arbitrary: s rule: rev_induct)
  case (snoc x a)
  then have "PopByteArray s = Inr (x, s\<lparr>stk := xs @ a\<rparr>)"
    by (simp add: Pop_eq butlast_append del: append_assoc flip: append_assoc)
  with snoc.IH [of "s\<lparr>stk := xs @ a\<rparr>"] show ?case by simp
qed simp

lemma drop_loop_fail:
  "length (stk s) < n \<Longrightarrow>
   repeatE n (\<lambda>s. bindE (PopByteArray s) (\<lambda>(_, s). Inr s)) s = Inl (ScriptErr ErrInvalidStackOperation)"
proof (induction n arbitrary: s)
  case (Suc n)
  then show ?case by (cases "stk s" rule: rev_cases) (simp_all add: Pop_eq)
qed simp

lemma repeatE_fail: "0 < n \<Longrightarrow> f s = Inl e \<Longrightarrow> repeatE n f s = Inl e"
  by (cases n) auto

lemma entry_exact:
  assumes "0 < n" and "3 * n \<le> 2 ^ 31"
  shows "to_int32 (2 * int n - 1) = 2 * int n - 1" "to_int32 (3 * int n - 1) = 3 * int n - 1"
  using assms by (simp_all add: in_int32_def)

lemma DropN_segment: "stk s = xs @ a \<Longrightarrow> 0 < length a \<Longrightarrow> DropN (int (length a)) s = Inr (s\<lparr>stk := xs\<rparr>)"
  using drop_loop [of s xs a] by (simp add: DropN_def)

lemma DupN_segment: "stk s = xs @ a \<Longrightarrow> 0 < length a \<Longrightarrow> DupN (int (length a)) s = Inr (s\<lparr>stk := xs @ a @ a\<rparr>)"
  using copy_loop [of s xs a "[]" "int (length a) - 1"] by (simp add: DupN_def)

lemma SwapN_segment:
  "stk s = xs @ a @ b \<Longrightarrow> length b = length a \<Longrightarrow> 0 < length a \<Longrightarrow> 3 * length a \<le> 2 ^ 31 \<Longrightarrow>
   SwapN (int (length a)) s = Inr (s\<lparr>stk := xs @ b @ a\<rparr>)"
  using rotate_loop [of s xs a b] by (simp add: SwapN_def entry_exact)

lemma OverN_segment:
  "stk s = xs @ a @ b \<Longrightarrow> length b = length a \<Longrightarrow> 0 < length a \<Longrightarrow> 3 * length a \<le> 2 ^ 31 \<Longrightarrow>
   OverN (int (length a)) s = Inr (s\<lparr>stk := xs @ a @ b @ a\<rparr>)"
  using copy_loop [of s xs a b] by (simp add: OverN_def entry_exact)

lemma RotN_segment:
  "stk s = xs @ a @ b @ c \<Longrightarrow> length b = length a \<Longrightarrow> length c = length a \<Longrightarrow> 0 < length a \<Longrightarrow>
   3 * length a \<le> 2 ^ 31 \<Longrightarrow> RotN (int (length a)) s = Inr (s\<lparr>stk := xs @ b @ c @ a\<rparr>)"
  using rotate_loop [of s xs a "b @ c"] by (simp add: RotN_def entry_exact)

lemmas segment_ops = DropN_segment DupN_segment SwapN_segment OverN_segment RotN_segment

lemma split_top: "k \<le> length l \<Longrightarrow> \<exists>xs a. l = xs @ a \<and> length a = k"
  by (rule exI [of _ "take (length l - k) l"], rule exI [of _ "drop (length l - k) l"]) simp

lemma split_top2: "2 * k \<le> length l \<Longrightarrow> \<exists>xs a b. l = xs @ a @ b \<and> length a = k \<and> length b = k"
  using split_top [of "2 * k" l] split_top [of k] by (metis le_add1 length_append mult_2 add_right_cancel)

lemma split_top3:
  "3 * k \<le> length l \<Longrightarrow> \<exists>xs a b c. l = xs @ a @ b @ c \<and> length a = k \<and> length b = k \<and> length c = k"
proof -
  assume "3 * k \<le> length l"
  then obtain xs t where "l = xs @ t" "length t = 3 * k" using split_top by blast
  moreover from this obtain a b c where "t = a @ b @ c" "length b = k" "length c = k"
    using split_top2 [of k t] by auto
  ultimately show ?thesis by (intro exI [of _ xs] exI [of _ a] exI [of _ b] exI [of _ c]) simp
qed

section \<open>Properties\<close>

text \<open>
  C25. The stack operations perform the stack transformations that their comments draw, for
  every count \<open>n\<close>: with \<open>a\<close>, \<open>b\<close>, \<open>c\<close> the top segments of \<open>n\<close> elements each,
  \<open>DropN\<close> removes the last, \<open>DupN\<close> copies it, \<open>SwapN\<close> exchanges two, \<open>OverN\<close> copies the
  one below the top, \<open>RotN\<close> moves the lowest of three to the top; nothing below them changes.
\<close>

theorem stack_transformations:
  assumes "0 < n" and "3 * n \<le> 2 ^ 31"
    and "length a = n" and "length b = n" and "length c = n"
  shows "DropN (int n) (s\<lparr>stk := xs @ a\<rparr>) = Inr (s\<lparr>stk := xs\<rparr>) \<and>
    DupN (int n) (s\<lparr>stk := xs @ a\<rparr>) = Inr (s\<lparr>stk := xs @ a @ a\<rparr>) \<and>
    SwapN (int n) (s\<lparr>stk := xs @ a @ b\<rparr>) = Inr (s\<lparr>stk := xs @ b @ a\<rparr>) \<and>
    OverN (int n) (s\<lparr>stk := xs @ a @ b\<rparr>) = Inr (s\<lparr>stk := xs @ a @ b @ a\<rparr>) \<and>
    RotN (int n) (s\<lparr>stk := xs @ a @ b @ c\<rparr>) = Inr (s\<lparr>stk := xs @ b @ c @ a\<rparr>)"
  using assms
  by (auto simp: segment_ops [of "_\<lparr>stk := _\<rparr>", simplified])

theorem stack_transformations_witness:
  "RotN 2 \<lparr>stk = [[9], [1], [2], [3], [4], [5], [6]], verifyMinimalData = True\<rparr> =
     Inr \<lparr>stk = [[9], [3], [4], [5], [6], [1], [2]], verifyMinimalData = True\<rparr>"
  using stack_transformations [of 2 "[[1], [2]]" "[[3], [4]]" "[[5], [6]]" "[[9]]"
      "\<lparr>stk = [], verifyMinimalData = True\<rparr>"] by simp

text \<open>
  The same operations fail exactly when the stack is too short for the transformation, and
  then with the invalid-stack-operation error.
\<close>

theorem stack_underflow:
  assumes "0 < n" and "3 * n \<le> 2 ^ 31"
  shows "(length (stk s) < n \<longleftrightarrow> DropN (int n) s = Inl (ScriptErr ErrInvalidStackOperation)) \<and>
    (length (stk s) < n \<longleftrightarrow> DupN (int n) s = Inl (ScriptErr ErrInvalidStackOperation)) \<and>
    (length (stk s) < 2 * n \<longleftrightarrow> SwapN (int n) s = Inl (ScriptErr ErrInvalidStackOperation)) \<and>
    (length (stk s) < 2 * n \<longleftrightarrow> OverN (int n) s = Inl (ScriptErr ErrInvalidStackOperation)) \<and>
    (length (stk s) < 3 * n \<longleftrightarrow> RotN (int n) s = Inl (ScriptErr ErrInvalidStackOperation))"
proof -
  note [simp] = entry_exact [OF assms]
  have "DropN (int n) s = Inl (ScriptErr ErrInvalidStackOperation) \<and>
      DupN (int n) s = Inl (ScriptErr ErrInvalidStackOperation)" if "length (stk s) < n"
    using assms that by (simp add: DropN_def DupN_def drop_loop_fail Peek_fail repeatE_fail)
  moreover have "SwapN (int n) s = Inl (ScriptErr ErrInvalidStackOperation) \<and>
      OverN (int n) s = Inl (ScriptErr ErrInvalidStackOperation)" if "length (stk s) < 2 * n"
    using assms that by (simp add: SwapN_def OverN_def Peek_fail nipN_fail repeatE_fail)
  moreover have "RotN (int n) s = Inl (ScriptErr ErrInvalidStackOperation)" if "length (stk s) < 3 * n"
    using assms that by (simp add: RotN_def nipN_fail repeatE_fail)
  moreover have "isl (DropN (int n) s) \<longrightarrow> length (stk s) < n" "isl (DupN (int n) s) \<longrightarrow> length (stk s) < n"
    using segment_ops(1,2) [of s _ _] split_top [of n "stk s"] assms(1) by (fastforce simp: not_less)+
  moreover have "isl (SwapN (int n) s) \<longrightarrow> length (stk s) < 2 * n"
      "isl (OverN (int n) s) \<longrightarrow> length (stk s) < 2 * n"
    using segment_ops(3,4) [of s] split_top2 [of n "stk s"] assms by (fastforce simp: not_less)+
  moreover have "isl (RotN (int n) s) \<longrightarrow> length (stk s) < 3 * n"
    using RotN_segment [of s] split_top3 [of n "stk s"] assms by (fastforce simp: not_less)
  ultimately show ?thesis by (metis isl_def)
qed

theorem stack_underflow_witness:
  "(length (stk \<lparr>stk = [[1], [2], [3]], verifyMinimalData = True\<rparr>) < 2 * 2 \<longleftrightarrow>
     SwapN 2 \<lparr>stk = [[1], [2], [3]], verifyMinimalData = True\<rparr> =
       Inl (ScriptErr ErrInvalidStackOperation))"
  using stack_underflow [of 2 "\<lparr>stk = [[1], [2], [3]], verifyMinimalData = True\<rparr>"] by simp

end
