(* ===== verification/Engine_State.thy ===== *)
theory Engine_State
  imports Sig_Hash Script_Stack
begin

text \<open>
  The state of the script engine (\<open>src/txscript/engine.go\<close>), the signature cache
  (\<open>src/txscript/sigcache.go\<close>) and the checks of encodings that the flags switch on.

  The environment of a run is the record of cryptographic primitives with the choice that the
  signature cache makes when it is full: Go removes the first entry of a map iteration, whose
  order is unspecified, so the choice is a parameter.  Handlers map a state to a state or an
  error; \<open>Inl Panic\<close> is a run-time panic and \<open>Inl NoReturn\<close> a call that does not return.
  Fields that several goroutines may share (the cache) are part of the state of the run.
\<close>

section \<open>Flags\<close>

type_synonym ScriptFlags = "32 word"

abbreviation (input) ScriptBip16 :: ScriptFlags where "ScriptBip16 \<equiv> 0x1"
abbreviation (input) ScriptStrictMultiSig :: ScriptFlags where "ScriptStrictMultiSig \<equiv> 0x2"
abbreviation (input) ScriptDiscourageUpgradableNops :: ScriptFlags where "ScriptDiscourageUpgradableNops \<equiv> 0x4"
abbreviation (input) ScriptVerifyCheckLockTimeVerify :: ScriptFlags where "ScriptVerifyCheckLockTimeVerify \<equiv> 0x8"
abbreviation (input) ScriptVerifyCheckSequenceVerify :: ScriptFlags where "ScriptVerifyCheckSequenceVerify \<equiv> 0x10"
abbreviation (input) ScriptVerifyCleanStack :: ScriptFlags where "ScriptVerifyCleanStack \<equiv> 0x20"
abbreviation (input) ScriptVerifyDERSignatures :: ScriptFlags where "ScriptVerifyDERSignatures \<equiv> 0x40"
abbreviation (input) ScriptVerifyLowS :: ScriptFlags where "ScriptVerifyLowS \<equiv> 0x80"
abbreviation (input) ScriptVerifyMinimalData :: ScriptFlags where "ScriptVerifyMinimalData \<equiv> 0x100"
abbreviation (input) ScriptVerifyNullFail :: ScriptFlags where "ScriptVerifyNullFail \<equiv> 0x200"
abbreviation (input) ScriptVerifySigPushOnly :: ScriptFlags where "ScriptVerifySigPushOnly \<equiv> 0x400"
abbreviation (input) ScriptVerifyStrictEncoding :: ScriptFlags where "ScriptVerifyStrictEncoding \<equiv> 0x800"

section \<open>The signature cache\<close>

type_synonym sigCacheEntry = "Signature \<times> PublicKey"

record SigCache =
  validSigs :: "(bytes \<times> sigCacheEntry) list"
  maxEntries :: nat

record vmenv = crypto +
  evict :: "bytes list \<Rightarrow> bytes"

definition NewSigCache :: "nat \<Rightarrow> SigCache" where
  "NewSigCache maxEnt = \<lparr>validSigs = [], maxEntries = maxEnt\<rparr>"

definition Signature_IsEqual :: "Signature \<Rightarrow> Signature \<Rightarrow> bool" where
  "Signature_IsEqual sig otherSig \<longleftrightarrow> R sig = R otherSig \<and> S sig = S otherSig"

definition SigCache_Exists :: "SigCache \<Rightarrow> bytes \<Rightarrow> Signature \<Rightarrow> PublicKey \<Rightarrow> bool" where
  "SigCache_Exists s sigHash sig pubKey =
     (case map_of (validSigs s) sigHash of
        None \<Rightarrow> False
      | Some entry \<Rightarrow> PublicKey_IsEqual (snd entry) pubKey \<and> Signature_IsEqual (fst entry) sig)"

definition SigCache_Add :: "(bytes list \<Rightarrow> bytes) \<Rightarrow> bytes \<Rightarrow> Signature \<Rightarrow> PublicKey \<Rightarrow> SigCache \<Rightarrow> SigCache" where
  "SigCache_Add ev sigHash sig pubKey s =
     (if maxEntries s \<le> 0 then s
      else
        let s = (if length (validSigs s) + 1 > maxEntries s
                 then s\<lparr>validSigs := AList.delete (ev (map fst (validSigs s))) (validSigs s)\<rparr> else s)
        in s\<lparr>validSigs := AList.update sigHash (sig, pubKey) (validSigs s)\<rparr>)"

section \<open>The engine\<close>

definition MaxStackSize :: int where "MaxStackSize = 1000"

abbreviation (input) OpCondFalse :: nat where "OpCondFalse \<equiv> 0"
abbreviation (input) OpCondTrue :: nat where "OpCondTrue \<equiv> 1"
abbreviation (input) OpCondSkip :: nat where "OpCondSkip \<equiv> 2"

record Engine =
  vm_scripts :: "parsedOpcode list list"
  scriptIdx :: nat
  scriptOff :: nat
  lastCodeSep :: nat
  dstack :: stack
  astack :: stack
  vm_tx :: MsgTx
  txIdx :: nat
  condStack :: "nat list"
  numOps :: int
  vm_flags :: ScriptFlags
  sigCache :: "SigCache option"
  hashCache :: "TxSigHashes option"
  vm_bip16 :: bool
  savedFirstStack :: "bytes list"
  inputAmount :: int

definition hasFlag :: "ScriptFlags \<Rightarrow> Engine \<Rightarrow> bool" where
  "hasFlag flag vm \<longleftrightarrow> vm_flags vm AND flag = flag"

definition isBranchExecuting :: "Engine \<Rightarrow> bool" where
  "isBranchExecuting vm \<longleftrightarrow>
     (if length (condStack vm) = 0 then True else condStack vm ! (length (condStack vm) - 1) = OpCondTrue)"

definition subScript :: "Engine \<Rightarrow> parsedOpcode list" where
  "subScript vm = drop (lastCodeSep vm) (vm_scripts vm ! scriptIdx vm)"

definition getStack :: "stack \<Rightarrow> bytes list" where
  "getStack s = rev (map (\<lambda>i. case PeekByteArray (int i) s of Inr b \<Rightarrow> b | Inl _ \<Rightarrow> []) [0 ..< nat (Depth s)])"

definition setStack :: "bytes list \<Rightarrow> stack \<Rightarrow> stack" where
  "setStack d s =
     (let s = (case DropN (Depth s) s of Inr s' \<Rightarrow> s' | Inl _ \<Rightarrow> s)
      in foldl (\<lambda>s b. PushByteArray b s) s d)"

section \<open>Checks of encodings\<close>

definition checkHashTypeEncoding :: "SigHashType \<Rightarrow> Engine \<Rightarrow> unit res" where
  "checkHashTypeEncoding hashType vm =
     (if \<not> hasFlag ScriptVerifyStrictEncoding vm then Inr ()
      else
        let sigHashType = hashType AND NOT SigHashAnyOneCanPay
        in if sigHashType < SigHashAll \<or> sigHashType > SigHashSingle
           then Inl (ScriptErr ErrInvalidSigHashType) else Inr ())"

definition checkPubKeyEncoding :: "bytes \<Rightarrow> Engine \<Rightarrow> unit res" where
  "checkPubKeyEncoding pubKey vm =
     (if \<not> hasFlag ScriptVerifyStrictEncoding vm then Inr ()
      else if length pubKey = 33 \<and> (pubKey ! 0 = 0x02 \<or> pubKey ! 0 = 0x03) then Inr ()
      else if length pubKey = 65 \<and> pubKey ! 0 = 0x04 then Inr ()
      else Inl (ScriptErr ErrPubKeyType))"

text \<open>
  \<open>checkSignatureEncoding\<close>.  The access to the length byte of \<open>S\<close> at \<open>rLen+5\<close> is guarded by
  \<open>rLen+5 > len(sig)\<close> only, so it is out of range when the two are equal.
\<close>

definition checkSignatureEncoding :: "bytes \<Rightarrow> Engine \<Rightarrow> unit res" where
  "checkSignatureEncoding sig vm =
     (let der = Inl (ScriptErr ErrSigDER) :: unit res
      in if \<not> hasFlag ScriptVerifyDERSignatures vm \<and> \<not> hasFlag ScriptVerifyLowS vm \<and>
            \<not> hasFlag ScriptVerifyStrictEncoding vm then Inr ()
         else if length sig < 8 then der
         else if length sig > 72 then der
         else if sig ! 0 \<noteq> 0x30 then der
         else if unat (sig ! 1) \<noteq> length sig - 2 then der
         else
           let rLen = unat (sig ! 3)
           in if rLen + 5 > length sig then der
              else bindE (idxE sig (rLen + 5)) (\<lambda>sLen.
              let sLen = unat sLen
              in if rLen + sLen + 6 \<noteq> length sig then der
                 else if sig ! 2 \<noteq> 0x02 then der
                 else if rLen = 0 then der
                 else if sig ! 4 AND 0x80 \<noteq> 0 then der
                 else if rLen > 1 \<and> sig ! 4 = 0x00 \<and> sig ! 5 AND 0x80 = 0 then der
                 else if sig ! (rLen + 4) \<noteq> 0x02 then der
                 else if sLen = 0 then der
                 else if sig ! (rLen + 6) AND 0x80 \<noteq> 0 then der
                 else if sLen > 1 \<and> sig ! (rLen + 6) = 0x00 \<and> sig ! (rLen + 7) AND 0x80 = 0 then der
                 else if hasFlag ScriptVerifyLowS vm \<and>
                         be_int (take sLen (drop (rLen + 6) sig)) > halforder
                 then Inl (ScriptErr ErrSigHighS)
                 else Inr ()))"

section \<open>The cache holds valid signatures only\<close>

text \<open>
  \<open>cache_valid c s\<close>: every entry of the cache verifies under the primitives \<open>c\<close>.
\<close>

definition cache_valid :: "'a crypto_scheme \<Rightarrow> SigCache \<Rightarrow> bool" where
  "cache_valid c s \<longleftrightarrow>
     (\<forall>(h, sig, pk) \<in> set (validSigs s). ecdsa_Verify c pk h (R sig) (S sig))"

lemma cache_valid_New: "cache_valid c (NewSigCache n)"
  by (simp add: cache_valid_def NewSigCache_def)

lemma cache_valid_Exists:
  "cache_valid c s \<Longrightarrow> SigCache_Exists s h sig pk \<Longrightarrow> ecdsa_Verify c pk h (R sig) (S sig)"
proof -
  assume v: "cache_valid c s" and "SigCache_Exists s h sig pk"
  then obtain sig' pk' where e: "(h, sig', pk') \<in> set (validSigs s)" "X pk' = X pk" "Y pk' = Y pk"
      "R sig' = R sig" "S sig' = S sig"
    by (auto simp: SigCache_Exists_def PublicKey_IsEqual_def Signature_IsEqual_def dest!: map_of_SomeD
        split: option.splits)
  then have "pk' = pk" by (cases pk'; cases pk) simp
  with v e show ?thesis by (force simp: cache_valid_def)
qed

lemma cache_valid_Add:
  assumes "cache_valid c s" and "ecdsa_Verify c pk h (R sig) (S sig)"
  shows "cache_valid c (SigCache_Add ev h sig pk s)"
proof -
  have "set (AList.update h v xs) \<subseteq> insert (h, v) (set xs)" for v :: sigCacheEntry and xs
    by (induction xs) auto
  moreover have "set (AList.delete k xs) \<subseteq> set xs" for k and xs :: "(bytes \<times> sigCacheEntry) list"
    by (auto simp: AList.delete_eq)
  ultimately show ?thesis
    using assms unfolding cache_valid_def SigCache_Add_def Let_def by (auto split: if_splits) blast+
qed

end
