(* ===== verification/Engine_Ops.thy ===== *)
theory Engine_Ops
  imports Engine_State
begin

text \<open>
  The opcode handlers of \<open>src/txscript/opcode.go\<close> that do not verify signatures, in the
  order of the source, one definition per handler.  A handler takes the parsed opcode and the
  engine and returns the engine it leaves or the error it returns; what the handlers keep of the
  engine is shown in \<open>Script_Engine\<close>.
\<close>

section \<open>Access to the stacks\<close>

definition on_dstack :: "(stack \<Rightarrow> stack res) \<Rightarrow> Engine \<Rightarrow> Engine res" where
  "on_dstack f vm = bindE (f (dstack vm)) (\<lambda>s. Inr (vm\<lparr>dstack := s\<rparr>))"

definition popBytes :: "Engine \<Rightarrow> (bytes \<times> Engine) res" where
  "popBytes vm = bindE (PopByteArray (dstack vm)) (\<lambda>(so, s). Inr (so, vm\<lparr>dstack := s\<rparr>))"

definition popInt :: "Engine \<Rightarrow> (scriptNum \<times> Engine) res" where
  "popInt vm = bindE (PopInt (dstack vm)) (\<lambda>(n, s). Inr (n, vm\<lparr>dstack := s\<rparr>))"

definition popBool :: "Engine \<Rightarrow> (bool \<times> Engine) res" where
  "popBool vm = bindE (PopBool (dstack vm)) (\<lambda>(b, s). Inr (b, vm\<lparr>dstack := s\<rparr>))"

definition pushBytes :: "bytes \<Rightarrow> Engine \<Rightarrow> Engine" where
  "pushBytes so vm = vm\<lparr>dstack := PushByteArray so (dstack vm)\<rparr>"

definition pushBool :: "bool \<Rightarrow> Engine \<Rightarrow> Engine" where
  "pushBool v vm = vm\<lparr>dstack := PushBool v (dstack vm)\<rparr>"

definition pushInt :: "scriptNum \<Rightarrow> Engine \<Rightarrow> Engine res" where
  "pushInt n vm = on_dstack (PushInt n) vm"

section \<open>Reserved opcodes, constants and flow control\<close>

type_synonym handler = "parsedOpcode \<Rightarrow> Engine \<Rightarrow> Engine res"

definition opcodeDisabled :: handler where
  "opcodeDisabled op vm = Inl (ScriptErr ErrDisabledOpcode)"

definition opcodeReserved :: handler where
  "opcodeReserved op vm = Inl (ScriptErr ErrReservedOpcode)"

definition opcodeInvalid :: handler where
  "opcodeInvalid op vm = Inl (ScriptErr ErrReservedOpcode)"

definition opcodeFalse :: handler where
  "opcodeFalse op vm = Inr (pushBytes [] vm)"

definition opcodePushData :: handler where
  "opcodePushData op vm = Inr (pushBytes (data op) vm)"

definition opcode1Negate :: handler where
  "opcode1Negate op vm = pushInt (-1) vm"

definition opcodeN :: handler where
  "opcodeN op vm = pushInt (int (unat (opcode op - (OP_1 - 1)))) vm"

definition opcodeNop :: handler where
  "opcodeNop op vm =
     (if opcode op \<in> set [OP_NOP1, OP_NOP4, OP_NOP5, OP_NOP6, OP_NOP7, OP_NOP8, OP_NOP9, OP_NOP10] \<and>
         hasFlag ScriptDiscourageUpgradableNops vm
      then Inl (ScriptErr ErrDiscourageUpgradableNOPs) else Inr vm)"

definition opcodeIf :: handler where
  "opcodeIf op vm =
     bindE
       (if isBranchExecuting vm then
          bindE (popBool vm) (\<lambda>(ok, vm). Inr (if ok then OpCondTrue else OpCondFalse, vm))
        else Inr (OpCondSkip, vm))
       (\<lambda>(condVal, vm). Inr (vm\<lparr>condStack := condStack vm @ [condVal]\<rparr>))"

definition opcodeNotIf :: handler where
  "opcodeNotIf op vm =
     bindE
       (if isBranchExecuting vm then
          bindE (popBool vm) (\<lambda>(ok, vm). Inr (if \<not> ok then OpCondTrue else OpCondFalse, vm))
        else Inr (OpCondSkip, vm))
       (\<lambda>(condVal, vm). Inr (vm\<lparr>condStack := condStack vm @ [condVal]\<rparr>))"

definition opcodeElse :: handler where
  "opcodeElse op vm =
     (if length (condStack vm) = 0 then Inl (ScriptErr ErrUnbalancedConditional)
      else
        let conditionalIdx = length (condStack vm) - 1; v = condStack vm ! conditionalIdx
        in if v = OpCondTrue then Inr (vm\<lparr>condStack := (condStack vm)[conditionalIdx := OpCondFalse]\<rparr>)
           else if v = OpCondFalse then Inr (vm\<lparr>condStack := (condStack vm)[conditionalIdx := OpCondTrue]\<rparr>)
           else Inr vm)"

definition opcodeEndif :: handler where
  "opcodeEndif op vm =
     (if length (condStack vm) = 0 then Inl (ScriptErr ErrUnbalancedConditional)
      else Inr (vm\<lparr>condStack := take (length (condStack vm) - 1) (condStack vm)\<rparr>))"

definition abstractVerify :: "parsedOpcode \<Rightarrow> Engine \<Rightarrow> ErrorCode \<Rightarrow> Engine res" where
  "abstractVerify op vm c =
     bindE (popBool vm) (\<lambda>(verified, vm). if \<not> verified then Inl (ScriptErr c) else Inr vm)"

definition opcodeVerify :: handler where
  "opcodeVerify op vm = abstractVerify op vm ErrVerify"

definition opcodeReturn :: handler where
  "opcodeReturn op vm = Inl (ScriptErr ErrEarlyReturn)"

section \<open>Lock times\<close>

definition LockTimeThreshold :: int where "LockTimeThreshold = 500000000"
definition SequenceLockTimeDisabled :: int where "SequenceLockTimeDisabled = 2 ^ 31"
definition SequenceLockTimeIsSeconds :: int where "SequenceLockTimeIsSeconds = 2 ^ 22"
definition SequenceLockTimeMask :: int where "SequenceLockTimeMask = 0xffff"

definition verifyLockTime :: "int \<Rightarrow> int \<Rightarrow> int \<Rightarrow> unit res" where
  "verifyLockTime txLockTime threshold lockTime =
     (if \<not> ((txLockTime < threshold \<and> lockTime < threshold) \<or>
            (txLockTime \<ge> threshold \<and> lockTime \<ge> threshold))
      then Inl (ScriptErr ErrUnsatisfiedLockTime)
      else if lockTime > txLockTime then Inl (ScriptErr ErrUnsatisfiedLockTime)
      else Inr ())"

definition opcodeCheckLockTimeVerify :: handler where
  "opcodeCheckLockTimeVerify op vm =
     (if \<not> hasFlag ScriptVerifyCheckLockTimeVerify vm then
        (if hasFlag ScriptDiscourageUpgradableNops vm then Inl (ScriptErr ErrDiscourageUpgradableNOPs) else Inr vm)
      else
        bindE (PeekByteArray 0 (dstack vm)) (\<lambda>so.
        bindE (makeScriptNum so (verifyMinimalData (dstack vm)) 5) (\<lambda>lockTime.
          if lockTime < 0 then Inl (ScriptErr ErrNegativeLockTime)
          else bindE (verifyLockTime (int (unat (LockTime (vm_tx vm)))) LockTimeThreshold lockTime) (\<lambda>_.
          bindE (idxE (TxIn (vm_tx vm)) (txIdx vm)) (\<lambda>ti.
            if Sequence ti = MaxTxInSequenceNum then Inl (ScriptErr ErrUnsatisfiedLockTime) else Inr vm)))))"

definition opcodeCheckSequenceVerify :: handler where
  "opcodeCheckSequenceVerify op vm =
     (if \<not> hasFlag ScriptVerifyCheckSequenceVerify vm then
        (if hasFlag ScriptDiscourageUpgradableNops vm then Inl (ScriptErr ErrDiscourageUpgradableNOPs) else Inr vm)
      else
        bindE (PeekByteArray 0 (dstack vm)) (\<lambda>so.
        bindE (makeScriptNum so (verifyMinimalData (dstack vm)) 5) (\<lambda>stackSequence.
          if stackSequence < 0 then Inl (ScriptErr ErrNegativeLockTime)
          else if stackSequence AND SequenceLockTimeDisabled \<noteq> 0 then Inr vm
          else if Version (vm_tx vm) < 2 then Inl (ScriptErr ErrUnsatisfiedLockTime)
          else bindE (idxE (TxIn (vm_tx vm)) (txIdx vm)) (\<lambda>ti.
            let txSequence = int (unat (Sequence ti))
            in if txSequence AND SequenceLockTimeDisabled \<noteq> 0 then Inl (ScriptErr ErrUnsatisfiedLockTime)
               else
                 let lockTimeMask = SequenceLockTimeIsSeconds OR SequenceLockTimeMask
                 in bindE (verifyLockTime (txSequence AND lockTimeMask) SequenceLockTimeIsSeconds
                             (stackSequence AND lockTimeMask)) (\<lambda>_. Inr vm)))))"

section \<open>Stack opcodes\<close>

definition opcodeToAltStack :: handler where
  "opcodeToAltStack op vm =
     bindE (popBytes vm) (\<lambda>(so, vm). Inr (vm\<lparr>astack := PushByteArray so (astack vm)\<rparr>))"

definition opcodeFromAltStack :: handler where
  "opcodeFromAltStack op vm =
     bindE (PopByteArray (astack vm)) (\<lambda>(so, s).
       let vm = vm\<lparr>astack := s\<rparr> in Inr (pushBytes so vm))"

definition opcode2Drop :: handler where
  "opcode2Drop op vm = on_dstack (DropN 2) vm"

definition opcode2Dup :: handler where
  "opcode2Dup op vm = on_dstack (DupN 2) vm"

definition opcode3Dup :: handler where
  "opcode3Dup op vm = on_dstack (DupN 3) vm"

definition opcode2Over :: handler where
  "opcode2Over op vm = on_dstack (OverN 2) vm"

definition opcode2Rot :: handler where
  "opcode2Rot op vm = on_dstack (RotN 2) vm"

definition opcode2Swap :: handler where
  "opcode2Swap op vm = on_dstack (SwapN 2) vm"

definition opcodeIfDup :: handler where
  "opcodeIfDup op vm =
     bindE (PeekByteArray 0 (dstack vm)) (\<lambda>so. if asBool so then Inr (pushBytes so vm) else Inr vm)"

definition opcodeDepth :: handler where
  "opcodeDepth op vm = pushInt (Depth (dstack vm)) vm"

definition opcodeDrop :: handler where
  "opcodeDrop op vm = on_dstack (DropN 1) vm"

definition opcodeDup :: handler where
  "opcodeDup op vm = on_dstack (DupN 1) vm"

definition opcodeNip :: handler where
  "opcodeNip op vm = on_dstack (NipN 1) vm"

definition opcodeOver :: handler where
  "opcodeOver op vm = on_dstack (OverN 1) vm"

definition opcodePick :: handler where
  "opcodePick op vm = bindE (popInt vm) (\<lambda>(val, vm). on_dstack (PickN (scriptNum_Int32 val)) vm)"

definition opcodeRoll :: handler where
  "opcodeRoll op vm = bindE (popInt vm) (\<lambda>(val, vm). on_dstack (RollN (scriptNum_Int32 val)) vm)"

definition opcodeRot :: handler where
  "opcodeRot op vm = on_dstack (RotN 1) vm"

definition opcodeSwap :: handler where
  "opcodeSwap op vm = on_dstack (SwapN 1) vm"

definition opcodeTuck :: handler where
  "opcodeTuck op vm = on_dstack Tuck vm"

section \<open>Splice, comparison and arithmetic opcodes\<close>

definition opcodeSize :: handler where
  "opcodeSize op vm = bindE (PeekByteArray 0 (dstack vm)) (\<lambda>so. pushInt (int (length so)) vm)"

definition opcodeEqual :: handler where
  "opcodeEqual op vm =
     bindE (popBytes vm) (\<lambda>(a, vm).
     bindE (popBytes vm) (\<lambda>(b, vm). Inr (pushBool (a = b) vm)))"

definition opcodeEqualVerify :: handler where
  "opcodeEqualVerify op vm =
     bindE (opcodeEqual op vm) (\<lambda>vm. abstractVerify op vm ErrEqualVerify)"

definition opcode1Add :: handler where
  "opcode1Add op vm = bindE (popInt vm) (\<lambda>(m, vm). pushInt (to_int64 (m + 1)) vm)"

definition opcode1Sub :: handler where
  "opcode1Sub op vm = bindE (popInt vm) (\<lambda>(m, vm). pushInt (to_int64 (m - 1)) vm)"

definition opcodeNegate :: handler where
  "opcodeNegate op vm = bindE (popInt vm) (\<lambda>(m, vm). pushInt (to_int64 (- m)) vm)"

definition opcodeAbs :: handler where
  "opcodeAbs op vm = bindE (popInt vm) (\<lambda>(m, vm). pushInt (if m < 0 then to_int64 (- m) else m) vm)"

definition opcodeNot :: handler where
  "opcodeNot op vm = bindE (popInt vm) (\<lambda>(m, vm). pushInt (if m = 0 then 1 else 0) vm)"

definition opcode0NotEqual :: handler where
  "opcode0NotEqual op vm = bindE (popInt vm) (\<lambda>(m, vm). pushInt (if m \<noteq> 0 then 1 else m) vm)"

definition opcodeAdd :: handler where
  "opcodeAdd op vm =
     bindE (popInt vm) (\<lambda>(v0, vm).
     bindE (popInt vm) (\<lambda>(v1, vm). pushInt (to_int64 (v0 + v1)) vm))"

definition opcodeSub :: handler where
  "opcodeSub op vm =
     bindE (popInt vm) (\<lambda>(v0, vm).
     bindE (popInt vm) (\<lambda>(v1, vm). pushInt (to_int64 (v1 - v0)) vm))"

definition opcodeBoolAnd :: handler where
  "opcodeBoolAnd op vm =
     bindE (popInt vm) (\<lambda>(v0, vm).
     bindE (popInt vm) (\<lambda>(v1, vm). pushInt (if v0 \<noteq> 0 \<and> v1 \<noteq> 0 then 1 else 0) vm))"

definition opcodeBoolOr :: handler where
  "opcodeBoolOr op vm =
     bindE (popInt vm) (\<lambda>(v0, vm).
     bindE (popInt vm) (\<lambda>(v1, vm). pushInt (if v0 \<noteq> 0 \<or> v1 \<noteq> 0 then 1 else 0) vm))"

definition opcodeNumEqual :: handler where
  "opcodeNumEqual op vm =
     bindE (popInt vm) (\<lambda>(v0, vm).
     bindE (popInt vm) (\<lambda>(v1, vm). pushInt (if v0 = v1 then 1 else 0) vm))"

definition opcodeNumEqualVerify :: handler where
  "opcodeNumEqualVerify op vm =
     bindE (opcodeNumEqual op vm) (\<lambda>vm. abstractVerify op vm ErrNumEqualVerify)"

definition opcodeNumNotEqual :: handler where
  "opcodeNumNotEqual op vm =
     bindE (popInt vm) (\<lambda>(v0, vm).
     bindE (popInt vm) (\<lambda>(v1, vm). pushInt (if v0 \<noteq> v1 then 1 else 0) vm))"

definition opcodeLessThan :: handler where
  "opcodeLessThan op vm =
     bindE (popInt vm) (\<lambda>(v0, vm).
     bindE (popInt vm) (\<lambda>(v1, vm). pushInt (if v1 < v0 then 1 else 0) vm))"

definition opcodeGreaterThan :: handler where
  "opcodeGreaterThan op vm =
     bindE (popInt vm) (\<lambda>(v0, vm).
     bindE (popInt vm) (\<lambda>(v1, vm). pushInt (if v1 > v0 then 1 else 0) vm))"

definition opcodeLessThanOrEqual :: handler where
  "opcodeLessThanOrEqual op vm =
     bindE (popInt vm) (\<lambda>(v0, vm).
     bindE (popInt vm) (\<lambda>(v1, vm). pushInt (if v1 \<le> v0 then 1 else 0) vm))"

definition opcodeGreaterThanOrEqual :: handler where
  "opcodeGreaterThanOrEqual op vm =
     bindE (popInt vm) (\<lambda>(v0, vm).
     bindE (popInt vm) (\<lambda>(v1, vm). pushInt (if v1 \<ge> v0 then 1 else 0) vm))"

definition opcodeMin :: handler where
  "opcodeMin op vm =
     bindE (popInt vm) (\<lambda>(v0, vm).
     bindE (popInt vm) (\<lambda>(v1, vm). pushInt (if v1 < v0 then v1 else v0) vm))"

definition opcodeMax :: handler where
  "opcodeMax op vm =
     bindE (popInt vm) (\<lambda>(v0, vm).
     bindE (popInt vm) (\<lambda>(v1, vm). pushInt (if v1 > v0 then v1 else v0) vm))"

definition opcodeWithin :: handler where
  "opcodeWithin op vm =
     bindE (popInt vm) (\<lambda>(maxVal, vm).
     bindE (popInt vm) (\<lambda>(minVal, vm).
     bindE (popInt vm) (\<lambda>(x, vm). pushInt (if x \<ge> minVal \<and> x < maxVal then 1 else 0) vm)))"

section \<open>Hash opcodes\<close>

definition opcodeRipemd160 :: "'x crypto_scheme \<Rightarrow> handler" where
  "opcodeRipemd160 c op vm = bindE (popBytes vm) (\<lambda>(buf, vm). Inr (pushBytes (ripemd160 c buf) vm))"

definition opcodeSha1 :: "'x crypto_scheme \<Rightarrow> handler" where
  "opcodeSha1 c op vm = bindE (popBytes vm) (\<lambda>(buf, vm). Inr (pushBytes (sha1 c buf) vm))"

definition opcodeSha256 :: "'x crypto_scheme \<Rightarrow> handler" where
  "opcodeSha256 c op vm = bindE (popBytes vm) (\<lambda>(buf, vm). Inr (pushBytes (sha256 c buf) vm))"

definition opcodeHash160 :: "'x crypto_scheme \<Rightarrow> handler" where
  "opcodeHash160 c op vm = bindE (popBytes vm) (\<lambda>(buf, vm). Inr (pushBytes (ripemd160 c (sha256 c buf)) vm))"

definition opcodeHash256 :: "'x crypto_scheme \<Rightarrow> handler" where
  "opcodeHash256 c op vm = bindE (popBytes vm) (\<lambda>(buf, vm). Inr (pushBytes (DoubleHashB c buf) vm))"

definition opcodeCodeSeparator :: handler where
  "opcodeCodeSeparator op vm = Inr (vm\<lparr>lastCodeSep := scriptOff vm\<rparr>)"

end
