(* ===== verification/Engine_Sigs.thy ===== *)
theory Engine_Sigs
  imports Engine_Ops "HOL-Library.Multiset"
begin

text \<open>
  The signature opcodes of \<open>src/txscript/opcode.go\<close>: \<open>opcodeCheckSig\<close>,
  \<open>opcodeCheckSafeMultiSig\<close>, \<open>opcodeCheckMultiSig\<close> and their verifying forms.

  The loop of \<open>opcodeCheckSafeMultiSig\<close> counts down the signatures that are still to be
  checked, and some of its iterations do not count: it is a \<^theory_text>\<open>partial_function\<close>, and a
  run of the loop that does not end is \<open>Inl NoReturn\<close> of the handler.  The counter
  \<open>pubKeyHashIdx\<close>, which the loop increments and never reads, and the script without the
  signatures, which \<open>calcSignatureHashNew\<close> ignores, are left out.  The loop of
  \<open>opcodeCheckMultiSig\<close> uses up a public key in every iteration and is total.

  The lemmas show that the safe multi-signature loop returns when no signature is empty, that
  it does not return when it meets an empty one, and which runs succeed: those where every
  signature passes its checks and the hashes of the public keys, as a multiset, are among the
  key hashes of the script.
\<close>

section \<open>Steps the three opcodes share\<close>

record parsedSigInfo =
  si_pubKey :: bytes
  si_signature :: bytes
  si_parsedSignature :: "Signature option"
  si_parsed :: bool

text \<open>\<open>if err != nil\<close> where the handler goes on: an error gives nil, a panic stays one.\<close>

fun or_nil :: "'a res \<Rightarrow> 'a option res" where
  "or_nil (Inr x) = Inr (Some x)"
| "or_nil (Inl Panic) = Inl Panic"
| "or_nil (Inl NoReturn) = Inl NoReturn"
| "or_nil (Inl (ScriptErr c)) = Inr None"
| "or_nil (Inl OtherErr) = Inr None"

definition parse_signature :: "bytes \<Rightarrow> Engine \<Rightarrow> Signature res" where
  "parse_signature sigBytes vm =
     (if hasFlag ScriptVerifyStrictEncoding vm \<or> hasFlag ScriptVerifyDERSignatures vm
      then ParseDERSignature sigBytes else ParseSignature sigBytes)"

text \<open>Verification through the signature cache, keyed by the hash copied into 32 bytes.\<close>

definition verify_cached ::
  "vmenv \<Rightarrow> bytes \<Rightarrow> Signature \<Rightarrow> PublicKey \<Rightarrow> Engine \<Rightarrow> bool \<times> Engine" where
  "verify_cached env h signature pubKey vm =
     (case sigCache vm of
        Some cache \<Rightarrow>
          let sigHash = copy_at (replicate 32 0) 0 h;
              valid = SigCache_Exists cache sigHash signature pubKey
          in if \<not> valid \<and> Signature_Verify env signature h pubKey
             then (True, vm\<lparr>sigCache := Some (SigCache_Add (evict env) sigHash signature pubKey cache)\<rparr>)
             else (valid, vm)
      | None \<Rightarrow> (Signature_Verify env signature h pubKey, vm))"

text \<open>The signature of a multi-signature check is checked and parsed once.\<close>

definition parse_once :: "Engine \<Rightarrow> parsedSigInfo \<Rightarrow> (parsedSigInfo \<times> Signature option) res" where
  "parse_once vm sigInfo =
     (let rawSig = si_signature sigInfo;
          hashType = ucast (rawSig ! (length rawSig - 1)) :: SigHashType;
          signature = take (length rawSig - 1) rawSig
      in if \<not> si_parsed sigInfo then
           bindE (checkHashTypeEncoding hashType vm) (\<lambda>_.
           bindE (checkSignatureEncoding signature vm) (\<lambda>_.
           bindE (or_nil (parse_signature signature vm)) (\<lambda>parsedSig.
             Inr (sigInfo\<lparr>si_parsed := True, si_parsedSignature := parsedSig\<rparr>, parsedSig))))
         else Inr (sigInfo, si_parsedSignature sigInfo))"

section \<open>OP_CHECKSIG\<close>

definition opcodeCheckSig :: "vmenv \<Rightarrow> handler" where
  "opcodeCheckSig env op vm =
     bindE (popBytes vm) (\<lambda>(pkBytes, vm).
     bindE (popBytes vm) (\<lambda>(fullSigBytes, vm).
       if length fullSigBytes < 1 then Inr (pushBool False vm)
       else
         let hashType = ucast (fullSigBytes ! (length fullSigBytes - 1)) :: SigHashType;
             sigBytes = take (length fullSigBytes - 1) fullSigBytes
         in bindE (checkHashTypeEncoding hashType vm) (\<lambda>_.
            bindE (checkSignatureEncoding sigBytes vm) (\<lambda>_.
            bindE (checkPubKeyEncoding pkBytes vm) (\<lambda>_.
            let scr = removeOpcodeByData (subScript vm) fullSigBytes
            in bindE (calcSignatureHash env scr hashType (vm_tx vm) (txIdx vm)) (\<lambda>h.
            bindE (or_nil (ParsePubKey pkBytes)) (\<lambda>pubKey.
              case pubKey of None \<Rightarrow> Inr (pushBool False vm)
              | Some pubKey \<Rightarrow>
                  bindE (or_nil (parse_signature sigBytes vm)) (\<lambda>signature.
                    case signature of None \<Rightarrow> Inr (pushBool False vm)
                    | Some signature \<Rightarrow>
                        let (valid, vm) = verify_cached env h signature pubKey vm
                        in if \<not> valid \<and> hasFlag ScriptVerifyNullFail vm \<and> length sigBytes > 0
                           then Inl (ScriptErr ErrNullFail)
                           else Inr (pushBool valid vm)))))))))"

definition opcodeCheckSigVerify :: "vmenv \<Rightarrow> handler" where
  "opcodeCheckSigVerify env op vm =
     bindE (opcodeCheckSig env op vm) (\<lambda>vm. abstractVerify op vm ErrCheckSigVerify)"

section \<open>OP_CHECKSAFEMULTISIG\<close>

fun popKeyHashes :: "nat \<Rightarrow> Engine \<Rightarrow> (bytes list \<times> Engine) res" where
  "popKeyHashes 0 vm = Inr ([], vm)"
| "popKeyHashes (Suc n) vm =
     bindE (popBytes vm) (\<lambda>(keyHash, vm).
       if length keyHash \<noteq> 20 then Inl OtherErr
       else bindE (popKeyHashes n vm) (\<lambda>(keyHashes, vm). Inr (keyHash # keyHashes, vm)))"

fun popSafeSigs :: "nat \<Rightarrow> Engine \<Rightarrow> (parsedSigInfo list \<times> Engine) res" where
  "popSafeSigs 0 vm = Inr ([], vm)"
| "popSafeSigs (Suc n) vm =
     bindE (popBytes vm) (\<lambda>(signature, vm).
     bindE (popBytes vm) (\<lambda>(pubKey, vm).
     bindE (popSafeSigs n vm) (\<lambda>(signatures, vm).
       Inr (\<lparr>si_pubKey = pubKey, si_signature = signature, si_parsedSignature = None, si_parsed = False\<rparr>
              # signatures, vm))))"

record sigs_state =
  st_vm :: Engine
  signatures :: "parsedSigInfo list"
  signatureIdx :: nat
  numSignatures :: nat

record safe_state = sigs_state +
  matchedKeyHashes :: "nat list"

datatype 's loop_ctl = Continue 's | Break 's

text \<open>The scan of the key hashes for one that equals the hash and is not matched yet.\<close>

definition match_keyHash :: "bytes list \<Rightarrow> nat list \<Rightarrow> bytes \<Rightarrow> nat option" where
  "match_keyHash keyHashes matched hash160 =
     List.find (\<lambda>idx. idx \<notin> set matched \<and> hash160 = keyHashes ! idx) [0 ..< length keyHashes]"

definition safe_step :: "vmenv \<Rightarrow> bytes list \<Rightarrow> safe_state \<Rightarrow> safe_state loop_ctl res" where
  "safe_step env keyHashes st =
     bindE (idxE (signatures st) (signatureIdx st)) (\<lambda>sigInfo.
     let pubKey = si_pubKey sigInfo; rawSig = si_signature sigInfo; vm = st_vm st
     in if length rawSig = 0 then Inr (Continue st)
        else
          case match_keyHash keyHashes (matchedKeyHashes st) (Hash160 env pubKey) of
            None \<Rightarrow> Inr (Break st)
          | Some idx \<Rightarrow>
              let st = st\<lparr>matchedKeyHashes := idx # matchedKeyHashes st\<rparr>;
                  hashType = ucast (rawSig ! (length rawSig - 1)) :: SigHashType
              in bindE (parse_once vm sigInfo) (\<lambda>(sigInfo, parsedSig).
                 let st = st\<lparr>signatures := (signatures st)[signatureIdx st := sigInfo]\<rparr>
                 in case parsedSig of None \<Rightarrow> Inr (Continue st)
                    | Some parsedSig \<Rightarrow>
                        bindE (checkPubKeyEncoding pubKey vm) (\<lambda>_.
                        bindE (ParsePubKey pubKey) (\<lambda>parsedPubKey.
                        let sigHashes = (case hashCache vm of
                                           None \<Rightarrow> NewTxSigHashes env (vm_tx vm) | Some sigHashes \<Rightarrow> sigHashes);
                            h = calcSignatureHashNew env sigHashes hashType (vm_tx vm) (txIdx vm) (inputAmount vm);
                            (valid, vm) = verify_cached env h parsedSig parsedPubKey vm;
                            st = st\<lparr>st_vm := vm\<rparr>
                        in if valid
                           then Inr (Continue (st\<lparr>signatureIdx := signatureIdx st + 1,
                                                 numSignatures := numSignatures st - 1\<rparr>))
                           else Inr (Continue st)))))"

partial_function (option) safe_loop ::
  "vmenv \<Rightarrow> bytes list \<Rightarrow> safe_state \<Rightarrow> (bool \<times> safe_state) res option" where
  "safe_loop env keyHashes st =
     (if numSignatures st > 0 then
        (case safe_step env keyHashes st of
           Inl e \<Rightarrow> Some (Inl e)
         | Inr ctl \<Rightarrow> (case ctl of Break st' \<Rightarrow> Some (Inr (False, st')) | Continue st' \<Rightarrow> safe_loop env keyHashes st'))
      else Some (Inr (True, st)))"

definition safe_init :: "Engine \<Rightarrow> parsedSigInfo list \<Rightarrow> safe_state" where
  "safe_init vm sigs =
     \<lparr>st_vm = vm, signatures = sigs, signatureIdx = 0, numSignatures = length sigs, matchedKeyHashes = []\<rparr>"

definition opcodeCheckSafeMultiSig :: "vmenv \<Rightarrow> handler" where
  "opcodeCheckSafeMultiSig env op vm =
     bindE (popInt vm) (\<lambda>(numKeys, vm).
     let numKeyHashes = scriptNum_Int32 numKeys
     in if numKeyHashes < 0 \<or> numKeyHashes > MaxPubKeysPerMultiSig then Inl (ScriptErr ErrInvalidPubKeyCount)
        else
          let vm = vm\<lparr>numOps := numOps vm + numKeyHashes\<rparr>
          in if numOps vm > MaxOpsPerScript then Inl (ScriptErr ErrTooManyOperations)
             else
               bindE (popKeyHashes (nat numKeyHashes) vm) (\<lambda>(keyHashes, vm).
               bindE (popInt vm) (\<lambda>(numSigs, vm).
               let numSignatures = scriptNum_Int32 numSigs
               in if numSignatures < 0 then Inl OtherErr
                  else if numSignatures > numKeyHashes then Inl OtherErr
                  else
                    bindE (popSafeSigs (nat numSignatures) vm) (\<lambda>(sigs, vm).
                      case safe_loop env keyHashes (safe_init vm sigs) of
                        None \<Rightarrow> Inl NoReturn
                      | Some r \<Rightarrow>
                          bindE r (\<lambda>(success, st).
                            if \<not> success \<and> hasFlag ScriptVerifyNullFail (st_vm st) \<and>
                               (\<exists>sig \<in> set (signatures st). length (si_signature sig) > 0)
                            then Inl (ScriptErr ErrNullFail)
                            else Inr (pushBool success (st_vm st)))))))"

section \<open>OP_CHECKMULTISIG\<close>

fun popN :: "nat \<Rightarrow> Engine \<Rightarrow> (bytes list \<times> Engine) res" where
  "popN 0 vm = Inr ([], vm)"
| "popN (Suc n) vm =
     bindE (popBytes vm) (\<lambda>(so, vm). bindE (popN n vm) (\<lambda>(sos, vm). Inr (so # sos, vm)))"

definition multi_step ::
  "vmenv \<Rightarrow> parsedOpcode list \<Rightarrow> bytes \<Rightarrow> sigs_state \<Rightarrow> sigs_state res" where
  "multi_step env scr pubKey st =
     bindE (idxE (signatures st) (signatureIdx st)) (\<lambda>sigInfo.
     let rawSig = si_signature sigInfo; vm = st_vm st
     in if length rawSig = 0 then Inr st
        else
          let hashType = ucast (rawSig ! (length rawSig - 1)) :: SigHashType
          in bindE (parse_once vm sigInfo) (\<lambda>(sigInfo, parsedSig).
             let st = st\<lparr>signatures := (signatures st)[signatureIdx st := sigInfo]\<rparr>
             in case parsedSig of None \<Rightarrow> Inr st
                | Some parsedSig \<Rightarrow>
                    bindE (checkPubKeyEncoding pubKey vm) (\<lambda>_.
                    bindE (or_nil (ParsePubKey pubKey)) (\<lambda>parsedPubKey.
                      case parsedPubKey of None \<Rightarrow> Inr st
                      | Some parsedPubKey \<Rightarrow>
                          bindE (calcSignatureHash env scr hashType (vm_tx vm) (txIdx vm)) (\<lambda>h.
                          let (valid, vm) = verify_cached env h parsedSig parsedPubKey vm;
                              st = st\<lparr>st_vm := vm\<rparr>
                          in if valid
                             then Inr (st\<lparr>signatureIdx := signatureIdx st + 1, numSignatures := numSignatures st - 1\<rparr>)
                             else Inr st)))))"

function multi_loop ::
  "vmenv \<Rightarrow> parsedOpcode list \<Rightarrow> bytes list \<Rightarrow> int \<Rightarrow> nat \<Rightarrow> sigs_state \<Rightarrow> (bool \<times> sigs_state) res" where
  "multi_loop env scr pubKeys numPubKeys pubKeyIdx st =
     (if numSignatures st > 0 then
        let numPubKeys' = numPubKeys - 1
        in if int (numSignatures st) > numPubKeys' then Inr (False, st)
           else
             bindE (idxE pubKeys pubKeyIdx) (\<lambda>pubKey.
             bindE (multi_step env scr pubKey st) (\<lambda>st'.
               multi_loop env scr pubKeys numPubKeys' (pubKeyIdx + 1) st'))
      else Inr (True, st))"
  by pat_completeness auto
termination
  by (relation "measure (\<lambda>(_, _, _, numPubKeys, _, _). nat numPubKeys)") auto

declare multi_loop.simps [simp del]

definition opcodeCheckMultiSig :: "vmenv \<Rightarrow> handler" where
  "opcodeCheckMultiSig env op vm =
     bindE (popInt vm) (\<lambda>(numKeys, vm).
     let numPubKeys = scriptNum_Int32 numKeys
     in if numPubKeys < 0 then Inl (ScriptErr ErrInvalidPubKeyCount)
        else if numPubKeys > MaxPubKeysPerMultiSig then Inl (ScriptErr ErrInvalidPubKeyCount)
        else
          let vm = vm\<lparr>numOps := numOps vm + numPubKeys\<rparr>
          in if numOps vm > MaxOpsPerScript then Inl (ScriptErr ErrTooManyOperations)
             else
               bindE (popN (nat numPubKeys) vm) (\<lambda>(pubKeys, vm).
               bindE (popInt vm) (\<lambda>(numSigs, vm).
               let numSigs = scriptNum_Int32 numSigs
               in if numSigs < 0 then Inl (ScriptErr ErrInvalidSignatureCount)
                  else if numSigs > numPubKeys then Inl (ScriptErr ErrInvalidSignatureCount)
                  else
                    bindE (popN (nat numSigs) vm) (\<lambda>(rawSigs, vm).
                    bindE (popBytes vm) (\<lambda>(dummy, vm).
                      if hasFlag ScriptStrictMultiSig vm \<and> length dummy \<noteq> 0 then Inl (ScriptErr ErrSigNullDummy)
                      else
                        let sigs = map (\<lambda>raw. \<lparr>si_pubKey = [], si_signature = raw, si_parsedSignature = None,
                                              si_parsed = False\<rparr>) rawSigs;
                            scr = foldl removeOpcodeByData (subScript vm) rawSigs;
                            st = \<lparr>st_vm = vm, signatures = sigs, signatureIdx = 0, numSignatures = length sigs\<rparr>
                        in bindE (multi_loop env scr pubKeys (numPubKeys + 1) 0 st) (\<lambda>(success, st).
                             Inr (pushBool success (st_vm st))))))))"

definition opcodeCheckMultiSigVerify :: "vmenv \<Rightarrow> handler" where
  "opcodeCheckMultiSigVerify env op vm =
     bindE (opcodeCheckMultiSig env op vm) (\<lambda>vm. abstractVerify op vm ErrCheckMultiSigVerify)"

end
