(* ===== verification/Safe_Multisig.thy ===== *)
theory Safe_Multisig
  imports Engine_Sigs
begin

text \<open>
  Correctness of \<open>OP_CHECKSAFEMULTISIG\<close>: which runs of its loop return, which succeed, and
  that the signature cache never changes a verdict.  The specification speaks of the pairs
  (public key, signature) as they were pushed and of the multiset of key hashes.
\<close>

section \<open>Specification\<close>

text \<open>The hash that a signature of the given hash type signs.\<close>

definition safe_hash :: "vmenv \<Rightarrow> Engine \<Rightarrow> SigHashType \<Rightarrow> bytes" where
  "safe_hash env vm hashType =
     calcSignatureHashNew env
       (case hashCache vm of None \<Rightarrow> NewTxSigHashes env (vm_tx vm) | Some sigHashes \<Rightarrow> sigHashes)
       hashType (vm_tx vm) (txIdx vm) (inputAmount vm)"

text \<open>A pair passes: its encodings are allowed, it parses, and the signature verifies.\<close>

definition sig_passes :: "vmenv \<Rightarrow> Engine \<Rightarrow> bytes \<times> bytes \<Rightarrow> bool" where
  "sig_passes env vm = (\<lambda>(pubKey, raw).
     raw \<noteq> [] \<and>
     checkHashTypeEncoding (ucast (last raw)) vm = Inr () \<and>
     checkSignatureEncoding (butlast raw) vm = Inr () \<and>
     checkPubKeyEncoding pubKey vm = Inr () \<and>
     (\<exists>sig pk. parse_signature (butlast raw) vm = Inr sig \<and> ParsePubKey pubKey = Inr pk \<and>
        Signature_Verify env sig (safe_hash env vm (ucast (last raw))) pk))"

text \<open>The outcome of the loop on the remaining pairs, given the key hashes not matched yet.\<close>

fun safe_accepts :: "vmenv \<Rightarrow> Engine \<Rightarrow> bytes multiset \<Rightarrow> (bytes \<times> bytes) list \<Rightarrow> bool" where
  "safe_accepts env vm M [] = True"
| "safe_accepts env vm M (p # ps) \<longleftrightarrow>
     sig_passes env vm p \<and> Hash160 env (fst p) \<in># M \<and>
     safe_accepts env vm (M - {#Hash160 env (fst p)#}) ps"

fun safe_diverges :: "vmenv \<Rightarrow> Engine \<Rightarrow> bytes multiset \<Rightarrow> (bytes \<times> bytes) list \<Rightarrow> bool" where
  "safe_diverges env vm M [] = False"
| "safe_diverges env vm M (p # ps) \<longleftrightarrow>
     snd p = [] \<or>
     sig_passes env vm p \<and> Hash160 env (fst p) \<in># M \<and>
     safe_diverges env vm (M - {#Hash160 env (fst p)#}) ps"

abbreviation key_hashes :: "vmenv \<Rightarrow> (bytes \<times> bytes) list \<Rightarrow> bytes multiset" where
  "key_hashes env ps \<equiv> image_mset (\<lambda>p. Hash160 env (fst p)) (mset ps)"

lemma add_mset_subseteq: "add_mset x A \<subseteq># M \<longleftrightarrow> x \<in># M \<and> A \<subseteq># M - {#x#}"
  by (metis insert_subset_eq_iff)

lemma safe_accepts_iff:
  "safe_accepts env vm M ps \<longleftrightarrow> (\<forall>p \<in> set ps. sig_passes env vm p) \<and> key_hashes env ps \<subseteq># M"
  by (induction ps arbitrary: M) (auto simp: add_mset_subseteq)

lemma safe_diverges_iff:
  "safe_diverges env vm M ps \<longleftrightarrow>
     (\<exists>ps1 pk ps2. ps = ps1 @ (pk, []) # ps2 \<and> (\<forall>p \<in> set ps1. sig_passes env vm p) \<and>
        key_hashes env ps1 \<subseteq># M)"
proof (induction ps arbitrary: M)
  case (Cons p ps)
  have "(\<exists>ps1 pk ps2. p # ps = ps1 @ (pk, []) # ps2 \<and> (\<forall>p \<in> set ps1. sig_passes env vm p) \<and>
          key_hashes env ps1 \<subseteq># M) \<longleftrightarrow>
        snd p = [] \<or> (\<exists>ps1 pk ps2. ps = ps1 @ (pk, []) # ps2 \<and>
          (\<forall>q \<in> set (p # ps1). sig_passes env vm q) \<and> key_hashes env (p # ps1) \<subseteq># M)"
    (is "?L \<longleftrightarrow> ?R")
  proof
    assume ?L
    then obtain ps1 pk ps2 where 1: "p # ps = ps1 @ (pk, []) # ps2"
      "\<forall>p \<in> set ps1. sig_passes env vm p" "key_hashes env ps1 \<subseteq># M" by blast
    then show ?R by (cases ps1) auto
  next
    assume ?R
    then show ?L
    proof
      assume "snd p = []"
      then show ?L by (intro exI [of _ "[]"] exI [of _ "fst p"] exI [of _ ps]) (cases p, simp)
    next
      assume "\<exists>ps1 pk ps2. ps = ps1 @ (pk, []) # ps2 \<and>
          (\<forall>q \<in> set (p # ps1). sig_passes env vm q) \<and> key_hashes env (p # ps1) \<subseteq># M"
      then obtain ps1 pk ps2 where "ps = ps1 @ (pk, []) # ps2"
        "\<forall>q \<in> set (p # ps1). sig_passes env vm q" "key_hashes env (p # ps1) \<subseteq># M" by blast
      then show ?L by (intro exI [of _ "p # ps1"] exI [of _ pk] exI [of _ ps2]) auto
    qed
  qed
  then show ?case by (simp only: safe_diverges.simps Cons.IH) (simp add: add_mset_subseteq, blast)
qed simp

section \<open>The cache and the engine state\<close>

definition vm_cache_ok :: "vmenv \<Rightarrow> Engine \<Rightarrow> bool" where
  "vm_cache_ok env vm \<longleftrightarrow> (\<forall>cache. sigCache vm = Some cache \<longrightarrow> cache_valid env cache)"

lemma verify_cached_eq:
  assumes "vm_cache_ok env vm" and "length h = 32" and "verify_cached env h sig pk vm = (valid, vm')"
  shows "valid = Signature_Verify env sig h pk" and "\<exists>sc. vm' = vm\<lparr>sigCache := sc\<rparr>" and "vm_cache_ok env vm'"
proof -
  have h: "copy_at (replicate 32 0) 0 h = h" using assms(2) by (simp add: copy_at_def)
  have id: "\<exists>sc. vm = vm\<lparr>sigCache := sc\<rparr>" by (rule exI [of _ "sigCache vm"]) simp
  note defs = verify_cached_def vm_cache_ok_def Let_def h Signature_Verify_def
  show "valid = Signature_Verify env sig h pk"
    using assms by (auto simp: defs split: option.splits if_splits dest: cache_valid_Exists)
  show "\<exists>sc. vm' = vm\<lparr>sigCache := sc\<rparr>"
    using assms(3) id by (auto simp: verify_cached_def Let_def split: option.splits if_splits)
  show "vm_cache_ok env vm'"
    using assms by (auto simp: defs split: option.splits if_splits intro!: cache_valid_Add)
qed

text \<open>The checks read the flags, the transaction and the amount of the engine and nothing else.\<close>

definition same_context :: "Engine \<Rightarrow> Engine \<Rightarrow> bool" where
  "same_context vm vm' \<longleftrightarrow> vm_flags vm = vm_flags vm' \<and> vm_tx vm = vm_tx vm' \<and> txIdx vm = txIdx vm' \<and>
     inputAmount vm = inputAmount vm' \<and> hashCache vm = hashCache vm'"

lemma same_context_checks:
  assumes "same_context vm vm'"
  shows "hasFlag f vm = hasFlag f vm'" and "checkHashTypeEncoding ht vm = checkHashTypeEncoding ht vm'"
    and "checkSignatureEncoding sg vm = checkSignatureEncoding sg vm'"
    and "checkPubKeyEncoding pk vm = checkPubKeyEncoding pk vm'"
    and "parse_signature sg vm = parse_signature sg vm'" and "safe_hash env vm = safe_hash env vm'"
proof -
  have flag: "hasFlag f vm = hasFlag f vm'" for f using assms by (simp add: hasFlag_def same_context_def)
  then show "hasFlag f vm = hasFlag f vm'" .
  note defs = checkHashTypeEncoding_def checkSignatureEncoding_def checkPubKeyEncoding_def parse_signature_def
  show "checkHashTypeEncoding ht vm = checkHashTypeEncoding ht vm'"
    "checkSignatureEncoding sg vm = checkSignatureEncoding sg vm'"
    "checkPubKeyEncoding pk vm = checkPubKeyEncoding pk vm'"
    "parse_signature sg vm = parse_signature sg vm'"
    by (simp_all only: defs flag)
  show "safe_hash env vm = safe_hash env vm'"
    using assms by (intro ext) (simp add: safe_hash_def same_context_def split: option.split)
qed

lemma sig_passes_cong: "same_context vm vm' \<Longrightarrow> sig_passes env vm = sig_passes env vm'"
  by (rule ext) (simp add: sig_passes_def same_context_checks)

lemma same_context_sigCache [simp]: "same_context (vm\<lparr>sigCache := sc\<rparr>) vm"
  by (simp add: same_context_def)

lemma sigCache_frame [simp]:
  "sig_passes env (vm\<lparr>sigCache := sc\<rparr>) = sig_passes env vm"
  "safe_hash env (vm\<lparr>sigCache := sc\<rparr>) = safe_hash env vm"
  "safe_accepts env (vm\<lparr>sigCache := sc\<rparr>) M ps = safe_accepts env vm M ps"
  "safe_diverges env (vm\<lparr>sigCache := sc\<rparr>) M ps = safe_diverges env vm M ps"
  by (simp_all add: same_context_checks [OF same_context_sigCache] safe_accepts_iff safe_diverges_iff
      sig_passes_cong [OF same_context_sigCache])

section \<open>The loop\<close>

text \<open>The key hashes that are not matched yet.\<close>

definition unmatched :: "bytes list \<Rightarrow> nat list \<Rightarrow> nat list" where
  "unmatched keyHashes matched = filter (\<lambda>i. i \<notin> set matched) [0 ..< length keyHashes]"

abbreviation free_hashes :: "bytes list \<Rightarrow> nat list \<Rightarrow> bytes multiset" where
  "free_hashes keyHashes matched \<equiv> mset (map ((!) keyHashes) (unmatched keyHashes matched))"

lemma match_None: "match_keyHash kh m h = None \<Longrightarrow> h \<notin># free_hashes kh m"
  by (auto simp: match_keyHash_def find_None_iff unmatched_def)

lemma mset_remove1_filter:
  "distinct xs \<Longrightarrow> i \<in> set xs \<Longrightarrow> P i \<Longrightarrow>
   mset (filter P xs) = add_mset i (mset (filter (\<lambda>j. P j \<and> j \<noteq> i) xs))"
proof (induction xs)
  case (Cons x xs)
  show ?case
  proof (cases "x = i")
    case True
    with Cons.prems have "filter P xs = filter (\<lambda>j. P j \<and> j \<noteq> i) xs"
      by (intro filter_cong) auto
    with True Cons.prems show ?thesis by simp
  qed (use Cons in auto)
qed simp

lemma match_Some:
  assumes "match_keyHash kh m h = Some i"
  shows "h \<in># free_hashes kh m" and "free_hashes kh (i # m) = free_hashes kh m - {#h#}"
    and "length (unmatched kh m) = Suc (length (unmatched kh (i # m)))"
proof -
  have i: "i < length kh" "i \<notin> set m" "h = kh ! i"
    using assms by (auto simp: match_keyHash_def find_Some_iff)
  have "mset (unmatched kh m) = add_mset i (mset (unmatched kh (i # m)))"
    unfolding unmatched_def
    by (subst mset_remove1_filter [of _ i]) (use i in \<open>auto intro!: arg_cong [of _ _ mset] filter_cong\<close>)
  then have 1: "free_hashes kh m = add_mset h (free_hashes kh (i # m))"
    and 2: "size (mset (unmatched kh m)) = Suc (size (mset (unmatched kh (i # m))))"
    using i by simp_all
  from 1 show "h \<in># free_hashes kh m" "free_hashes kh (i # m) = free_hashes kh m - {#h#}" by simp_all
  from 2 show "length (unmatched kh m) = Suc (length (unmatched kh (i # m)))" by simp
qed

text \<open>What a parsed entry records agrees with what parsing it again would give.\<close>

definition parse_consistent :: "Engine \<Rightarrow> parsedSigInfo \<Rightarrow> bool" where
  "parse_consistent vm si \<longleftrightarrow>
     (si_parsed si \<longrightarrow>
        checkHashTypeEncoding (ucast (last (si_signature si))) vm = Inr () \<and>
        checkSignatureEncoding (butlast (si_signature si)) vm = Inr () \<and>
        or_nil (parse_signature (butlast (si_signature si)) vm) = Inr (si_parsedSignature si))"

lemma parse_once_eq:
  assumes "parse_consistent vm si" and "si_signature si \<noteq> []"
  shows "parse_once vm si =
     bindE (checkHashTypeEncoding (ucast (last (si_signature si))) vm) (\<lambda>_.
     bindE (checkSignatureEncoding (butlast (si_signature si)) vm) (\<lambda>_.
     bindE (or_nil (parse_signature (butlast (si_signature si)) vm)) (\<lambda>p.
       Inr (si\<lparr>si_parsed := True, si_parsedSignature := p\<rparr>, p))))"
  using assms
  by (cases si) (auto simp: parse_once_def parse_consistent_def Let_def last_conv_nth butlast_conv_take)

definition sig_pair :: "parsedSigInfo \<Rightarrow> bytes \<times> bytes" where
  "sig_pair si = (si_pubKey si, si_signature si)"

text \<open>The invariant of the loop, and the pairs that are still to be checked.\<close>

definition safe_inv :: "vmenv \<Rightarrow> safe_state \<Rightarrow> bool" where
  "safe_inv env st \<longleftrightarrow>
     signatureIdx st + numSignatures st = length (signatures st) \<and>
     vm_cache_ok env (st_vm st) \<and> (\<forall>ht. length (safe_hash env (st_vm st) ht) = 32) \<and>
     (\<forall>si \<in> set (signatures st). parse_consistent (st_vm st) si)"

abbreviation remaining :: "safe_state \<Rightarrow> (bytes \<times> bytes) list" where
  "remaining st \<equiv> drop (signatureIdx st) (map sig_pair (signatures st))"

text \<open>An iteration leaves the pairs and, except for the cache, the engine.\<close>

definition safe_frame :: "safe_state \<Rightarrow> safe_state \<Rightarrow> bool" where
  "safe_frame st st' \<longleftrightarrow>
     (\<exists>sc. st_vm st' = (st_vm st)\<lparr>sigCache := sc\<rparr>) \<and>
     map sig_pair (signatures st') = map sig_pair (signatures st)"

lemma safe_frame_refl: "safe_frame st st"
  by (auto simp: safe_frame_def intro: exI [of _ "sigCache (st_vm st)"])

lemma safe_frame_trans: "safe_frame st st' \<Longrightarrow> safe_frame st' st'' \<Longrightarrow> safe_frame st st''"
  by (auto simp: safe_frame_def)

lemma parse_consistent_sigCache [simp]: "parse_consistent (vm\<lparr>sigCache := sc\<rparr>) = parse_consistent vm"
  by (rule ext) (simp add: parse_consistent_def same_context_checks [OF same_context_sigCache])

lemma check_returns [simp]:
  "checkHashTypeEncoding ht vm \<noteq> Inl NoReturn" "checkPubKeyEncoding pk vm \<noteq> Inl NoReturn"
  by (simp_all add: checkHashTypeEncoding_def checkPubKeyEncoding_def Let_def)

lemma checkSignatureEncoding_returns [simp]: "checkSignatureEncoding sg vm \<noteq> Inl NoReturn"
  by (simp add: checkSignatureEncoding_def Let_def bindE_eq_Inl idxE_def)

lemma ParsePubKey_returns [simp]: "ParsePubKey b \<noteq> Inl NoReturn"
  by (auto simp: ParsePubKey_def Let_def bindE_eq_Inl decompressPoint_def split: if_splits)

lemma parseSig_returns: "parseSig b der \<noteq> Inl NoReturn"
  by (auto simp: parseSig_def Let_def bindE_eq_Inl idxE_def canonicalPadding_def split: if_splits)

lemma or_nil_NoReturn [simp]: "or_nil r = Inl NoReturn \<longleftrightarrow> r = Inl NoReturn"
  by (cases r rule: or_nil.cases) auto

lemma parse_signature_returns [simp]: "parse_signature sg vm \<noteq> Inl NoReturn"
  by (simp add: parse_signature_def ParseDERSignature_def ParseSignature_def parseSig_returns)

lemma safe_step_empty:
  assumes "signatureIdx st < length (signatures st)" and "si_signature (signatures st ! signatureIdx st) = []"
  shows "safe_step env kh st = Inr (Continue st)"
  using assms by (simp add: safe_step_def)

lemma safe_loop_diverges:
  assumes "0 < numSignatures st" and "safe_step env kh st = Inr (Continue st)"
  shows "safe_loop env kh st = None"
proof (rule ccontr)
  assume "safe_loop env kh st \<noteq> None"
  then obtain r where ret: "safe_loop env kh st = Some r" by blast
  have "\<not> (0 < numSignatures st \<and> safe_step env kh st = Inr (Continue st))"
    by (rule safe_loop.raw_induct
          [where P = "\<lambda>env kh st r. \<not> (0 < numSignatures st \<and> safe_step env kh st = Inr (Continue st))", OF _ ret])
      (fastforce split: if_splits sum.splits loop_ctl.splits)
  with assms show False by blast
qed

lemma or_nil_eq_Some [simp]: "or_nil r = Inr (Some x) \<longleftrightarrow> r = Inr x"
  by (cases r rule: or_nil.cases) auto

text \<open>What is left of \<open>sig_passes\<close> once the signature is parsed.\<close>

definition key_verifies :: "vmenv \<Rightarrow> Engine \<Rightarrow> parsedSigInfo \<Rightarrow> Signature \<Rightarrow> bool" where
  "key_verifies env vm si sig \<longleftrightarrow>
     checkPubKeyEncoding (si_pubKey si) vm = Inr () \<and>
     (\<exists>pk. ParsePubKey (si_pubKey si) = Inr pk \<and>
        Signature_Verify env sig (safe_hash env vm (ucast (last (si_signature si)))) pk)"

lemma parse_once_cases:
  assumes cons: "parse_consistent vm si" and ne: "si_signature si \<noteq> []"
  shows "(\<exists>e. parse_once vm si = Inl e \<and> e \<noteq> NoReturn \<and> \<not> sig_passes env vm (sig_pair si)) \<or>
    (\<exists>si' p. parse_once vm si = Inr (si', p) \<and> sig_pair si' = sig_pair si \<and> parse_consistent vm si' \<and>
       (sig_passes env vm (sig_pair si) \<longleftrightarrow> (\<exists>sig. p = Some sig \<and> key_verifies env vm si sig)))"
    (is "?E \<or> ?C")
proof -
  let ?h = "checkHashTypeEncoding (ucast (last (si_signature si))) vm"
  let ?s = "checkSignatureEncoding (butlast (si_signature si)) vm"
  let ?p = "or_nil (parse_signature (butlast (si_signature si)) vm)"
  note eq = parse_once_eq [OF cons ne]
  have pass: "sig_passes env vm (sig_pair si) \<longleftrightarrow>
      ?h = Inr () \<and> ?s = Inr () \<and> (\<exists>sig. ?p = Inr (Some sig) \<and> key_verifies env vm si sig)"
    using ne by (auto simp: sig_passes_def sig_pair_def key_verifies_def)
  show ?thesis
  proof (cases "\<exists>p. ?h = Inr () \<and> ?s = Inr () \<and> ?p = Inr p")
    case True
    then obtain p where p: "?h = Inr ()" "?s = Inr ()" "?p = Inr p" by blast
    have "parse_once vm si = Inr (si\<lparr>si_parsed := True, si_parsedSignature := p\<rparr>, p)" by (simp add: eq p)
    moreover have "parse_consistent vm (si\<lparr>si_parsed := True, si_parsedSignature := p\<rparr>)"
      using p by (simp add: parse_consistent_def)
    ultimately have ?C using pass p by (auto simp: sig_pair_def)
    then show ?thesis ..
  next
    case False
    then obtain e where e: "parse_once vm si = Inl e"
      unfolding eq by (cases ?h; cases ?s; cases ?p) auto
    moreover have "e \<noteq> NoReturn" using e unfolding eq by (auto simp: bindE_eq_Inl)
    moreover have "\<not> sig_passes env vm (sig_pair si)" using False pass by blast
    ultimately show ?thesis by blast
  qed
qed

text \<open>An iteration on a non-empty signature whose key hash is found, up to and after the parsing.\<close>

abbreviation step_post :: "vmenv \<Rightarrow> bytes list \<Rightarrow> safe_state \<Rightarrow> nat \<Rightarrow> bool \<Rightarrow> bool" where
  "step_post env kh st i pass \<equiv>
     (\<not> pass \<and> (\<exists>e. safe_step env kh st = Inl e \<and> e \<noteq> NoReturn)) \<or>
     (\<exists>st'. safe_step env kh st = Inr (Continue st') \<and> safe_frame st st' \<and> safe_inv env st' \<and>
        matchedKeyHashes st' = i # matchedKeyHashes st \<and>
        signatureIdx st' = signatureIdx st + (if pass then 1 else 0))"

lemma safe_step_verify:
  assumes inv: "safe_inv env st" and num: "0 < numSignatures st"
    and pairs: "map sig_pair sigs' = map sig_pair (signatures st)"
    and cons: "\<forall>x \<in> set sigs'. parse_consistent (st_vm st) x"
    and step: "safe_step env kh st =
      bindE (checkPubKeyEncoding (si_pubKey si) (st_vm st)) (\<lambda>_. bindE (ParsePubKey (si_pubKey si)) (\<lambda>pk.
        let st = st\<lparr>matchedKeyHashes := i # matchedKeyHashes st, signatures := sigs'\<rparr>;
            (valid, vm) = verify_cached env (safe_hash env (st_vm st) (ucast (last (si_signature si)))) sig pk (st_vm st);
            st = st\<lparr>st_vm := vm\<rparr>
        in if valid then Inr (Continue (st\<lparr>signatureIdx := signatureIdx st + 1, numSignatures := numSignatures st - 1\<rparr>))
           else Inr (Continue st)))"
  shows "step_post env kh st i (key_verifies env (st_vm st) si sig)"
proof (cases "\<exists>pk. checkPubKeyEncoding (si_pubKey si) (st_vm st) = Inr () \<and> ParsePubKey (si_pubKey si) = Inr pk")
  case False
  then have "\<exists>e. safe_step env kh st = Inl e"
    unfolding step
    by (cases "checkPubKeyEncoding (si_pubKey si) (st_vm st)"; cases "ParsePubKey (si_pubKey si)") auto
  moreover have "safe_step env kh st \<noteq> Inl NoReturn"
    unfolding step by (auto simp: bindE_eq_Inl Let_def split: prod.splits)
  ultimately show ?thesis using False by (auto simp: key_verifies_def)
next
  case True
  let ?h = "safe_hash env (st_vm st) (ucast (last (si_signature si)))"
  obtain pk where pk: "checkPubKeyEncoding (si_pubKey si) (st_vm st) = Inr ()" "ParsePubKey (si_pubKey si) = Inr pk"
    using True by blast
  obtain v vm' where v: "verify_cached env ?h sig pk (st_vm st) = (v, vm')" by fastforce
  have "vm_cache_ok env (st_vm st)" "length ?h = 32" using inv by (auto simp: safe_inv_def)
  note vc = verify_cached_eq [OF this v]
  then obtain sc where sc: "vm' = (st_vm st)\<lparr>sigCache := sc\<rparr>" by blast
  have "key_verifies env (st_vm st) si sig \<longleftrightarrow> v" using pk vc(1) by (auto simp: key_verifies_def)
  moreover define st' where "st' = (let s = st\<lparr>st_vm := vm', signatures := sigs', matchedKeyHashes := i # matchedKeyHashes st\<rparr>
    in if v then s\<lparr>signatureIdx := signatureIdx st + 1, numSignatures := numSignatures st - 1\<rparr> else s)"
  moreover have "safe_step env kh st = Inr (Continue st')"
    by (cases v) (simp_all add: step pk v st'_def Let_def)
  moreover have "safe_frame st st'" using pairs sc by (auto simp: safe_frame_def st'_def Let_def)
  moreover have "safe_inv env st'"
    using inv num vc(3) cons sc map_eq_imp_length_eq [OF pairs] by (auto simp: safe_inv_def st'_def Let_def)
  ultimately show ?thesis by (auto simp: Let_def)
qed

lemma safe_step_nonempty:
  assumes inv: "safe_inv env st" and num: "0 < numSignatures st"
    and si: "si = signatures st ! signatureIdx st" and ne: "si_signature si \<noteq> []"
    and m: "match_keyHash kh (matchedKeyHashes st) (Hash160 env (si_pubKey si)) = Some i"
  shows "step_post env kh st i (sig_passes env (st_vm st) (sig_pair si))"
proof -
  let ?vm = "st_vm st" and ?n = "signatureIdx st" and ?pass = "sig_passes env (st_vm st) (sig_pair si)"
  have lt: "?n < length (signatures st)" using inv num by (simp add: safe_inv_def)
  have "parse_consistent ?vm si" using inv lt by (simp add: safe_inv_def si)
  note po = parse_once_cases [OF this ne, of env]
  have "si_signature si ! (length (si_signature si) - Suc 0) = last (si_signature si)"
    by (simp add: last_conv_nth ne)
  note step = safe_step_def idxE_simps(1) [OF lt] si [symmetric] ne m Let_def this safe_hash_def [symmetric]
  show ?thesis
  proof (cases "parse_once ?vm si")
    case (Inl e)
    with po show ?thesis by (auto simp: step)
  next
    case (Inr r)
    then obtain si' p where r: "parse_once ?vm si = Inr (si', p)" by (cases r) auto
    with po have si': "sig_pair si' = sig_pair si" "parse_consistent ?vm si'"
      and pass: "?pass \<longleftrightarrow> (\<exists>sig. p = Some sig \<and> key_verifies env ?vm si sig)" by auto
    have pairs: "map sig_pair ((signatures st)[?n := si']) = map sig_pair (signatures st)"
      using lt by (simp add: map_update si' si list_update_same_conv)
    have cons: "\<forall>x \<in> set ((signatures st)[?n := si']). parse_consistent ?vm x"
      using inv si' set_update_subset_insert [of "signatures st" ?n si'] by (auto simp: safe_inv_def)
    show ?thesis
    proof (cases p)
      case None
      with r pass pairs cons inv show ?thesis
        by (auto simp: step safe_frame_def safe_inv_def intro: exI [of _ "sigCache ?vm"])
    next
      case (Some sig)
      then have "?pass = key_verifies env ?vm si sig" using pass by simp
      moreover have "step_post env kh st i (key_verifies env ?vm si sig)"
        by (rule safe_step_verify [OF inv num pairs cons]) (simp add: step r Some cong: if_cong prod.case_cong)
      ultimately show ?thesis by simp
    qed
  qed
qed

text \<open>What the loop yields from a state that satisfies the invariant.\<close>

definition safe_result :: "vmenv \<Rightarrow> bytes list \<Rightarrow> safe_state \<Rightarrow> (bool \<times> safe_state) res option \<Rightarrow> bool" where
  "safe_result env kh st res \<longleftrightarrow>
     (let vm = st_vm st; M = free_hashes kh (matchedKeyHashes st); ps = remaining st
      in (res = None \<longleftrightarrow> safe_diverges env vm M ps) \<and> res \<noteq> Some (Inl NoReturn) \<and>
         ((\<exists>st'. res = Some (Inr (True, st'))) \<longleftrightarrow> safe_accepts env vm M ps) \<and>
         (\<forall>b st'. res = Some (Inr (b, st')) \<longrightarrow> safe_frame st st' \<and> vm_cache_ok env (st_vm st')))"

lemma safe_result_step:
  assumes res: "safe_result env kh st' res" and fr: "safe_frame st st'" and lt: "signatureIdx st < length (signatures st)"
    and ne: "si_signature si \<noteq> []" and si: "si = signatures st ! signatureIdx st"
    and m: "match_keyHash kh (matchedKeyHashes st) (Hash160 env (si_pubKey si)) = Some i"
    and st': "matchedKeyHashes st' = i # matchedKeyHashes st"
      "signatureIdx st' = signatureIdx st + (if sig_passes env (st_vm st) (sig_pair si) then 1 else 0)"
  shows "safe_result env kh st res"
proof -
  obtain sc where sc: "st_vm st' = (st_vm st)\<lparr>sigCache := sc\<rparr>"
    and pairs: "map sig_pair (signatures st') = map sig_pair (signatures st)"
    using fr by (auto simp: safe_frame_def)
  let ?h = "Hash160 env (si_pubKey si)" and ?M = "free_hashes kh (matchedKeyHashes st)"
  let ?ps = "drop (Suc (signatureIdx st)) (map sig_pair (signatures st))"
  have rem: "remaining st = sig_pair si # ?ps" using lt by (simp add: si Cons_nth_drop_Suc [symmetric])
  have M: "?h \<in># ?M" "free_hashes kh (matchedKeyHashes st') = ?M - {#?h#}"
    using match_Some [OF m] st'(1) by auto
  have pr: "fst (sig_pair si) = si_pubKey si" "snd (sig_pair si) \<noteq> []" using ne by (auto simp: sig_pair_def)
  show ?thesis
  proof (cases "sig_passes env (st_vm st) (sig_pair si)")
    case True
    with st' pairs have "remaining st' = ?ps" by simp
    with True res fr M pr show ?thesis
      unfolding safe_result_def Let_def rem by (auto simp: sc intro: safe_frame_trans)
  next
    case False
    with st' pairs rem have "remaining st' = sig_pair si # ?ps" by simp
    with False res fr M pr show ?thesis
      unfolding safe_result_def Let_def rem by (auto simp: sc intro: safe_frame_trans)
  qed
qed

lemma safe_loop_result: "safe_inv env st \<Longrightarrow> safe_result env kh st (safe_loop env kh st)"
proof (induction "length (unmatched kh (matchedKeyHashes st))" arbitrary: st rule: less_induct)
  case less
  let ?si = "signatures st ! signatureIdx st"
  show ?case
  proof (cases "numSignatures st = 0")
    case True
    with less.prems show ?thesis
      by (subst safe_loop.simps) (auto simp: safe_result_def Let_def safe_inv_def safe_frame_refl)
  next
    case False
    then have num: "0 < numSignatures st" by simp
    with less.prems have lt: "signatureIdx st < length (signatures st)" by (simp add: safe_inv_def)
    then have rem: "remaining st = sig_pair ?si # drop (Suc (signatureIdx st)) (map sig_pair (signatures st))"
      by (simp add: Cons_nth_drop_Suc [symmetric])
    consider (empty) "si_signature ?si = []"
      | (none) "si_signature ?si \<noteq> []" "match_keyHash kh (matchedKeyHashes st) (Hash160 env (si_pubKey ?si)) = None"
      | (some) i where "si_signature ?si \<noteq> []"
          "match_keyHash kh (matchedKeyHashes st) (Hash160 env (si_pubKey ?si)) = Some i"
      by (metis not_Some_eq)
    then show ?thesis
    proof cases
      case empty
      have "safe_loop env kh st = None" using num safe_step_empty [OF lt empty] by (rule safe_loop_diverges)
      then show ?thesis using empty unfolding safe_result_def Let_def rem by (simp add: sig_pair_def sig_passes_def)
    next
      case none
      have "safe_loop env kh st = Some (Inr (False, st))"
        by (subst safe_loop.simps) (simp add: num safe_step_def lt none)
      with match_None [OF none(2)] none(1) less.prems show ?thesis
        unfolding safe_result_def Let_def rem by (auto simp: sig_pair_def safe_frame_refl safe_inv_def)
    next
      case some
      from safe_step_nonempty [OF less.prems num refl some] show ?thesis
      proof (elim disjE conjE exE)
        fix e assume "\<not> sig_passes env (st_vm st) (sig_pair ?si)" "safe_step env kh st = Inl e" "e \<noteq> NoReturn"
        with some show ?thesis
          unfolding safe_result_def Let_def rem by (subst (1 2 3 4) safe_loop.simps) (simp add: num sig_pair_def)
      next
        fix st' assume step: "safe_step env kh st = Inr (Continue st')" "safe_frame st st'" "safe_inv env st'"
          "matchedKeyHashes st' = i # matchedKeyHashes st"
          "signatureIdx st' = signatureIdx st + (if sig_passes env (st_vm st) (sig_pair ?si) then 1 else 0)"
        have "safe_result env kh st' (safe_loop env kh st')"
          using match_Some(3) [OF some(2)] step by (intro less.hyps) auto
        then have "safe_result env kh st (safe_loop env kh st')"
          by (rule safe_result_step [OF _ step(2) lt some(1) refl some(2) step(4, 5)])
        then show ?thesis by (subst safe_loop.simps) (simp add: num step(1))
      qed
    qed
  qed
qed

section \<open>The handler\<close>

abbreviation with_stk :: "Engine \<Rightarrow> bytes list \<Rightarrow> Engine" where
  "with_stk vm xs \<equiv> vm\<lparr>dstack := (dstack vm)\<lparr>stk := xs\<rparr>\<rparr>"

lemma popBytes_snoc: "stk (dstack vm) = xs @ [b] \<Longrightarrow> popBytes vm = Inr (b, with_stk vm xs)"
  by (simp add: popBytes_def Pop_eq)

lemma popInt_num:
  assumes "stk (dstack vm) = xs @ [b]" and "scriptNum_Bytes n = Inr b" and "\<bar>n\<bar> < 2 ^ 31"
  shows "popInt vm = Inr (n, with_stk vm xs)"
proof -
  have b: "b = num_bytes n" using assms(2,3) scriptNum_Bytes_eq [of n] by auto
  moreover have "length (num_bytes n) \<le> Suc 3" using assms(3) by (intro length_num_bytes) simp
  ultimately show ?thesis using assms(1)
    by (simp add: popInt_def PopInt_def Pop_eq makeScriptNum_eq minimal_num_bytes num_value_num_bytes
        defaultScriptNumLen_def)
qed

lemma popKeyHashes_rev:
  "stk (dstack vm) = xs @ rev kh \<Longrightarrow> \<forall>h \<in> set kh. length h = 20 \<Longrightarrow>
   popKeyHashes (length kh) vm = Inr (kh, with_stk vm xs)"
proof (induction kh arbitrary: vm)
  case (Cons h kh)
  then have "popBytes vm = Inr (h, with_stk vm (xs @ rev kh))" by (intro popBytes_snoc) simp
  with Cons.IH [of "with_stk vm (xs @ rev kh)"] Cons.prems show ?case by simp
qed simp

definition fresh_sig :: "bytes \<times> bytes \<Rightarrow> parsedSigInfo" where
  "fresh_sig p = \<lparr>si_pubKey = fst p, si_signature = snd p, si_parsedSignature = None, si_parsed = False\<rparr>"

abbreviation pair_items :: "(bytes \<times> bytes) list \<Rightarrow> bytes list" where
  "pair_items ps \<equiv> concat (map (\<lambda>(pk, sg). [pk, sg]) (rev ps))"

lemma popSafeSigs_pairs:
  "stk (dstack vm) = xs @ pair_items ps \<Longrightarrow> popSafeSigs (length ps) vm = Inr (map fresh_sig ps, with_stk vm xs)"
proof (induction ps arbitrary: vm)
  case (Cons p ps)
  obtain pk sg where p: "p = (pk, sg)" by (cases p)
  let ?vm1 = "with_stk vm (xs @ pair_items ps @ [pk])" and ?vm2 = "with_stk vm (xs @ pair_items ps)"
  have "popBytes vm = Inr (sg, ?vm1)" using Cons.prems by (intro popBytes_snoc) (simp add: p)
  moreover have "popBytes ?vm1 = Inr (pk, with_stk ?vm1 (xs @ pair_items ps))" by (intro popBytes_snoc) simp
  moreover have "popSafeSigs (length ps) ?vm2 = Inr (map fresh_sig ps, with_stk vm xs)"
    using Cons.IH [of ?vm2] by simp
  ultimately show ?case by (simp add: p fresh_sig_def)
qed simp

text \<open>The stack on which the opcode finds the pairs \<open>ps\<close> and the key hashes \<open>kh\<close>.\<close>

definition safe_layout :: "Engine \<Rightarrow> bytes list \<Rightarrow> (bytes \<times> bytes) list \<Rightarrow> bytes list \<Rightarrow> bool" where
  "safe_layout vm rest ps kh \<longleftrightarrow>
     (\<exists>np nk. scriptNum_Bytes (int (length ps)) = Inr np \<and> scriptNum_Bytes (int (length kh)) = Inr nk \<and>
        stk (dstack vm) = rest @ pair_items ps @ np # rev kh @ [nk]) \<and>
     length ps \<le> length kh \<and> length kh \<le> 20 \<and> (\<forall>h \<in> set kh. length h = 20) \<and>
     numOps vm + int (length kh) \<le> 201 \<and> txIdx vm < length (TxIn (vm_tx vm))"

lemma CheckSafeMultiSig_run:
  assumes lay: "safe_layout vm rest ps kh" and cache: "vm_cache_ok env vm" and sha: "\<forall>b. length (sha256 env b) = 32"
  defines "vm' \<equiv> (with_stk vm rest)\<lparr>numOps := numOps vm + int (length kh)\<rparr>"
  shows "opcodeCheckSafeMultiSig env op vm =
     (case safe_loop env kh (safe_init vm' (map fresh_sig ps)) of
        None \<Rightarrow> Inl NoReturn
      | Some r \<Rightarrow> bindE r (\<lambda>(success, st).
          if \<not> success \<and> hasFlag ScriptVerifyNullFail (st_vm st) \<and> (\<exists>sig \<in> set (signatures st). length (si_signature sig) > 0)
          then Inl (ScriptErr ErrNullFail) else Inr (pushBool success (st_vm st))))" (is ?run)
    and "safe_result env kh (safe_init vm' (map fresh_sig ps)) (safe_loop env kh (safe_init vm' (map fresh_sig ps)))"
    (is ?res)
proof -
  obtain np nk where n: "scriptNum_Bytes (int (length ps)) = Inr np" "scriptNum_Bytes (int (length kh)) = Inr nk"
    and stk: "stk (dstack vm) = rest @ pair_items ps @ np # rev kh @ [nk]"
    and b: "length ps \<le> length kh" "length kh \<le> 20" "\<forall>h \<in> set kh. length h = 20"
      "numOps vm + int (length kh) \<le> 201" "txIdx vm < length (TxIn (vm_tx vm))"
    using lay by (auto simp: safe_layout_def)
  let ?k = "\<lambda>xs. (with_stk vm xs)\<lparr>numOps := numOps vm + int (length kh)\<rparr>"
  have 1: "popInt vm = Inr (int (length kh), with_stk vm (rest @ pair_items ps @ np # rev kh))"
    using stk b by (intro popInt_num [OF _ n(2)]) auto
  have 2: "popKeyHashes (length kh) (?k (rest @ pair_items ps @ np # rev kh)) = Inr (kh, ?k (rest @ pair_items ps @ [np]))"
    using popKeyHashes_rev [of "?k (rest @ pair_items ps @ np # rev kh)" "rest @ pair_items ps @ [np]" kh] b by simp
  have 3: "popInt (?k (rest @ pair_items ps @ [np])) = Inr (int (length ps), ?k (rest @ pair_items ps))"
    using popInt_num [of "?k (rest @ pair_items ps @ [np])" "rest @ pair_items ps" np "int (length ps)"] n(1) b by simp
  have 4: "popSafeSigs (length ps) (?k (rest @ pair_items ps)) = Inr (map fresh_sig ps, ?k rest)"
    using popSafeSigs_pairs [of "?k (rest @ pair_items ps)" rest ps] by simp
  have i32: "scriptNum_Int32 (int k) = int k" if "k \<le> 20" for k
    using that by (simp add: scriptNum_Int32_def maxInt32_def minInt32_def)
  show ?run
    using b i32 [of "length kh"] i32 [of "length ps"]
    by (simp add: opcodeCheckSafeMultiSig_def 1 2 3 4 Let_def MaxPubKeysPerMultiSig_def MaxOpsPerScript_def vm'_def)
  have "safe_inv env (safe_init vm' (map fresh_sig ps))"
    using cache b sha
    by (auto simp: safe_inv_def safe_init_def vm_cache_ok_def vm'_def safe_hash_def calcSignatureHashNew_def
        length_DoubleHashB parse_consistent_def fresh_sig_def)
  then show ?res by (rule safe_loop_result)
qed

lemma safe_result_init:
  fixes vm rest kh
  defines "vm' \<equiv> (with_stk vm rest)\<lparr>numOps := numOps vm + int (length kh)\<rparr>"
  assumes "safe_result env kh (safe_init vm' (map fresh_sig ps)) res"
  shows "res = None \<longleftrightarrow> safe_diverges env vm (mset kh) ps" and "res \<noteq> Some (Inl NoReturn)"
    and "(\<exists>st'. res = Some (Inr (True, st'))) \<longleftrightarrow> safe_accepts env vm (mset kh) ps"
    and "res = Some (Inr (b, st')) \<Longrightarrow> \<exists>sc. st_vm st' = vm'\<lparr>sigCache := sc\<rparr>"
proof -
  have "sig_passes env vm' = sig_passes env vm"
    by (rule sig_passes_cong) (simp add: same_context_def vm'_def)
  then have vm: "safe_diverges env vm' M ps = safe_diverges env vm M ps"
    "safe_accepts env vm' M ps = safe_accepts env vm M ps" for M ps
    by (simp_all add: safe_diverges_iff safe_accepts_iff)
  have un: "unmatched kh [] = [0 ..< length kh]" by (simp add: unmatched_def)
  have M: "free_hashes kh [] = mset kh" unfolding un map_nth ..
  have rem: "map (sig_pair \<circ> fresh_sig) ps = ps" by (simp add: sig_pair_def fresh_sig_def comp_def)
  note r = assms(2) [unfolded safe_result_def safe_init_def Let_def, simplified, unfolded rem]
  show "res = None \<longleftrightarrow> safe_diverges env vm (mset kh) ps" "res \<noteq> Some (Inl NoReturn)"
    "(\<exists>st'. res = Some (Inr (True, st'))) \<longleftrightarrow> safe_accepts env vm (mset kh) ps"
    using r M by (auto simp: vm)
  show "res = Some (Inr (b, st')) \<Longrightarrow> \<exists>sc. st_vm st' = vm'\<lparr>sigCache := sc\<rparr>"
    using r by (auto simp: safe_frame_def)
qed

lemma CheckSafeMultiSig_result:
  assumes "safe_layout vm rest ps kh" and "vm_cache_ok env vm" and "\<forall>b. length (sha256 env b) = 32"
  shows "opcodeCheckSafeMultiSig env op vm = Inl NoReturn \<longleftrightarrow> safe_diverges env vm (mset kh) ps"
    and "opcodeCheckSafeMultiSig env op vm = Inr v \<Longrightarrow>
      \<exists>sc. v = (with_stk vm (rest @ [fromBool (safe_accepts env vm (mset kh) ps)]))
                \<lparr>numOps := numOps vm + int (length kh), sigCache := sc\<rparr>"
    and "safe_accepts env vm (mset kh) ps \<Longrightarrow> \<exists>v. opcodeCheckSafeMultiSig env op vm = Inr v"
proof -
  note run = CheckSafeMultiSig_run [OF assms]
  note res = safe_result_init [OF run(2)]
  show "opcodeCheckSafeMultiSig env op vm = Inl NoReturn \<longleftrightarrow> safe_diverges env vm (mset kh) ps"
    unfolding run(1) res(1) [symmetric] using res(2)
    by (auto simp: bindE_eq_Inl split: option.splits prod.splits if_splits)
  show "safe_accepts env vm (mset kh) ps \<Longrightarrow> \<exists>v. opcodeCheckSafeMultiSig env op vm = Inr v"
    unfolding run(1) res(3) [symmetric] by auto
  assume "opcodeCheckSafeMultiSig env op vm = Inr v"
  then obtain b st where l: "safe_loop env kh (safe_init ((with_stk vm rest)\<lparr>numOps := numOps vm + int (length kh)\<rparr>)
      (map fresh_sig ps)) = Some (Inr (b, st))" and v: "v = pushBool b (st_vm st)"
    unfolding run(1) by (auto split: option.splits if_splits)
  moreover have "b = safe_accepts env vm (mset kh) ps" using l res(3) by auto
  ultimately show "\<exists>sc. v = (with_stk vm (rest @ [fromBool (safe_accepts env vm (mset kh) ps)]))
      \<lparr>numOps := numOps vm + int (length kh), sigCache := sc\<rparr>"
    using res(4) [OF l] by (cases vm) (auto simp: pushBool_def PushBool_def)
qed

section \<open>Properties\<close>

text \<open>
  C2. \<open>OP_CHECKSAFEMULTISIG\<close> accepts exactly the right signatures.  On a stack that holds the
  pairs \<open>ps\<close> of public key and signature and the key hashes \<open>kh\<close>, the opcode leaves true on the
  stack if and only if every pair passes (allowed encodings, a signature that parses and
  verifies under its key over the hash of the transaction) and the hashes of the public keys
  form a sub-multiset of the key hashes: their order does not matter, no key hash serves two
  signatures, and the content of the signature cache makes no difference.
\<close>

theorem CheckSafeMultiSig_accepts:
  assumes "safe_layout vm rest ps kh" and "vm_cache_ok env vm" and "\<forall>b. length (sha256 env b) = 32"
  shows "(\<exists>vm'. opcodeCheckSafeMultiSig env op vm = Inr vm' \<and> stk (dstack vm') = rest @ [[1]]) \<longleftrightarrow>
    (\<forall>p \<in> set ps. sig_passes env vm p) \<and> image_mset (\<lambda>p. Hash160 env (fst p)) (mset ps) \<subseteq># mset kh"
proof -
  note res = CheckSafeMultiSig_result [OF assms]
  have "(\<exists>vm'. opcodeCheckSafeMultiSig env op vm = Inr vm' \<and> stk (dstack vm') = rest @ [[1]]) \<longleftrightarrow>
      safe_accepts env vm (mset kh) ps"
    using res(2,3) by (force simp: fromBool_def split: if_splits)
  then show ?thesis by (simp only: safe_accepts_iff)
qed

text \<open>
  A concrete engine: no flags, an empty cache, and verification that accepts the signature
  \<open>(1, Y)\<close> under a key with second coordinate \<open>Y\<close>.
\<close>

definition example_env :: vmenv where
  "example_env = \<lparr>sha256 = (\<lambda>b. take 32 (b @ replicate 32 0)), sha3 = (\<lambda>b. take 32 (b @ replicate 32 0)),
     ripemd160 = (\<lambda>b. take 20 (b @ replicate 20 0)), sha1 = (\<lambda>b. take 20 (b @ replicate 20 0)),
     ecdsa_Verify = (\<lambda>pk m r s. r = 1 \<and> s = Y pk), evict = hd\<rparr>"

definition example_vm :: "bytes list \<Rightarrow> Engine" where
  "example_vm xs = \<lparr>vm_scripts = [], scriptIdx = 0, scriptOff = 0, lastCodeSep = 0,
     dstack = \<lparr>stk = xs, verifyMinimalData = False\<rparr>, astack = \<lparr>stk = [], verifyMinimalData = False\<rparr>,
     vm_tx = example_tx, txIdx = 0, condStack = [], numOps = 0, vm_flags = 0,
     sigCache = Some (NewSigCache 10), hashCache = None, vm_bip16 = False, savedFirstStack = [], inputAmount = 50\<rparr>"

definition example_sig :: bytes where
  "example_sig = [0x30, 0x06, 0x02, 0x01, 0x01, 0x02, 0x01, 0x01, 0x01]"

abbreviation example_stack :: "bytes \<Rightarrow> bytes list" where
  "example_stack sg \<equiv> [unit_y_key, sg, [1], replicate 20 0, take 20 unit_y_key, [2]]"

lemma example_env_sha256: "\<forall>b. length (sha256 example_env b) = 32"
  by (auto simp: example_env_def min_def)

lemma example_layout:
  "safe_layout (example_vm (example_stack sg)) [] [(unit_y_key, sg)] [take 20 unit_y_key, replicate 20 0]"
proof -
  have "scriptNum_Bytes 1 = Inr [1]" "scriptNum_Bytes 2 = Inr [2]" by code_simp+
  then show ?thesis by (simp add: safe_layout_def example_vm_def example_tx_def unit_y_key_def)
qed

lemma example_cache_ok: "vm_cache_ok env (example_vm xs)"
  by (simp add: vm_cache_ok_def example_vm_def cache_valid_New)

lemma example_sig_passes:
  assumes "vm_flags vm = 0"
  shows "sig_passes example_env vm (unit_y_key, example_sig)"
proof -
  have "\<not> hasFlag f vm" if "f \<noteq> 0" for f
    using that assms by (auto simp: hasFlag_def)
  moreover have "ParseSignature (butlast example_sig) = Inr \<lparr>R = 1, S = 1\<rparr>" by code_simp
  ultimately show ?thesis
    by (simp add: sig_passes_def checkHashTypeEncoding_def checkSignatureEncoding_def checkPubKeyEncoding_def
        parse_signature_def unit_y_key_parses Signature_Verify_def example_env_def) (simp add: example_sig_def)
qed

lemma example_vm_flags: "vm_flags (example_vm xs) = 0"
  by (simp add: example_vm_def)

lemma example_key_hash: "Hash160 example_env unit_y_key = take 20 unit_y_key"
  by (simp add: Hash160_def example_env_def unit_y_key_def)

theorem CheckSafeMultiSig_accepts_witness:
  "\<exists>vm'. opcodeCheckSafeMultiSig example_env \<lparr>opcode = 0xba, data = []\<rparr> (example_vm (example_stack example_sig)) = Inr vm' \<and>
     stk (dstack vm') = [[1]]"
  using CheckSafeMultiSig_accepts [OF example_layout [of example_sig] example_cache_ok example_env_sha256,
      of "\<lparr>opcode = 0xba, data = []\<rparr>"]
  by (simp add: example_sig_passes example_vm_flags example_key_hash)

text \<open>
  C5. When \<open>OP_CHECKSAFEMULTISIG\<close> returns.  On such a stack the handler does not return if and
  only if one of the signatures is empty, and the pairs above it pass and match key hashes:
  the loop reaches the empty signature and continues with it for ever.
\<close>

theorem CheckSafeMultiSig_returns:
  assumes "safe_layout vm rest ps kh" and "vm_cache_ok env vm" and "\<forall>b. length (sha256 env b) = 32"
  shows "opcodeCheckSafeMultiSig env op vm = Inl NoReturn \<longleftrightarrow>
    (\<exists>ps1 pk ps2. ps = ps1 @ (pk, []) # ps2 \<and> (\<forall>p \<in> set ps1. sig_passes env vm p) \<and>
       image_mset (\<lambda>p. Hash160 env (fst p)) (mset ps1) \<subseteq># mset kh)"
  by (simp only: CheckSafeMultiSig_result(1) [OF assms] safe_diverges_iff)

theorem CheckSafeMultiSig_returns_witness:
  "opcodeCheckSafeMultiSig example_env \<lparr>opcode = 0xba, data = []\<rparr> (example_vm (example_stack [])) = Inl NoReturn"
  using CheckSafeMultiSig_returns [OF example_layout [of "[]"] example_cache_ok example_env_sha256,
      of "\<lparr>opcode = 0xba, data = []\<rparr>"]
  by (metis append_Nil empty_iff empty_le image_mset_empty list.set(1) mset.simps(1))

end
