(* ===== verification/Script_Engine.thy ===== *)
theory Script_Engine
  imports Safe_Multisig
begin

text \<open>
  The script engine proper (\<open>src/txscript/engine.go\<close>): the dispatch of an opcode to its
  handler, \<open>executeOpcode\<close>, \<open>Step\<close>, \<open>CheckErrorCondition\<close>, \<open>Execute\<close> and
  \<open>NewEngine\<close>.  The function pointer of an opcode table entry is its constructor of
  \<open>opfunc\<close>, and \<open>run_opfunc\<close> the call.  Logging is left out, so \<open>Execute\<close> is the loop
  over \<open>Step\<close> followed by the final check.

  The loop is a total function: no handler changes the scripts or the program counter, so
  every step moves the program counter forward.  The lemmas give, handler by handler, the
  engine invariant: at most 1000 elements on the two stacks, none longer than 520 bytes, and
  at most 201 counted operations; and that no handler but \<open>opcodeCheckSafeMultiSig\<close> can fail
  to return.
\<close>

section \<open>Dispatch\<close>

fun run_opfunc :: "vmenv \<Rightarrow> opfunc \<Rightarrow> handler" where
  "run_opfunc env Do_opcodeFalse = opcodeFalse"
| "run_opfunc env Do_opcodePushData = opcodePushData"
| "run_opfunc env Do_opcode1Negate = opcode1Negate"
| "run_opfunc env Do_opcodeReserved = opcodeReserved"
| "run_opfunc env Do_opcodeN = opcodeN"
| "run_opfunc env Do_opcodeNop = opcodeNop"
| "run_opfunc env Do_opcodeIf = opcodeIf"
| "run_opfunc env Do_opcodeNotIf = opcodeNotIf"
| "run_opfunc env Do_opcodeElse = opcodeElse"
| "run_opfunc env Do_opcodeEndif = opcodeEndif"
| "run_opfunc env Do_opcodeVerify = opcodeVerify"
| "run_opfunc env Do_opcodeReturn = opcodeReturn"
| "run_opfunc env Do_opcodeToAltStack = opcodeToAltStack"
| "run_opfunc env Do_opcodeFromAltStack = opcodeFromAltStack"
| "run_opfunc env Do_opcode2Drop = opcode2Drop"
| "run_opfunc env Do_opcode2Dup = opcode2Dup"
| "run_opfunc env Do_opcode3Dup = opcode3Dup"
| "run_opfunc env Do_opcode2Over = opcode2Over"
| "run_opfunc env Do_opcode2Rot = opcode2Rot"
| "run_opfunc env Do_opcode2Swap = opcode2Swap"
| "run_opfunc env Do_opcodeIfDup = opcodeIfDup"
| "run_opfunc env Do_opcodeDepth = opcodeDepth"
| "run_opfunc env Do_opcodeDrop = opcodeDrop"
| "run_opfunc env Do_opcodeDup = opcodeDup"
| "run_opfunc env Do_opcodeNip = opcodeNip"
| "run_opfunc env Do_opcodeOver = opcodeOver"
| "run_opfunc env Do_opcodePick = opcodePick"
| "run_opfunc env Do_opcodeRoll = opcodeRoll"
| "run_opfunc env Do_opcodeRot = opcodeRot"
| "run_opfunc env Do_opcodeSwap = opcodeSwap"
| "run_opfunc env Do_opcodeTuck = opcodeTuck"
| "run_opfunc env Do_opcodeDisabled = opcodeDisabled"
| "run_opfunc env Do_opcodeSize = opcodeSize"
| "run_opfunc env Do_opcodeEqual = opcodeEqual"
| "run_opfunc env Do_opcodeEqualVerify = opcodeEqualVerify"
| "run_opfunc env Do_opcode1Add = opcode1Add"
| "run_opfunc env Do_opcode1Sub = opcode1Sub"
| "run_opfunc env Do_opcodeNegate = opcodeNegate"
| "run_opfunc env Do_opcodeAbs = opcodeAbs"
| "run_opfunc env Do_opcodeNot = opcodeNot"
| "run_opfunc env Do_opcode0NotEqual = opcode0NotEqual"
| "run_opfunc env Do_opcodeAdd = opcodeAdd"
| "run_opfunc env Do_opcodeSub = opcodeSub"
| "run_opfunc env Do_opcodeBoolAnd = opcodeBoolAnd"
| "run_opfunc env Do_opcodeBoolOr = opcodeBoolOr"
| "run_opfunc env Do_opcodeNumEqual = opcodeNumEqual"
| "run_opfunc env Do_opcodeNumEqualVerify = opcodeNumEqualVerify"
| "run_opfunc env Do_opcodeNumNotEqual = opcodeNumNotEqual"
| "run_opfunc env Do_opcodeLessThan = opcodeLessThan"
| "run_opfunc env Do_opcodeGreaterThan = opcodeGreaterThan"
| "run_opfunc env Do_opcodeLessThanOrEqual = opcodeLessThanOrEqual"
| "run_opfunc env Do_opcodeGreaterThanOrEqual = opcodeGreaterThanOrEqual"
| "run_opfunc env Do_opcodeMin = opcodeMin"
| "run_opfunc env Do_opcodeMax = opcodeMax"
| "run_opfunc env Do_opcodeWithin = opcodeWithin"
| "run_opfunc env Do_opcodeRipemd160 = opcodeRipemd160 env"
| "run_opfunc env Do_opcodeSha1 = opcodeSha1 env"
| "run_opfunc env Do_opcodeSha256 = opcodeSha256 env"
| "run_opfunc env Do_opcodeHash160 = opcodeHash160 env"
| "run_opfunc env Do_opcodeHash256 = opcodeHash256 env"
| "run_opfunc env Do_opcodeCodeSeparator = opcodeCodeSeparator"
| "run_opfunc env Do_opcodeCheckSig = opcodeCheckSig env"
| "run_opfunc env Do_opcodeCheckSigVerify = opcodeCheckSigVerify env"
| "run_opfunc env Do_opcodeCheckMultiSig = opcodeCheckMultiSig env"
| "run_opfunc env Do_opcodeCheckMultiSigVerify = opcodeCheckMultiSigVerify env"
| "run_opfunc env Do_opcodeCheckLockTimeVerify = opcodeCheckLockTimeVerify"
| "run_opfunc env Do_opcodeCheckSequenceVerify = opcodeCheckSequenceVerify"
| "run_opfunc env Do_opcodeCheckSafeMultiSig = opcodeCheckSafeMultiSig env"
| "run_opfunc env Do_opcodeInvalid = opcodeInvalid"

definition executeOpcode :: "vmenv \<Rightarrow> parsedOpcode \<Rightarrow> Engine \<Rightarrow> Engine res" where
  "executeOpcode env pop vm =
     (if isDisabled pop then Inl (ScriptErr ErrDisabledOpcode)
      else if alwaysIllegal pop then Inl (ScriptErr ErrReservedOpcode)
      else
        bindE
          (if opcode pop > OP_16 then
             let vm = vm\<lparr>numOps := numOps vm + 1\<rparr>
             in if numOps vm > MaxOpsPerScript then Inl (ScriptErr ErrTooManyOperations) else Inr vm
           else if length (data pop) > MaxScriptElementSize then Inl (ScriptErr ErrElementTooBig)
           else Inr vm)
          (\<lambda>vm.
             if \<not> isBranchExecuting vm \<and> \<not> isConditional pop then Inr vm
             else
               bindE
                 (if verifyMinimalData (dstack vm) \<and> isBranchExecuting vm \<and> opcode pop \<le> OP_PUSHDATA4
                  then checkMinimalDataPush pop else Inr ())
                 (\<lambda>_. run_opfunc env (op_func (op_info (opcode pop))) pop vm)))"

section \<open>Stepping through the scripts\<close>

definition validPC :: "Engine \<Rightarrow> unit res" where
  "validPC vm =
     (if scriptIdx vm \<ge> length (vm_scripts vm) then Inl (ScriptErr ErrInvalidProgramCounter)
      else if scriptOff vm \<ge> length (vm_scripts vm ! scriptIdx vm) then Inl (ScriptErr ErrInvalidProgramCounter)
      else Inr ())"

text \<open>The check pops the result off the data stack; the engine it leaves is returned.\<close>

definition CheckErrorCondition :: "bool \<Rightarrow> Engine \<Rightarrow> Engine res" where
  "CheckErrorCondition finalScript vm =
     (if scriptIdx vm < length (vm_scripts vm) then Inl (ScriptErr ErrScriptUnfinished)
      else if finalScript \<and> hasFlag ScriptVerifyCleanStack vm \<and> Depth (dstack vm) \<noteq> 1
      then Inl (ScriptErr ErrCleanStack)
      else if Depth (dstack vm) < 1 then Inl (ScriptErr ErrEmptyStack)
      else bindE (popBool vm) (\<lambda>(v, vm). if \<not> v then Inl (ScriptErr ErrEvalFalse) else Inr vm))"

definition GetStack :: "Engine \<Rightarrow> bytes list" where
  "GetStack vm = getStack (dstack vm)"

definition SetStack :: "bytes list \<Rightarrow> Engine \<Rightarrow> Engine" where
  "SetStack d vm = vm\<lparr>dstack := setStack d (dstack vm)\<rparr>"

text \<open>The end of the second script of a pay-to-script-hash input: run the script it hashed.\<close>

definition run_redeem :: "Engine \<Rightarrow> Engine res" where
  "run_redeem vm =
     (let vm = vm\<lparr>scriptIdx := scriptIdx vm + 1\<rparr>
      in bindE (CheckErrorCondition False vm) (\<lambda>vm.
         let saved = savedFirstStack vm
         in bindE (if saved = [] then Inl Panic else Inr (saved ! (length saved - 1))) (\<lambda>redeem.
            bindE (parseScript redeem) (\<lambda>pops.
              Inr (SetStack (take (length saved - 1) saved) (vm\<lparr>vm_scripts := vm_scripts vm @ [pops]\<rparr>))))))"

text \<open>The part of \<open>Step\<close> after the last opcode of a script.\<close>

definition advance :: "Engine \<Rightarrow> Engine res" where
  "advance vm =
     (if scriptIdx vm = 0 \<and> vm_bip16 vm then
        let vm = vm\<lparr>scriptIdx := scriptIdx vm + 1\<rparr> in Inr (vm\<lparr>savedFirstStack := GetStack vm\<rparr>)
      else if scriptIdx vm = 1 \<and> vm_bip16 vm then run_redeem vm
      else Inr (vm\<lparr>scriptIdx := scriptIdx vm + 1\<rparr>))"

definition next_script :: "Engine \<Rightarrow> (bool \<times> Engine) res" where
  "next_script vm =
     (let vm = vm\<lparr>astack := (case DropN (Depth (astack vm)) (astack vm) of Inr s \<Rightarrow> s | Inl _ \<Rightarrow> astack vm),
                  numOps := 0, scriptOff := 0\<rparr>
      in bindE (advance vm) (\<lambda>vm.
           let vm = (if scriptIdx vm < length (vm_scripts vm) \<and>
                        scriptOff vm \<ge> length (vm_scripts vm ! scriptIdx vm)
                     then vm\<lparr>scriptIdx := scriptIdx vm + 1\<rparr> else vm);
               vm = vm\<lparr>lastCodeSep := 0\<rparr>
           in Inr (scriptIdx vm \<ge> length (vm_scripts vm), vm)))"

definition Step :: "vmenv \<Rightarrow> Engine \<Rightarrow> (bool \<times> Engine) res" where
  "Step env vm =
     bindE (validPC vm) (\<lambda>_.
     bindE (executeOpcode env (vm_scripts vm ! scriptIdx vm ! scriptOff vm) vm) (\<lambda>vm.
       if Depth (dstack vm) + Depth (astack vm) > MaxStackSize then Inl (ScriptErr ErrStackOverflow)
       else
         let vm = vm\<lparr>scriptOff := scriptOff vm + 1\<rparr>
         in if scriptOff vm \<ge> length (vm_scripts vm ! scriptIdx vm) then
              (if length (condStack vm) \<noteq> 0 then Inl (ScriptErr ErrUnbalancedConditional)
               else next_script vm)
            else Inr (False, vm)))"

section \<open>What handlers keep\<close>

lemmas handler_defs =
  opcodeDisabled_def opcodeReserved_def opcodeInvalid_def opcodeFalse_def opcodePushData_def
  opcode1Negate_def opcodeN_def opcodeNop_def opcodeIf_def opcodeNotIf_def
  opcodeElse_def opcodeEndif_def opcodeVerify_def opcodeReturn_def opcodeCheckLockTimeVerify_def
  opcodeCheckSequenceVerify_def opcodeToAltStack_def opcodeFromAltStack_def opcode2Drop_def opcode2Dup_def
  opcode3Dup_def opcode2Over_def opcode2Rot_def opcode2Swap_def opcodeIfDup_def
  opcodeDepth_def opcodeDrop_def opcodeDup_def opcodeNip_def opcodeOver_def
  opcodePick_def opcodeRoll_def opcodeRot_def opcodeSwap_def opcodeTuck_def
  opcodeSize_def opcodeEqual_def opcodeEqualVerify_def opcode1Add_def opcode1Sub_def
  opcodeNegate_def opcodeAbs_def opcodeNot_def opcode0NotEqual_def opcodeAdd_def
  opcodeSub_def opcodeBoolAnd_def opcodeBoolOr_def opcodeNumEqual_def opcodeNumEqualVerify_def
  opcodeNumNotEqual_def opcodeLessThan_def opcodeGreaterThan_def opcodeLessThanOrEqual_def opcodeGreaterThanOrEqual_def
  opcodeMin_def opcodeMax_def opcodeWithin_def opcodeRipemd160_def opcodeSha1_def
  opcodeSha256_def opcodeHash160_def opcodeHash256_def opcodeCodeSeparator_def
  abstractVerify_def

text \<open>The parts of the engine that no handler changes.\<close>

definition same_run :: "Engine \<Rightarrow> Engine \<Rightarrow> bool" where
  "same_run vm vm' \<longleftrightarrow> vm_scripts vm' = vm_scripts vm \<and> scriptIdx vm' = scriptIdx vm \<and>
     scriptOff vm' = scriptOff vm \<and> vm_bip16 vm' = vm_bip16 vm \<and> vm_flags vm' = vm_flags vm \<and>
     vm_tx vm' = vm_tx vm \<and> txIdx vm' = txIdx vm \<and> savedFirstStack vm' = savedFirstStack vm"

text \<open>Every element of the stacks is at most \<open>MaxScriptElementSize\<close> bytes long.\<close>

definition small_stacks :: "Engine \<Rightarrow> bool" where
  "small_stacks vm \<longleftrightarrow> (\<forall>x \<in> set (stk (dstack vm)) \<union> set (stk (astack vm)). length x \<le> MaxScriptElementSize)"

text \<open>One action of a handler: the run is the same, the stacks stay small, no operation is counted.\<close>

definition act :: "bool \<Rightarrow> Engine \<Rightarrow> Engine \<Rightarrow> bool" where
  "act P vm vm' \<longleftrightarrow> same_run vm vm' \<and> (P \<longrightarrow> small_stacks vm') \<and> numOps vm' = numOps vm"

lemma act_refl: "(P \<longrightarrow> small_stacks vm) \<Longrightarrow> act P vm vm"
  by (simp add: act_def same_run_def)

lemma act_trans: "act P vm vm' \<Longrightarrow> act P vm' vm'' \<Longrightarrow> act P vm vm''"
  by (simp add: act_def same_run_def)

lemma act_small: "act True vm vm' \<Longrightarrow> small_stacks vm'"
  by (simp add: act_def)

text \<open>Pops.\<close>

lemma PopByteArray_set:
  "PopByteArray s = Inr (b, s') \<Longrightarrow> set (stk s') \<subseteq> set (stk s) \<and> b \<in> set (stk s)"
  by (auto simp: Pop_eq split: if_splits dest: in_set_butlastD)

lemma popBytes_act: "act P vm v \<Longrightarrow> popBytes v = Inr (b, vm') \<Longrightarrow> act P vm vm'"
  by (auto simp: popBytes_def act_def same_run_def small_stacks_def dest!: PopByteArray_set)

lemma popBytes_small: "act True vm v \<Longrightarrow> popBytes v = Inr (b, vm') \<Longrightarrow> length b \<le> MaxScriptElementSize"
  by (auto simp: popBytes_def act_def small_stacks_def dest!: PopByteArray_set)

lemma popBool_act: "act P vm v \<Longrightarrow> popBool v = Inr (b, vm') \<Longrightarrow> act P vm vm'"
  by (auto simp: popBool_def PopBool_def act_def same_run_def small_stacks_def dest!: PopByteArray_set)

lemma popInt_act: "act P vm v \<Longrightarrow> popInt v = Inr (n, vm') \<Longrightarrow> act P vm vm'"
  by (auto simp: popInt_def PopInt_def act_def same_run_def small_stacks_def dest!: PopByteArray_set)

lemma makeScriptNum_bound:
  assumes "makeScriptNum so m 4 = Inr n"
  shows "\<bar>n\<bar> < 2 ^ 31"
proof -
  have len: "length so \<le> 4" using assms by (auto simp: makeScriptNum_def split: if_splits)
  then have n: "n = num_value so" using assms by (auto simp: makeScriptNum_eq split: if_splits)
  show ?thesis
  proof (cases "so = []")
    case False
    have "(256 :: int) ^ (length so - 1) \<le> 256 ^ 3" using len by (intro power_increasing) auto
    with num_value_bounds [OF False] show ?thesis by (simp add: n)
  qed (simp add: n num_value_def)
qed

lemma popInt_int64: "popInt v = Inr (n, vm') \<Longrightarrow> in_int64 n"
  by (auto simp: popInt_def PopInt_def defaultScriptNumLen_def in_int64_def dest!: makeScriptNum_bound)

text \<open>Pushes.\<close>

lemma pushBytes_act: "act P vm v \<Longrightarrow> (P \<longrightarrow> length b \<le> MaxScriptElementSize) \<Longrightarrow> act P vm (pushBytes b v)"
  by (auto simp: pushBytes_def act_def same_run_def small_stacks_def)

lemma pushBool_act: "act P vm v \<Longrightarrow> act P vm (pushBool b v)"
  by (auto simp: pushBool_def PushBool_def fromBool_def act_def same_run_def small_stacks_def MaxScriptElementSize_def)

lemma scriptNum_Bytes_length:
  assumes "in_int64 n" and "scriptNum_Bytes n = Inr b"
  shows "length b \<le> 9"
proof -
  have "n \<noteq> - (2 ^ 63)" using assms(2) scriptNum_Bytes_min by auto
  with assms(1) have "- (2 ^ 63) < n" "n < 2 ^ 63" by (auto simp: in_int64_def)
  then have "b = num_bytes n" "\<bar>n\<bar> < 128 * 256 ^ 8" using assms(2) by (auto simp: scriptNum_Bytes_eq)
  then show ?thesis using length_num_bytes [of n 8] by simp
qed

lemma pushInt_act: "act P vm v \<Longrightarrow> (P \<longrightarrow> in_int64 n) \<Longrightarrow> pushInt n v = Inr vm' \<Longrightarrow> act P vm vm'"
  by (auto simp: pushInt_def on_dstack_def PushInt_def act_def same_run_def small_stacks_def MaxScriptElementSize_def
      dest!: scriptNum_Bytes_length)

text \<open>Operations that only rearrange the stack.\<close>

definition keeps :: "(stack \<Rightarrow> stack res) \<Rightarrow> bool" where
  "keeps f \<longleftrightarrow> (\<forall>s s'. f s = Inr s' \<longrightarrow> set (stk s') \<subseteq> set (stk s))"

lemma keeps_repeatE: "keeps f \<Longrightarrow> keeps (repeatE n f)"
proof (induction n)
  case (Suc n)
  then show ?case by (fastforce simp: keeps_def)
qed (simp add: keeps_def)

lemma nipN_set: "nipN i s = Inr (b, s') \<Longrightarrow> b \<in> set (stk s) \<and> set (stk s') \<subseteq> set (stk s)"
  by (auto simp: nipN_eq Let_def split: if_splits dest: in_set_takeD in_set_dropD)

lemma Peek_set: "PeekByteArray i s = Inr b \<Longrightarrow> b \<in> set (stk s)"
  by (auto simp: PeekByteArray_def Let_def split: if_splits)

lemma keeps_bodies:
  "keeps (\<lambda>s. bindE (nipN i s) (\<lambda>(so, s). Inr (PushByteArray so s)))"
  "keeps (\<lambda>s. bindE (PeekByteArray i s) (\<lambda>so. Inr (PushByteArray so s)))"
  "keeps (\<lambda>s. bindE (PopByteArray s) (\<lambda>(_, s). Inr s))"
  by (auto simp: keeps_def dest!: nipN_set Peek_set PopByteArray_set)

lemma keeps_ops [simp]:
  "keeps (DropN n)" "keeps (DupN n)" "keeps (RotN n)" "keeps (SwapN n)" "keeps (OverN n)"
  "keeps (PickN n)" "keeps (RollN n)" "keeps (NipN n)" "keeps Tuck"
proof -
  have if_keeps: "keeps f \<Longrightarrow> keeps (\<lambda>s. if b then Inl e else f s)" for f b e by (auto simp: keeps_def)
  note k = keeps_bodies [THEN keeps_repeatE, THEN if_keeps]
  show "keeps (DropN n)" unfolding DropN_def [abs_def] Let_def by (rule k(3))
  show "keeps (DupN n)" unfolding DupN_def [abs_def] Let_def by (rule k(2))
  show "keeps (RotN n)" unfolding RotN_def [abs_def] Let_def by (rule k(1))
  show "keeps (SwapN n)" unfolding SwapN_def [abs_def] Let_def by (rule k(1))
  show "keeps (OverN n)" unfolding OverN_def [abs_def] Let_def by (rule k(2))
  show "keeps (PickN n)" unfolding PickN_def [abs_def] Let_def by (rule keeps_bodies(2))
  show "keeps (RollN n)" unfolding RollN_def [abs_def] Let_def by (rule keeps_bodies(1))
  show "keeps (NipN n)" by (auto simp: keeps_def NipN_def dest!: nipN_set)
  show "keeps Tuck" by (fastforce simp: keeps_def Tuck_def Let_def dest!: PopByteArray_set)
qed

lemma on_dstack_act: "act P vm v \<Longrightarrow> on_dstack f v = Inr vm' \<Longrightarrow> keeps f \<Longrightarrow> act P vm vm'"
  by (fastforce simp: on_dstack_def act_def same_run_def small_stacks_def keeps_def)

lemma dstack_small: "small_stacks vm \<Longrightarrow> PeekByteArray i (dstack vm) = Inr b \<Longrightarrow> length b \<le> MaxScriptElementSize"
  by (auto simp: small_stacks_def dest!: Peek_set)

lemma lastCodeSep_act: "act P vm v \<Longrightarrow> act P vm (v\<lparr>lastCodeSep := k\<rparr>)"
  by (simp add: act_def same_run_def small_stacks_def)

lemma condStack_act: "act P vm v \<Longrightarrow> act P vm (v\<lparr>condStack := c\<rparr>)"
  by (simp add: act_def same_run_def small_stacks_def)

lemmas act_intros = act_refl popBytes_act popBool_act popInt_act pushBytes_act pushBool_act pushInt_act
  on_dstack_act lastCodeSep_act condStack_act

lemma act_stacks:
  assumes "P \<longrightarrow> small_stacks vm"
  shows "opcodeToAltStack op vm = Inr vm' \<Longrightarrow> act P vm vm'" "opcodeFromAltStack op vm = Inr vm' \<Longrightarrow> act P vm vm'"
  using assms
  by (auto simp: opcodeToAltStack_def opcodeFromAltStack_def popBytes_def pushBytes_def Let_def act_def same_run_def
      small_stacks_def dest!: PopByteArray_set)

lemma abstractVerify_act: "act P vm v \<Longrightarrow> abstractVerify op v c = Inr vm' \<Longrightarrow> act P vm vm'"
  by (auto simp: abstractVerify_def intro: act_intros split: if_splits)

text \<open>Handlers by their shape: rearrangements, arithmetic on one, two or three numbers, the rest.\<close>

lemma rearrange_act:
  assumes "P \<longrightarrow> small_stacks vm" and "run_opfunc env f op vm = Inr vm'"
    and "f \<in> {Do_opcode2Drop, Do_opcode2Dup, Do_opcode3Dup, Do_opcode2Over, Do_opcode2Rot, Do_opcode2Swap,
      Do_opcodeDrop, Do_opcodeDup, Do_opcodeNip, Do_opcodeOver, Do_opcodeRot, Do_opcodeSwap, Do_opcodeTuck}"
  shows "act P vm vm'"
proof -
  have "\<exists>g. on_dstack g vm = Inr vm' \<and> keeps g" using assms(2,3) by (auto simp: handler_defs)
  then show ?thesis using on_dstack_act [OF act_refl [OF assms(1)]] by blast
qed

lemma pick_act:
  assumes "P \<longrightarrow> small_stacks vm" and "run_opfunc env f op vm = Inr vm'" and "f \<in> {Do_opcodePick, Do_opcodeRoll}"
  shows "act P vm vm'"
proof -
  obtain g n v where "popInt vm = Inr (n, v)" "on_dstack g v = Inr vm'" "keeps g"
    using assms(2,3) by (auto simp: handler_defs)
  then show ?thesis using popInt_act [OF act_refl [OF assms(1)]] on_dstack_act by blast
qed

lemma int64_values: "in_int64 1" "in_int64 0" "in_int64 (- 1)" "in_int64 (int (unat (b :: byte)))"
proof -
  have "unat b < 2 ^ 63" by (rule less_trans [OF unat_byte_less]) simp
  then show "in_int64 (int (unat b))" by (simp add: in_int64_def)
qed (simp_all add: in_int64_def)

lemma arith1_act:
  assumes "P \<longrightarrow> small_stacks vm" and "run_opfunc env f op vm = Inr vm'"
    and "f \<in> {Do_opcode1Add, Do_opcode1Sub, Do_opcodeNegate, Do_opcodeAbs, Do_opcodeNot, Do_opcode0NotEqual}"
  shows "act P vm vm'"
proof -
  have "\<exists>k n v. popInt vm = Inr (n, v) \<and> pushInt k v = Inr vm' \<and> (in_int64 n \<longrightarrow> in_int64 k)"
    using assms(2,3) by (auto simp: handler_defs int64_values) (auto simp: to_int64_in int64_values split: if_splits)
  then show ?thesis using popInt_act [OF act_refl [OF assms(1)]] popInt_int64 pushInt_act by blast
qed

lemma arith2_act:
  assumes "P \<longrightarrow> small_stacks vm" and "run_opfunc env f op vm = Inr vm'"
    and "f \<in> {Do_opcodeAdd, Do_opcodeSub, Do_opcodeBoolAnd, Do_opcodeBoolOr, Do_opcodeNumEqual, Do_opcodeNumNotEqual,
      Do_opcodeLessThan, Do_opcodeGreaterThan, Do_opcodeLessThanOrEqual, Do_opcodeGreaterThanOrEqual,
      Do_opcodeMin, Do_opcodeMax}"
  shows "act P vm vm'"
proof -
  have "\<exists>k n v m w. popInt vm = Inr (n, v) \<and> popInt v = Inr (m, w) \<and> pushInt k w = Inr vm' \<and>
      (in_int64 n \<longrightarrow> in_int64 m \<longrightarrow> in_int64 k)"
    using assms(2,3) by (auto simp: handler_defs int64_values) (auto simp: to_int64_in int64_values split: if_splits)
  then show ?thesis using popInt_act [OF act_refl [OF assms(1)]] popInt_act popInt_int64 pushInt_act by meson
qed

lemma flow_act:
  assumes "P \<longrightarrow> small_stacks vm" and "run_opfunc env f op vm = Inr vm'"
    and "f \<in> {Do_opcodeReserved, Do_opcodeNop, Do_opcodeIf, Do_opcodeNotIf, Do_opcodeElse, Do_opcodeEndif,
      Do_opcodeVerify, Do_opcodeReturn, Do_opcodeDisabled, Do_opcodeInvalid, Do_opcodeCodeSeparator,
      Do_opcodeCheckLockTimeVerify, Do_opcodeCheckSequenceVerify}"
  shows "act P vm vm'"
proof -
  note a = act_refl [OF assms(1)]
  show ?thesis using assms(2,3)
    by (auto simp: handler_defs Let_def intro!: condStack_act lastCodeSep_act split: if_splits)
      (use a popBool_act in blast)+
qed

lemma push_act:
  assumes "P \<longrightarrow> small_stacks vm" and "run_opfunc env f op vm = Inr vm'" and "P \<longrightarrow> Depth (dstack vm) \<le> MaxStackSize"
    and "P \<longrightarrow> f = Do_opcodePushData \<longrightarrow> length (data op) \<le> MaxScriptElementSize"
    and "f \<in> {Do_opcodeFalse, Do_opcodePushData, Do_opcode1Negate, Do_opcodeN, Do_opcodeToAltStack,
      Do_opcodeFromAltStack, Do_opcodeIfDup, Do_opcodeDepth, Do_opcodeSize}"
  shows "act P vm vm'"
proof -
  note a = act_refl [OF assms(1)]
  have d: "P \<longrightarrow> in_int64 (Depth (dstack vm))"
    using assms(3) by (auto simp: in_int64_def Depth_def MaxStackSize_def)
  have sz: "PeekByteArray 0 (dstack vm) = Inr so \<Longrightarrow> P \<longrightarrow> in_int64 (int (length so))" for so
    using dstack_small [of vm] assms(1) by (force simp: in_int64_def MaxScriptElementSize_def)
  have pushInt: "act P vm vm'" if "pushInt k vm = Inr vm'" "P \<longrightarrow> in_int64 k" for k using pushInt_act [OF a that(2,1)] .
  from assms(5) show ?thesis
  proof (elim insertE emptyE)
    assume "f = Do_opcodeFalse"
    then show ?thesis using assms(2) a by (auto simp: opcodeFalse_def intro!: pushBytes_act)
  next
    assume "f = Do_opcodePushData"
    then show ?thesis using assms(2,4) a by (auto simp: opcodePushData_def intro!: pushBytes_act)
  next
    assume "f = Do_opcode1Negate"
    then show ?thesis using assms(2) by (auto simp: opcode1Negate_def int64_values intro: pushInt)
  next
    assume "f = Do_opcodeN"
    then show ?thesis using assms(2) pushInt int64_values(4) by (simp add: opcodeN_def)
  next
    assume "f = Do_opcodeIfDup"
    then show ?thesis using assms(1,2) a dstack_small [of vm]
      by (auto simp: opcodeIfDup_def intro!: pushBytes_act split: if_splits)
  next
    assume "f = Do_opcodeDepth"
    then show ?thesis using assms(2) d by (auto simp: opcodeDepth_def intro: pushInt)
  next
    assume "f = Do_opcodeSize"
    then show ?thesis using assms(2) sz by (auto simp: opcodeSize_def intro: pushInt)
  qed (use assms(2) act_stacks [OF assms(1)] in auto)
qed

lemma compare_act:
  assumes "P \<longrightarrow> small_stacks vm" and "run_opfunc env f op vm = Inr vm'"
    and "f \<in> {Do_opcodeEqual, Do_opcodeEqualVerify, Do_opcodeNumEqualVerify, Do_opcodeWithin}"
  shows "act P vm vm'"
proof -
  note a = act_refl [OF assms(1)]
  have eq: "act P vm v" if "opcodeEqual op vm = Inr v" for v
    using that a popBytes_act by (auto simp: opcodeEqual_def intro!: pushBool_act) blast
  have num: "act P vm v" if "opcodeNumEqual op vm = Inr v" for v
    using arith2_act [OF assms(1), of env Do_opcodeNumEqual op v] that by simp
  have within: "act P vm v" if w: "opcodeWithin op vm = Inr v" for v
  proof -
    obtain i v1 j v2 l v3 where p: "popInt vm = Inr (i, v1)" "popInt v1 = Inr (j, v2)" "popInt v2 = Inr (l, v3)"
      and k: "pushInt (if l \<ge> j \<and> l < i then 1 else 0) v3 = Inr v"
      using w by (auto simp: opcodeWithin_def)
    have "in_int64 (if l \<ge> j \<and> l < i then 1 else 0)" by (simp add: int64_values)
    with p k show ?thesis using a popInt_act pushInt_act by meson
  qed
  show ?thesis using assms(2,3) eq num within abstractVerify_act
    by (auto simp: opcodeEqualVerify_def opcodeNumEqualVerify_def)
qed

section \<open>The handlers with parameters\<close>

text \<open>What the engine relies on of the hash functions: digests fit on the stack.\<close>

definition digests_ok :: "vmenv \<Rightarrow> bool" where
  "digests_ok env \<longleftrightarrow> (\<forall>b. length (sha256 env b) = 32 \<and> length (ripemd160 env b) = 20 \<and> length (sha1 env b) = 20)"

lemma hash_act:
  assumes "P \<longrightarrow> small_stacks vm" and "P \<longrightarrow> digests_ok env"
    and "f \<in> {Do_opcodeRipemd160, Do_opcodeSha1, Do_opcodeSha256, Do_opcodeHash160, Do_opcodeHash256}"
    and "run_opfunc env f op vm = Inr vm'"
  shows "act P vm vm'"
proof -
  obtain b v where p: "popBytes vm = Inr (b, v)" and vm': "vm' \<in> (\<lambda>d. pushBytes d v) ` {ripemd160 env b, sha1 env b,
      sha256 env b, ripemd160 env (sha256 env b), DoubleHashB env b}"
    using assms(3,4) by (auto simp: handler_defs)
  have "act P vm v" using popBytes_act [OF act_refl [OF assms(1)] p] .
  moreover have "P \<longrightarrow> length d \<le> MaxScriptElementSize"
    if "d \<in> {ripemd160 env b, sha1 env b, sha256 env b, ripemd160 env (sha256 env b), DoubleHashB env b}" for d
    using assms(2) that by (auto simp: digests_ok_def DoubleHashB_def MaxScriptElementSize_def)
  ultimately show ?thesis using vm' pushBytes_act by blast
qed

lemma verify_cached_frame: "verify_cached env h sig pk v = (b, vm') \<Longrightarrow> \<exists>sc. vm' = v\<lparr>sigCache := sc\<rparr>"
proof -
  have id: "\<exists>sc. v = v\<lparr>sigCache := sc\<rparr>" by (rule exI [of _ "sigCache v"]) simp
  then show "verify_cached env h sig pk v = (b, vm') \<Longrightarrow> \<exists>sc. vm' = v\<lparr>sigCache := sc\<rparr>"
    by (auto simp: verify_cached_def Let_def split: option.splits if_splits)
qed

lemma sigCache_act [simp]: "act P vm (v\<lparr>sigCache := sc\<rparr>) = act P vm v"
  by (simp add: act_def same_run_def small_stacks_def)

lemma opcodeCheckSig_act:
  assumes "P \<longrightarrow> small_stacks vm" and "opcodeCheckSig env op vm = Inr vm'"
  shows "act P vm vm'"
proof -
  obtain a v b v' where "popBytes vm = Inr (a, v)" "popBytes v = Inr (b, v')"
    using assms(2) by (auto simp: opcodeCheckSig_def)
  moreover from this have "act P vm v'" using act_refl [OF assms(1)] by (blast intro: popBytes_act)
  ultimately show ?thesis using assms(2)
    by (auto simp: opcodeCheckSig_def Let_def intro!: pushBool_act dest!: verify_cached_frame
        split: if_splits option.splits prod.splits)
qed

lemma pop_lists_act:
  "act P vm v \<Longrightarrow> popN n v = Inr (bs, vm') \<Longrightarrow> act P vm vm'"
  "act P vm v \<Longrightarrow> popKeyHashes n v = Inr (bs, vm') \<Longrightarrow> act P vm vm'"
  "act P vm v \<Longrightarrow> popSafeSigs n v = Inr (sigs, vm') \<Longrightarrow> act P vm vm'"
proof -
  show "act P vm v \<Longrightarrow> popN n v = Inr (bs, vm') \<Longrightarrow> act P vm vm'"
    by (induction n arbitrary: v bs) (auto dest: popBytes_act)
  show "act P vm v \<Longrightarrow> popKeyHashes n v = Inr (bs, vm') \<Longrightarrow> act P vm vm'"
    by (induction n arbitrary: v bs) (auto split: if_splits, blast intro: popBytes_act)
  show "act P vm v \<Longrightarrow> popSafeSigs n v = Inr (sigs, vm') \<Longrightarrow> act P vm vm'"
    by (induction n arbitrary: v sigs) (auto, blast intro: popBytes_act)
qed

lemma multi_step_act:
  "act P vm (st_vm st) \<Longrightarrow> multi_step env scr pk st = Inr st' \<Longrightarrow> act P vm (st_vm st')"
  by (auto simp: multi_step_def Let_def dest!: verify_cached_frame split: if_splits option.splits prod.splits)

lemma multi_loop_act:
  "act P vm (st_vm st) \<Longrightarrow> multi_loop env scr pks n i st = Inr (b, st') \<Longrightarrow> act P vm (st_vm st')"
proof (induction env scr pks n i st rule: multi_loop.induct)
  case (1 env scr pks n i st)
  then show ?case
    by (subst (asm) (2) multi_loop.simps) (auto simp: Let_def split: if_splits dest: multi_step_act)
qed

lemma safe_step_act:
  assumes "act P vm (st_vm st)"
  shows "safe_step env kh st = Inr (Continue st') \<Longrightarrow> act P vm (st_vm st')"
    and "safe_step env kh st = Inr (Break st') \<Longrightarrow> act P vm (st_vm st')"
  using assms
  by (auto simp: safe_step_def Let_def dest!: verify_cached_frame split: if_splits option.splits prod.splits)

lemma safe_loop_act:
  assumes "safe_loop env kh st = Some (Inr (b, st'))" and "act P vm (st_vm st)"
  shows "act P vm (st_vm st')"
proof -
  have "\<forall>b st'. r = Inr (b, st') \<longrightarrow> act P vm (st_vm st) \<longrightarrow> act P vm (st_vm st')"
    if "safe_loop env kh st = Some r" for r
    by (rule safe_loop.raw_induct
          [where P = "\<lambda>env kh st r. \<forall>b st'. r = Inr (b, st') \<longrightarrow> act P vm (st_vm st) \<longrightarrow> act P vm (st_vm st')", OF _ that])
      (fastforce split: if_splits sum.splits loop_ctl.splits dest: safe_step_act)
  with assms show ?thesis by blast
qed

text \<open>A whole handler: it may count operations, up to the limit.\<close>

definition hstep :: "bool \<Rightarrow> Engine \<Rightarrow> Engine \<Rightarrow> bool" where
  "hstep P vm vm' \<longleftrightarrow> same_run vm vm' \<and> (P \<longrightarrow> small_stacks vm') \<and> numOps vm \<le> numOps vm' \<and>
     (numOps vm' = numOps vm \<or> numOps vm' \<le> MaxOpsPerScript)"

lemma act_hstep: "act P vm vm' \<Longrightarrow> hstep P vm vm'"
  by (simp add: act_def hstep_def)

lemma hstep_numOps:
  assumes "act P vm v" and "0 \<le> n" and "numOps v + n \<le> MaxOpsPerScript" and "act P (v\<lparr>numOps := numOps v + n\<rparr>) vm'"
  shows "hstep P vm vm'"
  using assms by (simp add: act_def hstep_def same_run_def)

lemma act_numOps_refl: "act P vm v \<Longrightarrow> act P (v\<lparr>numOps := k\<rparr>) (v\<lparr>numOps := k\<rparr>)"
  by (simp add: act_def same_run_def small_stacks_def)

lemma opcodeCheckSafeMultiSig_hstep:
  assumes "P \<longrightarrow> small_stacks vm" and "opcodeCheckSafeMultiSig env op vm = Inr vm'"
  shows "hstep P vm vm'"
proof -
  obtain k v where pop: "popInt vm = Inr (k, v)" using assms(2) by (auto simp: opcodeCheckSafeMultiSig_def)
  let ?n = "scriptNum_Int32 k" and ?v = "v\<lparr>numOps := numOps v + scriptNum_Int32 k\<rparr>"
  have act: "act P vm v" using pop act_refl [OF assms(1)] by (blast intro: popInt_act)
  have n: "0 \<le> ?n" "numOps v + ?n \<le> MaxOpsPerScript"
    and rest: "\<exists>kh w. popKeyHashes (nat ?n) ?v = Inr (kh, w) \<and> (\<exists>m w'. popInt w = Inr (m, w') \<and>
      (\<exists>i sigs w''. popSafeSigs i w' = Inr (sigs, w'') \<and> (\<exists>b st. safe_loop env kh (safe_init w'' sigs) = Some (Inr (b, st)) \<and>
         vm' = pushBool b (st_vm st))))"
    using assms(2) pop
    by (auto simp: opcodeCheckSafeMultiSig_def Let_def split: if_splits option.splits) blast+
  then obtain kh w m w' i sigs w'' b st where p: "popKeyHashes (nat ?n) ?v = Inr (kh, w)" "popInt w = Inr (m, w')"
    "popSafeSigs i w' = Inr (sigs, w'')" and l: "safe_loop env kh (safe_init w'' sigs) = Some (Inr (b, st))"
    "vm' = pushBool b (st_vm st)" by blast
  have "act P ?v w''" using p act_numOps_refl [OF act] pop_lists_act popInt_act by meson
  then have "act P ?v (st_vm st)" using safe_loop_act [OF l(1)] by (simp add: safe_init_def)
  then show ?thesis using hstep_numOps [OF act n] l(2) pushBool_act by blast
qed

lemma opcodeCheckMultiSig_hstep:
  assumes "P \<longrightarrow> small_stacks vm" and "opcodeCheckMultiSig env op vm = Inr vm'"
  shows "hstep P vm vm'"
proof -
  obtain k v where pop: "popInt vm = Inr (k, v)" using assms(2) by (auto simp: opcodeCheckMultiSig_def)
  let ?n = "scriptNum_Int32 k" and ?v = "v\<lparr>numOps := numOps v + scriptNum_Int32 k\<rparr>"
  have act: "act P vm v" using pop act_refl [OF assms(1)] by (blast intro: popInt_act)
  have n: "0 \<le> ?n" "numOps v + ?n \<le> MaxOpsPerScript"
    and rest: "\<exists>pks w. popN (nat ?n) ?v = Inr (pks, w) \<and> (\<exists>m w'. popInt w = Inr (m, w') \<and>
      (\<exists>i sigs w''. popN i w' = Inr (sigs, w'') \<and> (\<exists>dummy x. popBytes w'' = Inr (dummy, x) \<and>
        (\<exists>scr j st b st'. multi_loop env scr pks j 0 st = Inr (b, st') \<and> st_vm st = x \<and> vm' = pushBool b (st_vm st')))))"
    using assms(2) pop by (auto simp: opcodeCheckMultiSig_def Let_def split: if_splits) (metis sigs_state.select_convs(1))+
  then obtain pks w m w' i sigs w'' dummy x scr j st b st' where p: "popN (nat ?n) ?v = Inr (pks, w)" "popInt w = Inr (m, w')"
    "popN i w' = Inr (sigs, w'')" "popBytes w'' = Inr (dummy, x)"
    and l: "multi_loop env scr pks j 0 st = Inr (b, st')" "st_vm st = x" "vm' = pushBool b (st_vm st')" by blast
  have "act P ?v x" using p act_numOps_refl [OF act] pop_lists_act popInt_act popBytes_act by meson
  then have "act P ?v (st_vm st')" using multi_loop_act l by blast
  then show ?thesis using hstep_numOps [OF act n] l(3) pushBool_act by blast
qed

lemma abstractVerify_hstep: "hstep P vm v \<Longrightarrow> abstractVerify op v c = Inr vm' \<Longrightarrow> hstep P vm vm'"
  using abstractVerify_act [of P v v op c vm'] act_refl [of P v] by (auto simp: hstep_def act_def same_run_def)

lemma run_opfunc_hstep:
  assumes "P \<longrightarrow> small_stacks vm" and "P \<longrightarrow> Depth (dstack vm) \<le> MaxStackSize"
    and "P \<longrightarrow> f = Do_opcodePushData \<longrightarrow> length (data op) \<le> MaxScriptElementSize" and "P \<longrightarrow> digests_ok env" and "run_opfunc env f op vm = Inr vm'"
  shows "hstep P vm vm'"
proof -
  note act_lemmas = rearrange_act pick_act arith1_act arith2_act flow_act compare_act
  have verify: "act P vm vm'" if "f = Do_opcodeCheckSig \<or> f = Do_opcodeCheckSigVerify"
    using that assms(5) opcodeCheckSig_act [OF assms(1)]
    by (auto simp: opcodeCheckSigVerify_def) (metis abstractVerify_act)
  have multi: "hstep P vm vm'"
    if "f = Do_opcodeCheckMultiSig \<or> f = Do_opcodeCheckMultiSigVerify \<or> f = Do_opcodeCheckSafeMultiSig"
    using that assms(5) opcodeCheckMultiSig_hstep [OF assms(1)] opcodeCheckSafeMultiSig_hstep [OF assms(1)]
    by (auto simp: opcodeCheckMultiSigVerify_def) (metis abstractVerify_hstep)
  show ?thesis
  proof (cases "f = Do_opcodeCheckMultiSig \<or> f = Do_opcodeCheckMultiSigVerify \<or> f = Do_opcodeCheckSafeMultiSig")
    case True
    then show ?thesis by (rule multi)
  next
    case False
    note l = act_lemmas [OF assms(1,5)] push_act [OF assms(1,5,2,3)] hash_act [OF assms(1,4) _ assms(5)] verify
    from False have "act P vm vm'" by (cases f) (rule l; force)+
    then show ?thesis by (rule act_hstep)
  qed
qed

section \<open>Which handlers return\<close>

lemma num_returns [simp]:
  "makeScriptNum v m k \<noteq> Inl NoReturn" "scriptNum_Bytes n \<noteq> Inl NoReturn"
  by (auto simp: makeScriptNum_def checkMinimalDataEncoding_def scriptNum_Bytes_def Let_def bindE_eq_Inl idxE_def split: if_splits)

lemma stack_returns [simp]:
  "nipN i s \<noteq> Inl NoReturn" "PopByteArray s \<noteq> Inl NoReturn" "PeekByteArray i s \<noteq> Inl NoReturn"
  by (auto simp: nipN_def PopByteArray_def PeekByteArray_def Let_def split: if_splits)

lemma repeatE_returns: "(\<And>s. f s \<noteq> Inl NoReturn) \<Longrightarrow> repeatE n f s \<noteq> Inl NoReturn"
  by (induction n arbitrary: s) (auto simp: bindE_eq_Inl)

lemma rearrange_returns [simp]:
  "DropN n s \<noteq> Inl NoReturn" "DupN n s \<noteq> Inl NoReturn" "RotN n s \<noteq> Inl NoReturn" "SwapN n s \<noteq> Inl NoReturn"
  "OverN n s \<noteq> Inl NoReturn" "PickN n s \<noteq> Inl NoReturn" "RollN n s \<noteq> Inl NoReturn" "NipN n s \<noteq> Inl NoReturn"
  "Tuck s \<noteq> Inl NoReturn"
  by (auto simp: DropN_def DupN_def RotN_def SwapN_def OverN_def PickN_def RollN_def NipN_def Tuck_def Let_def bindE_eq_Inl
      intro!: repeatE_returns)

lemma pops_return [simp]:
  "popBytes vm \<noteq> Inl NoReturn" "popInt vm \<noteq> Inl NoReturn" "popBool vm \<noteq> Inl NoReturn" "pushInt n vm \<noteq> Inl NoReturn"
  by (auto simp: popBytes_def popInt_def popBool_def PopInt_def PopBool_def pushInt_def PushInt_def on_dstack_def bindE_eq_Inl)

lemma on_dstack_returns: "(\<And>s. g s \<noteq> Inl NoReturn) \<Longrightarrow> on_dstack g vm \<noteq> Inl NoReturn"
  by (auto simp: on_dstack_def bindE_eq_Inl)

lemma pop_lists_return [simp]: "popN n vm \<noteq> Inl NoReturn" "popKeyHashes n vm \<noteq> Inl NoReturn"
proof -
  show "popN n vm \<noteq> Inl NoReturn" by (induction n arbitrary: vm) (auto simp: bindE_eq_Inl)
  show "popKeyHashes n vm \<noteq> Inl NoReturn" by (induction n arbitrary: vm) (auto simp: bindE_eq_Inl split: if_splits)
qed

lemma calcSignatureHash_returns [simp]: "calcSignatureHash env scr ht tx idx \<noteq> Inl NoReturn"
  by (auto simp: calcSignatureHash_def Let_def bindE_eq_Inl)

lemma ops_return:
  assumes "f \<notin> {Do_opcodeCheckSig, Do_opcodeCheckSigVerify, Do_opcodeCheckMultiSig, Do_opcodeCheckMultiSigVerify,
      Do_opcodeCheckSafeMultiSig}"
  shows "run_opfunc env f op vm \<noteq> Inl NoReturn"
  using assms
  by (cases f) (auto simp: handler_defs Let_def bindE_eq_Inl verifyLockTime_def idxE_def split: if_splits
      dest: on_dstack_returns [THEN notE, rotated])

lemma or_nil_ParsePubKey_returns [simp]: "or_nil (ParsePubKey b) \<noteq> Inl NoReturn"
  by simp

lemma parse_once_returns [simp]: "parse_once vm si \<noteq> Inl NoReturn"
  by (auto simp: parse_once_def Let_def bindE_eq_Inl split: if_splits)

lemma multi_step_returns [simp]: "multi_step env scr pk st \<noteq> Inl NoReturn"
  by (auto simp: multi_step_def Let_def bindE_eq_Inl idxE_def split: if_splits option.splits prod.splits)

lemma multi_loop_returns [simp]: "multi_loop env scr pks n i st \<noteq> Inl NoReturn"
proof (induction env scr pks n i st rule: multi_loop.induct)
  case (1 env scr pks n i st)
  then show ?case
    by (subst multi_loop.simps) (auto simp: Let_def bindE_eq_Inl idxE_def split: if_splits)
qed

lemma abstractVerify_returns [simp]: "abstractVerify op vm c \<noteq> Inl NoReturn"
  by (auto simp: abstractVerify_def bindE_eq_Inl split: if_splits)

lemma sig_ops_return [simp]:
  "opcodeCheckSig env op vm \<noteq> Inl NoReturn" "opcodeCheckMultiSig env op vm \<noteq> Inl NoReturn"
  by (auto simp: opcodeCheckSig_def opcodeCheckMultiSig_def Let_def bindE_eq_Inl split: if_splits option.splits prod.splits)

lemma run_opfunc_returns: "f \<noteq> Do_opcodeCheckSafeMultiSig \<Longrightarrow> run_opfunc env f op vm \<noteq> Inl NoReturn"
  using ops_return [of f env op vm]
  by (cases f) (auto simp: opcodeCheckSigVerify_def opcodeCheckMultiSigVerify_def bindE_eq_Inl)

section \<open>The engine invariant\<close>

definition engine_inv :: "Engine \<Rightarrow> bool" where
  "engine_inv vm \<longleftrightarrow> small_stacks vm \<and> Depth (dstack vm) + Depth (astack vm) \<le> MaxStackSize \<and>
     0 \<le> numOps vm \<and> numOps vm \<le> MaxOpsPerScript \<and>
     (\<forall>x \<in> set (savedFirstStack vm). length x \<le> MaxScriptElementSize) \<and>
     int (length (savedFirstStack vm)) \<le> MaxStackSize"

lemma push_data_opcode:
  assumes "op_func (op_info b) = Do_opcodePushData"
  shows "b \<le> OP_16"
proof (rule ccontr)
  have *: "list_all (\<lambda>o'. op_func o' \<noteq> Do_opcodePushData) (drop 97 opcodeArray)" by code_simp
  assume "\<not> b \<le> OP_16"
  then have "97 \<le> unat b" by (simp add: word_le_nat_alt)
  moreover have "length opcodeArray = 256" by code_simp
  ultimately have "op_info b \<in> set (drop 97 opcodeArray)"
    unfolding op_info_def in_set_conv_nth by (intro exI [of _ "unat b - 97"]) (auto, use unat_byte_less [of b] in linarith)
  with * assms show False by (auto simp: list_all_iff)
qed

lemma executeOpcode_hstep:
  assumes inv: "P \<longrightarrow> engine_inv vm \<and> digests_ok env" and ex: "executeOpcode env pop vm = Inr vm'"
  shows "same_run vm vm' \<and> (P \<longrightarrow> small_stacks vm' \<and> 0 \<le> numOps vm' \<and> numOps vm' \<le> MaxOpsPerScript)"
proof -
  define v where "v = (if opcode pop > OP_16 then vm\<lparr>numOps := numOps vm + 1\<rparr> else vm)"
  have v: "v = vm \<or> v = vm\<lparr>numOps := numOps vm + 1\<rparr>" "P \<longrightarrow> numOps v \<le> MaxOpsPerScript" "P \<longrightarrow> 0 \<le> numOps v"
    and len: "opcode pop \<le> OP_16 \<Longrightarrow> length (data pop) \<le> MaxScriptElementSize"
    using ex inv by (auto simp: executeOpcode_def Let_def engine_inv_def v_def split: if_splits)
  have run: "vm' = v \<or> run_opfunc env (op_func (op_info (opcode pop))) pop v = Inr vm'"
    using ex by (auto simp: executeOpcode_def Let_def v_def split: if_splits)
  have small: "P \<longrightarrow> small_stacks v" "P \<longrightarrow> Depth (dstack v) \<le> MaxStackSize" "same_run vm v"
    using v(1) inv by (auto simp: engine_inv_def small_stacks_def same_run_def Depth_def)
  have dig: "P \<longrightarrow> digests_ok env" using inv by simp
  from run have "hstep P v vm'"
  proof
    assume "vm' = v"
    then show ?thesis using small act_hstep act_refl by blast
  next
    assume r: "run_opfunc env (op_func (op_info (opcode pop))) pop v = Inr vm'"
    show ?thesis by (rule run_opfunc_hstep [OF small(1,2) _ dig r]) (use len push_data_opcode in blast)
  qed
  with v small show ?thesis by (auto simp: hstep_def same_run_def)
qed

section \<open>Execution\<close>

text \<open>
  What decreases from step to step: the pay-to-script-hash script still to be added, the
  scripts left, the opcodes left in the current script.
\<close>

definition redeem_left :: "Engine \<Rightarrow> nat" where
  "redeem_left vm = (if vm_bip16 vm \<and> scriptIdx vm \<le> 1 then 1 else 0)"

definition scripts_left :: "Engine \<Rightarrow> nat" where
  "scripts_left vm = length (vm_scripts vm) - scriptIdx vm"

definition opcodes_left :: "Engine \<Rightarrow> nat" where
  "opcodes_left vm = length (vm_scripts vm ! scriptIdx vm) - scriptOff vm"

abbreviation progress :: "(Engine \<times> Engine) set" where
  "progress \<equiv> measures [redeem_left, scripts_left, opcodes_left]"

lemma popBool_frame: "popBool vm = Inr (b, vm') \<Longrightarrow> \<exists>s. vm' = vm\<lparr>dstack := s\<rparr>"
  by (auto simp: popBool_def)

lemma run_redeem_frame:
  "run_redeem vm = Inr vm' \<Longrightarrow> scriptIdx vm' = scriptIdx vm + 1 \<and> vm_bip16 vm' = vm_bip16 vm \<and> scriptOff vm' = scriptOff vm"
  by (auto simp: run_redeem_def Let_def CheckErrorCondition_def SetStack_def dest!: popBool_frame split: if_splits)

lemma next_script_progress:
  assumes "next_script vm = Inr (done, vm')" and "scriptIdx vm < length (vm_scripts vm)"
  shows "(vm', vm) \<in> progress"
proof -
  let ?v = "vm\<lparr>astack := (case DropN (Depth (astack vm)) (astack vm) of Inr s \<Rightarrow> s | Inl _ \<Rightarrow> astack vm),
                  numOps := 0, scriptOff := 0\<rparr>"
  show ?thesis
  proof (cases "scriptIdx vm = 1 \<and> vm_bip16 vm")
    case True
    then obtain v where "run_redeem ?v = Inr v" and "scriptIdx v \<le> scriptIdx vm'" "vm_bip16 vm' = vm_bip16 v"
      using assms(1) by (auto simp: next_script_def advance_def Let_def split: if_splits)
    with True run_redeem_frame [of ?v v] show ?thesis by (auto simp: redeem_left_def)
  next
    case False
    then have "vm_scripts vm' = vm_scripts vm" "vm_bip16 vm' = vm_bip16 vm" "scriptIdx vm < scriptIdx vm'"
      using assms(1) by (auto simp: next_script_def advance_def Let_def split: if_splits)
    then show ?thesis using assms(2) by (auto simp: redeem_left_def scripts_left_def)
  qed
qed

lemma Step_progress:
  assumes "Step env vm = Inr (done, vm')"
  shows "(vm', vm) \<in> progress"
proof -
  obtain v where pc: "validPC vm = Inr ()"
    and ex: "executeOpcode env (vm_scripts vm ! scriptIdx vm ! scriptOff vm) vm = Inr v"
    using assms by (auto simp: Step_def)
  have same: "same_run vm v" using executeOpcode_hstep [of False, OF _ ex] by simp
  have lt: "scriptIdx vm < length (vm_scripts vm)" "scriptOff vm < length (vm_scripts vm ! scriptIdx vm)"
    using pc by (auto simp: validPC_def split: if_splits)
  let ?v = "v\<lparr>scriptOff := scriptOff v + 1\<rparr>"
  have step: "(?v, vm) \<in> progress"
    using same lt by (simp add: redeem_left_def scripts_left_def opcodes_left_def same_run_def)
  consider "vm' = ?v" | "next_script ?v = Inr (done, vm')"
    using assms pc ex by (auto simp: Step_def Let_def split: if_splits)
  then show ?thesis
  proof cases
    case 2
    then have "(vm', ?v) \<in> progress" by (rule next_script_progress) (use lt same in \<open>simp add: same_run_def\<close>)
    with step show ?thesis by auto
  qed (use step in simp)
qed

function run_steps :: "vmenv \<Rightarrow> Engine \<Rightarrow> Engine res" where
  "run_steps env vm = bindE (Step env vm) (\<lambda>(done, vm'). if done then Inr vm' else run_steps env vm')"
  by pat_completeness auto
termination
  by (relation "inv_image progress snd") (auto dest: Step_progress)

declare run_steps.simps [simp del]

definition Execute :: "vmenv \<Rightarrow> Engine \<Rightarrow> Engine res" where
  "Execute env vm = bindE (run_steps env vm) (CheckErrorCondition True)"

text \<open>The parts of \<open>NewEngine\<close>: the zero engine, the parsed scripts, the final settings.\<close>

definition new_vm :: "ScriptFlags \<Rightarrow> SigCache option \<Rightarrow> TxSigHashes option \<Rightarrow> int \<Rightarrow> Engine" where
  "new_vm flags cache hashes amount =
     (let empty = \<lparr>stk = [], verifyMinimalData = False\<rparr>
      in \<lparr>vm_scripts = [], scriptIdx = 0, scriptOff = 0, lastCodeSep = 0, dstack = empty, astack = empty,
          vm_tx = NewMsgTx 0, txIdx = 0, condStack = [], numOps = 0, vm_flags = flags, sigCache = cache,
          hashCache = hashes, vm_bip16 = False, savedFirstStack = [], inputAmount = amount\<rparr>)"

definition parse_scripts :: "bytes list \<Rightarrow> parsedOpcode list list res" where
  "parse_scripts scrs =
     foldE (\<lambda>parsed scr.
       if length scr > MaxScriptSize then Inl (ScriptErr ErrScriptTooBig)
       else bindE (parseScript scr) (\<lambda>pops. Inr (parsed @ [pops]))) [] scrs"

definition setup_vm :: "MsgTx \<Rightarrow> nat \<Rightarrow> bytes \<Rightarrow> parsedOpcode list list \<Rightarrow> Engine \<Rightarrow> Engine res" where
  "setup_vm tx idx scriptSig parsed vm =
     (let vm = vm\<lparr>vm_scripts := parsed\<rparr>;
          vm = (if length scriptSig = 0 then vm\<lparr>scriptIdx := scriptIdx vm + 1\<rparr> else vm)
      in bindE
           (if hasFlag ScriptBip16 vm \<and> isScriptHash (parsed ! 1) then
              (if \<not> isPushOnly (parsed ! 0) then Inl (ScriptErr ErrNotPushOnly) else Inr (vm\<lparr>vm_bip16 := True\<rparr>))
            else Inr vm)
           (\<lambda>vm.
              let vm = (if hasFlag ScriptVerifyMinimalData vm
                        then vm\<lparr>dstack := (dstack vm)\<lparr>verifyMinimalData := True\<rparr>,
                                astack := (astack vm)\<lparr>verifyMinimalData := True\<rparr>\<rparr> else vm)
              in Inr (vm\<lparr>vm_tx := tx, txIdx := idx\<rparr>)))"

definition NewEngine ::
  "bytes \<Rightarrow> MsgTx \<Rightarrow> int \<Rightarrow> ScriptFlags \<Rightarrow> SigCache option \<Rightarrow> TxSigHashes option \<Rightarrow> int \<Rightarrow> Engine res" where
  "NewEngine scriptPubKey tx idx flags cache hashes amount =
     (if idx < 0 \<or> idx \<ge> int (length (TxIn tx)) then Inl (ScriptErr ErrInvalidIndex)
      else
        let scriptSig = SignatureScript (TxIn tx ! nat idx)
        in if length scriptSig = 0 \<and> length scriptPubKey = 0 then Inl (ScriptErr ErrEvalFalse)
           else
             let vm = new_vm flags cache hashes amount
             in if hasFlag ScriptVerifyCleanStack vm \<and> \<not> hasFlag ScriptBip16 vm then Inl (ScriptErr ErrInvalidFlags)
                else if hasFlag ScriptVerifySigPushOnly vm \<and> \<not> IsPushOnlyScript scriptSig then Inl (ScriptErr ErrNotPushOnly)
                else bindE (parse_scripts [scriptSig, scriptPubKey]) (\<lambda>parsed. setup_vm tx (nat idx) scriptSig parsed vm))"

section \<open>Reachable states\<close>

text \<open>The states that a run passes through.\<close>

inductive reaches :: "vmenv \<Rightarrow> Engine \<Rightarrow> Engine \<Rightarrow> bool" for env vm where
  start: "reaches env vm vm"
| step: "reaches env vm v \<Longrightarrow> Step env v = Inr (done, v') \<Longrightarrow> reaches env vm v'"

lemma reaches_first: "Step env vm = Inr (done, v) \<Longrightarrow> reaches env v w \<Longrightarrow> reaches env vm w"
  by (rotate_tac 1, induction rule: reaches.induct) (auto intro: reaches.intros)

lemma DropN_all: "(case DropN (Depth s) s of Inr s' \<Rightarrow> s' | Inl _ \<Rightarrow> s) = s\<lparr>stk := []\<rparr>"
proof (cases "stk s = []")
  case True
  then show ?thesis by (cases s) (simp add: DropN_def Depth_def)
next
  case False
  then show ?thesis using DropN_segment [of s "[]" "stk s"] by (simp add: Depth_def)
qed

lemma setStack_eq: "setStack d s = s\<lparr>stk := d\<rparr>"
proof -
  have "foldl (\<lambda>s b. PushByteArray b s) s d = s\<lparr>stk := stk s @ d\<rparr>" for s
    by (induction d arbitrary: s) (auto simp: PushByteArray_def)
  then show ?thesis by (simp add: setStack_def DropN_all)
qed

lemma getStack_eq: "getStack s = stk s"
proof -
  let ?n = "length (stk s)"
  have "map (\<lambda>i. case PeekByteArray (int i) s of Inr b \<Rightarrow> b | Inl _ \<Rightarrow> []) [0 ..< ?n] = rev (stk s)"
    by (rule nth_equalityI) (auto simp: PeekByteArray_def Let_def rev_nth nat_diff_distrib)
  then show ?thesis by (simp add: getStack_def Depth_def)
qed

lemma CheckErrorCondition_frame:
  "CheckErrorCondition b vm = Inr v \<Longrightarrow> \<exists>x xs. stk (dstack vm) = xs @ [x] \<and> asBool x \<and> v = vm\<lparr>dstack := (dstack vm)\<lparr>stk := xs\<rparr>\<rparr>"
  by (auto simp: CheckErrorCondition_def popBool_def PopBool_def Pop_eq split: if_splits)
    (metis append_butlast_last_id)+

lemma run_redeem_inv:
  assumes "engine_inv vm" and "stk (astack vm) = []" and "run_redeem vm = Inr vm'"
  shows "engine_inv vm'"
proof -
  let ?saved = "savedFirstStack vm"
  obtain v scr where v: "CheckErrorCondition False (vm\<lparr>scriptIdx := scriptIdx vm + 1\<rparr>) = Inr v"
    and vm': "vm' = SetStack (take (length ?saved - 1) ?saved) (v\<lparr>vm_scripts := scr\<rparr>)"
    using assms(3) by (fastforce simp: run_redeem_def Let_def dest: CheckErrorCondition_frame split: if_splits)
  from CheckErrorCondition_frame [OF v] assms vm' show ?thesis
    by (auto simp: engine_inv_def small_stacks_def SetStack_def setStack_eq Depth_def dest: in_set_takeD)
qed

lemma next_script_inv:
  assumes "engine_inv vm" and "next_script vm = Inr (done, vm')"
  shows "engine_inv vm'"
proof -
  define v where "v = vm\<lparr>astack := (astack vm)\<lparr>stk := []\<rparr>, numOps := 0, scriptOff := 0\<rparr>"
  have inv: "engine_inv v" "stk (astack v) = []"
    using assms(1) by (auto simp: engine_inv_def v_def small_stacks_def Depth_def MaxOpsPerScript_def)
  have upd: "engine_inv (w\<lparr>scriptIdx := i\<rparr>) = engine_inv w" "engine_inv (w\<lparr>lastCodeSep := j\<rparr>) = engine_inv w" for w i j
    by (simp_all add: engine_inv_def small_stacks_def)
  obtain w where w: "advance v = Inr w"
    and vm': "vm' = w\<lparr>lastCodeSep := 0\<rparr> \<or> vm' = w\<lparr>scriptIdx := scriptIdx w + 1, lastCodeSep := 0\<rparr>"
    using assms(2) unfolding next_script_def DropN_all v_def [symmetric] Let_def by (auto split: if_splits)
  consider "w = v\<lparr>scriptIdx := scriptIdx v + 1, savedFirstStack := stk (dstack v)\<rparr>" | "run_redeem v = Inr w"
    | "w = v\<lparr>scriptIdx := scriptIdx v + 1\<rparr>"
    using w by (auto simp: advance_def Let_def GetStack_def getStack_eq split: if_splits)
  then have "engine_inv w"
  proof cases
    case 1
    with inv show ?thesis by (auto simp: engine_inv_def small_stacks_def Depth_def)
  qed (use inv run_redeem_inv upd in auto)
  with vm' show ?thesis by (auto simp: upd)
qed

lemma Step_inv:
  assumes "engine_inv vm" and "digests_ok env" and "Step env vm = Inr (done, vm')"
  shows "engine_inv vm'"
proof -
  obtain v where pc: "validPC vm = Inr ()"
    and ex: "executeOpcode env (vm_scripts vm ! scriptIdx vm ! scriptOff vm) vm = Inr v"
    using assms(3) by (auto simp: Step_def)
  have d: "Depth (dstack v) + Depth (astack v) \<le> MaxStackSize"
    and vm': "vm' = v\<lparr>scriptOff := scriptOff v + 1\<rparr> \<or> next_script (v\<lparr>scriptOff := scriptOff v + 1\<rparr>) = Inr (done, vm')"
    using assms(3) pc ex by (auto simp: Step_def Let_def split: if_splits)
  have "same_run vm v" "small_stacks v" "0 \<le> numOps v" "numOps v \<le> MaxOpsPerScript"
    using executeOpcode_hstep [of True, OF _ ex] assms(1,2) by simp_all
  then have "engine_inv (v\<lparr>scriptOff := scriptOff v + 1\<rparr>)"
    using assms(1) d by (simp add: engine_inv_def same_run_def small_stacks_def)
  with vm' show ?thesis using next_script_inv by blast
qed

text \<open>What a new engine looks like.\<close>

lemma setup_vm_state:
  assumes "setup_vm tx idx scriptSig parsed vm = Inr vm'"
  shows "vm_scripts vm' = parsed" "vm_bip16 vm' = (vm_bip16 vm \<or> hasFlag ScriptBip16 vm \<and> isScriptHash (parsed ! 1))"
    "scriptIdx vm' = (if scriptSig = [] then scriptIdx vm + 1 else scriptIdx vm)" "scriptOff vm' = scriptOff vm"
    "stk (dstack vm') = stk (dstack vm)" "stk (astack vm') = stk (astack vm)" "condStack vm' = condStack vm"
    "numOps vm' = numOps vm" "vm_tx vm' = tx" "txIdx vm' = idx" "sigCache vm' = sigCache vm"
    "savedFirstStack vm' = savedFirstStack vm" "vm_flags vm' = vm_flags vm"
  using assms by (auto simp: setup_vm_def Let_def hasFlag_def split: if_splits)

lemma NewEngine_state:
  assumes "NewEngine pk tx idx flags cache hashes amount = Inr vm"
  shows "\<exists>p0 p1. parseScript (SignatureScript (TxIn tx ! nat idx)) = Inr p0 \<and> parseScript pk = Inr p1 \<and>
      vm_scripts vm = [p0, p1] \<and> vm_bip16 vm = (hasFlag ScriptBip16 vm \<and> isScriptHash p1)"
    and "scriptIdx vm = (if SignatureScript (TxIn tx ! nat idx) = [] then 1 else 0)" and "scriptOff vm = 0"
    and "stk (dstack vm) = []" and "stk (astack vm) = []" and "condStack vm = []" and "numOps vm = 0"
    and "vm_tx vm = tx" and "txIdx vm = nat idx" and "sigCache vm = cache" and "savedFirstStack vm = []"
    and "nat idx < length (TxIn tx)"
proof -
  let ?vm = "new_vm flags cache hashes amount" and ?sig = "SignatureScript (TxIn tx ! nat idx)"
  have new: "vm_bip16 ?vm = False" "scriptIdx ?vm = 0" "scriptOff ?vm = 0" "stk (dstack ?vm) = []" "stk (astack ?vm) = []"
    "condStack ?vm = []" "numOps ?vm = 0" "sigCache ?vm = cache" "savedFirstStack ?vm = []"
    by (simp_all add: new_vm_def Let_def)
  obtain parsed where p: "parse_scripts [?sig, pk] = Inr parsed" and s: "setup_vm tx (nat idx) ?sig parsed ?vm = Inr vm"
    and idx: "\<not> (idx < 0 \<or> idx \<ge> int (length (TxIn tx)))"
    using assms by (auto simp: NewEngine_def Let_def split: if_splits)
  note st = setup_vm_state [OF s]
  obtain p0 p1 where "parseScript ?sig = Inr p0" "parseScript pk = Inr p1" "parsed = [p0, p1]"
    using p by (auto simp: parse_scripts_def split: if_splits)
  with st new show "\<exists>p0 p1. parseScript ?sig = Inr p0 \<and> parseScript pk = Inr p1 \<and>
      vm_scripts vm = [p0, p1] \<and> vm_bip16 vm = (hasFlag ScriptBip16 vm \<and> isScriptHash p1)"
    by (simp add: hasFlag_def)
  show "scriptIdx vm = (if ?sig = [] then 1 else 0)" "scriptOff vm = 0" "stk (dstack vm) = []" "stk (astack vm) = []"
    "condStack vm = []" "numOps vm = 0" "vm_tx vm = tx" "txIdx vm = nat idx" "sigCache vm = cache" "savedFirstStack vm = []"
    using st new by simp_all
  show "nat idx < length (TxIn tx)" using idx by linarith
qed

lemma NewEngine_inv: "NewEngine pk tx idx flags cache hashes amount = Inr vm \<Longrightarrow> engine_inv vm"
  by (frule NewEngine_state(4), frule NewEngine_state(5), frule NewEngine_state(7), drule NewEngine_state(11))
    (simp add: engine_inv_def small_stacks_def Depth_def MaxStackSize_def MaxOpsPerScript_def)

lemma reaches_inv: "reaches env vm v \<Longrightarrow> engine_inv vm \<Longrightarrow> digests_ok env \<Longrightarrow> engine_inv v"
  by (induction rule: reaches.induct) (auto dest: Step_inv)


section \<open>Where a run can hang\<close>

lemma safe_multisig_opcode:
  assumes "op_func (op_info b) = Do_opcodeCheckSafeMultiSig"
  shows "b = OP_CHECKSAFEMULTISIG \<or> b = OP_CHECKTHREAD"
proof -
  have "list_all (\<lambda>o'. op_func o' = Do_opcodeCheckSafeMultiSig \<longrightarrow>
      op_value o' = OP_CHECKSAFEMULTISIG \<or> op_value o' = OP_CHECKTHREAD) opcodeArray"
    by code_simp
  moreover have "op_info b \<in> set opcodeArray" by (simp add: op_info_def length_opcodeArray)
  ultimately show ?thesis using assms by (auto simp: list_all_iff op_value_index)
qed

lemma parse_one_returns: "parse_one instr rest \<noteq> Inl NoReturn"
proof -
  have "op_length (op_info instr) \<noteq> 0" by (simp add: op_length_eq op_length_spec_def)
  then show ?thesis by (auto simp: parse_one_def Let_def bindE_eq_Inl split: if_splits)
qed

lemma parseScript_returns [simp]: "parseScript scr \<noteq> Inl NoReturn"
proof -
  have "snd (ParseScript scr) \<noteq> Some NoReturn"
    by (induction scr rule: ParseScript.induct) (auto simp: parse_one_returns split: sum.splits prod.splits, blast)
  then show ?thesis by (auto simp: parseScript_def split: prod.splits option.splits)
qed

lemma next_script_returns [simp]: "next_script vm \<noteq> Inl NoReturn"
  by (auto simp: next_script_def advance_def run_redeem_def CheckErrorCondition_def Let_def bindE_eq_Inl
      split: if_splits)

text \<open>The opcode that \<open>Step\<close> executes next.\<close>

abbreviation next_opcode :: "Engine \<Rightarrow> parsedOpcode" where
  "next_opcode vm \<equiv> vm_scripts vm ! scriptIdx vm ! scriptOff vm"

lemma Step_NoReturn:
  assumes "Step env vm = Inl NoReturn"
  shows "opcode (next_opcode vm) \<in> {OP_CHECKSAFEMULTISIG, OP_CHECKTHREAD} \<and>
    opcodeCheckSafeMultiSig env (next_opcode vm) (vm\<lparr>numOps := numOps vm + 1\<rparr>) = Inl NoReturn"
proof -
  have "executeOpcode env (next_opcode vm) vm = Inl NoReturn"
    using assms by (auto simp: Step_def validPC_def Let_def bindE_eq_Inl split: if_splits)
  then obtain v where v: "v = (if opcode (next_opcode vm) > OP_16 then vm\<lparr>numOps := numOps vm + 1\<rparr> else vm)"
    and run: "run_opfunc env (op_func (op_info (opcode (next_opcode vm)))) (next_opcode vm) v = Inl NoReturn"
    by (auto simp: executeOpcode_def checkMinimalDataPush_def guardE_def Let_def bindE_eq_Inl split: if_splits)
  then have f: "op_func (op_info (opcode (next_opcode vm))) = Do_opcodeCheckSafeMultiSig"
    using run_opfunc_returns by blast
  from safe_multisig_opcode [OF f] v have "v = vm\<lparr>numOps := numOps vm + 1\<rparr>" by auto
  with safe_multisig_opcode [OF f] f run show ?thesis by simp
qed

lemma run_steps_NoReturn:
  "run_steps env vm = Inl NoReturn \<Longrightarrow> \<exists>v. reaches env vm v \<and> Step env v = Inl NoReturn"
proof (induction env vm rule: run_steps.induct)
  case (1 env vm)
  show ?case
  proof (cases "Step env vm")
    case (Inl e)
    with "1.prems" have "Step env vm = Inl NoReturn" by (subst (asm) run_steps.simps) simp
    then show ?thesis using reaches.start by blast
  next
    case (Inr r)
    then obtain d v where r: "Step env vm = Inr (d, v)" by (cases r) auto
    with "1.prems" have "run_steps env v = Inl NoReturn" "\<not> d"
      by (subst (asm) run_steps.simps; simp split: if_splits)+
    with "1.IH" [OF r refl] show ?thesis using reaches_first [OF r] by blast
  qed
qed

lemma CheckErrorCondition_returns [simp]: "CheckErrorCondition b vm \<noteq> Inl NoReturn"
  by (auto simp: CheckErrorCondition_def bindE_eq_Inl split: if_splits)

section \<open>Properties\<close>

text \<open>
  C3. The limits of the engine hold throughout a run.  In every state that is reached from a
  new engine, the two stacks together hold at most 1000 elements, no element is longer than
  520 bytes, and the operations counted for the current script are at most 201.
\<close>

theorem engine_limits:
  assumes "NewEngine scriptPubKey tx idx flags cache hashes amount = Inr vm" and "digests_ok env" and "reaches env vm v"
  shows "Depth (dstack v) + Depth (astack v) \<le> 1000 \<and>
    (\<forall>x \<in> set (stk (dstack v)) \<union> set (stk (astack v)). length x \<le> 520) \<and> 0 \<le> numOps v \<and> numOps v \<le> 201"
  using reaches_inv [OF assms(3) NewEngine_inv [OF assms(1)] assms(2)]
  by (simp add: engine_inv_def small_stacks_def MaxStackSize_def MaxScriptElementSize_def MaxOpsPerScript_def)

lemma example_digests: "digests_ok example_env"
  by (auto simp: digests_ok_def example_env_def min_def)

theorem engine_limits_witness:
  "\<exists>vm v. NewEngine [0x51, 0x52] example_tx 0 0 None None 0 = Inr vm \<and> Step example_env vm = Inr (False, v) \<and>
     Depth (dstack v) + Depth (astack v) \<le> 1000 \<and> 0 \<le> numOps v \<and> numOps v \<le> 201"
proof -
  define vm where "vm = (case NewEngine [0x51, 0x52] example_tx 0 0 None None 0 of Inr vm \<Rightarrow> vm | Inl _ \<Rightarrow> new_vm 0 None None 0)"
  define v where "v = (case Step example_env vm of Inr (_, v) \<Rightarrow> v | Inl _ \<Rightarrow> vm)"
  have 1: "NewEngine [0x51, 0x52] example_tx 0 0 None None 0 = Inr vm" unfolding vm_def by code_simp
  have 2: "Step example_env vm = Inr (False, v)" unfolding v_def vm_def by code_simp
  with engine_limits [OF 1 example_digests reaches.step [OF reaches.start 2]] 1 show ?thesis by blast
qed

text \<open>
  C4. Execution always returns, except inside the handler of \<open>OP_CHECKSAFEMULTISIG\<close> and
  \<open>OP_CHECKTHREAD\<close>: if \<open>Execute\<close> does not return, the run reaches one of these opcodes and the
  handler does not return there.
\<close>

theorem Execute_returns:
  assumes "Execute env vm = Inl NoReturn"
  shows "\<exists>v. reaches env vm v \<and> opcode (next_opcode v) \<in> {OP_CHECKSAFEMULTISIG, OP_CHECKTHREAD} \<and>
    opcodeCheckSafeMultiSig env (next_opcode v) (v\<lparr>numOps := numOps v + 1\<rparr>) = Inl NoReturn"
proof -
  have "run_steps env vm = Inl NoReturn" using assms by (auto simp: Execute_def bindE_eq_Inl)
  then show ?thesis using run_steps_NoReturn Step_NoReturn by blast
qed

definition hanging_vm :: Engine where
  "hanging_vm = (example_vm (example_stack []))\<lparr>vm_scripts := [[\<lparr>opcode = OP_CHECKSAFEMULTISIG, data = []\<rparr>]]\<rparr>"

lemma hanging_vm_hangs: "Execute example_env hanging_vm = Inl NoReturn"
proof -
  let ?v = "hanging_vm\<lparr>numOps := 1\<rparr>" and ?op = "\<lparr>opcode = OP_CHECKSAFEMULTISIG, data = []\<rparr> :: parsedOpcode"
  have lay: "safe_layout ?v [] [(unit_y_key, [])] [take 20 unit_y_key, replicate 20 0]"
    using example_layout [of "[]"] by (simp add: safe_layout_def hanging_vm_def example_vm_def)
  have cache: "vm_cache_ok example_env ?v"
    using example_cache_ok by (simp add: vm_cache_ok_def hanging_vm_def)
  have "opcodeCheckSafeMultiSig example_env ?op ?v = Inl NoReturn"
    using CheckSafeMultiSig_result(1) [OF lay cache example_env_sha256] by simp
  moreover have "op_func (op_info OP_CHECKSAFEMULTISIG) = Do_opcodeCheckSafeMultiSig" by code_simp
  ultimately have "Step example_env hanging_vm = Inl NoReturn"
    by (simp add: Step_def validPC_def executeOpcode_def hanging_vm_def example_vm_def isDisabled_def alwaysIllegal_def
        isBranchExecuting_def MaxOpsPerScript_def)
  then show ?thesis by (simp add: Execute_def run_steps.simps)
qed

theorem Execute_returns_witness:
  "\<exists>v. reaches example_env hanging_vm v \<and> opcode (next_opcode v) \<in> {OP_CHECKSAFEMULTISIG, OP_CHECKTHREAD} \<and>
     opcodeCheckSafeMultiSig example_env (next_opcode v) (v\<lparr>numOps := numOps v + 1\<rparr>) = Inl NoReturn"
  by (rule Execute_returns [OF hanging_vm_hangs])

end
