(* ===== verification/Prova_Spend.thy ===== *)
theory Prova_Spend
  imports Script_Engine
begin

text \<open>
  Spending a Prova output, end to end: the engine run on a signature script of pushes and a
  public key script of the form \<open>m h1 ... hn n OP_CHECKSAFEMULTISIG\<close> (or \<open>OP_CHECKTHREAD\<close>, as
  \<open>ThreadPkScript\<close> builds it).  The theory composes the parser, the push opcodes, the stepping
  of the engine, the multi-signature handler and the final check.
\<close>

section \<open>Executing pushes\<close>

lemma small_num: "0 < k \<Longrightarrow> k < 128 \<Longrightarrow> scriptNum_Bytes (int k) = Inr [word_of_nat k]"
proof -
  assume k: "0 < k" "k < 128"
  then have "le_digits k = [word_of_nat k]" by (subst le_digits.simps) (simp add: le_digits.simps)
  with k show ?thesis by (simp add: scriptNum_Bytes_eq num_bytes_def)
qed

lemma push_pop_low: "unat (opcode (push_pop d)) \<le> 96"
  by (cases rule: push_cases [of d]) (auto simp: unat_0x50_plus)

lemma run_push:
  assumes "d \<noteq> [0]"
  shows "run_opfunc env (op_func (op_info (opcode (push_pop d)))) (push_pop d) vm = Inr (pushBytes d vm)"
proof (cases rule: push_cases [of d])
  case empty
  with assms show ?thesis by (simp add: op_func_low opcodeFalse_def)
next
  case (small x)
  have "scriptNum_Bytes (int (unat x)) = Inr [x]" using small_num [of "unat x"] small by simp
  with small show ?thesis
    by (simp add: op_func_low unat_0x50_plus opcodeN_def pushInt_def on_dstack_def PushInt_def pushBytes_def)
next
  case negate
  have "scriptNum_Bytes (- 1) = Inr [0x81]" by code_simp
  with negate show ?thesis by (simp add: op_func_low opcode1Negate_def pushInt_def on_dstack_def PushInt_def pushBytes_def)
next
  case direct
  then show ?thesis by (simp add: op_func_low opcodePushData_def)
next
  case (pushdata n)
  then show ?thesis by (auto simp: op_func_low opcodePushData_def)
qed

lemma execute_push:
  assumes "length d \<le> MaxScriptElementSize" and "d \<noteq> [0]" and "condStack vm = []"
  shows "executeOpcode env (push_pop d) vm = Inr (pushBytes d vm)"
proof -
  note low = push_pop_low [of d]
  have big: "opcode (push_pop d) \<noteq> b" if "96 < unat b" for b using low that by auto
  have "\<not> isDisabled (push_pop d)" "\<not> alwaysIllegal (push_pop d)" by (simp_all add: isDisabled_def alwaysIllegal_def big)
  moreover have "\<not> opcode (push_pop d) > OP_16" using low by (simp add: word_less_nat_alt)
  moreover have "length (data (push_pop d)) \<le> MaxScriptElementSize"
    using assms(1) by (cases rule: push_cases [of d]) auto
  moreover have "opcode (push_pop d) \<le> OP_PUSHDATA4 \<Longrightarrow> checkMinimalDataPush (push_pop d) = Inr ()"
    by (rule push_pop_minimal) (simp add: word_le_nat_alt)
  ultimately show ?thesis
    using assms by (simp add: executeOpcode_def isBranchExecuting_def run_push)
qed

text \<open>The engine at opcode \<open>k\<close> of its current script with the data stack \<open>xs\<close>.\<close>

abbreviation at :: "Engine \<Rightarrow> nat \<Rightarrow> bytes list \<Rightarrow> Engine" where
  "at vm k xs \<equiv> vm\<lparr>dstack := (dstack vm)\<lparr>stk := xs\<rparr>, scriptOff := k\<rparr>"

definition pushable :: "bytes \<Rightarrow> bool" where
  "pushable d \<longleftrightarrow> length d \<le> MaxScriptElementSize \<and> d \<noteq> [0]"

lemma Step_push:
  assumes "scriptIdx vm < length (vm_scripts vm)" and "vm_scripts vm ! scriptIdx vm = pre @ push_pop d # post"
    and "pushable d" and "condStack vm = []" and "int (length xs) + 1 + Depth (astack vm) \<le> MaxStackSize"
  shows "Step env (at vm (length pre) xs) =
    (if post = [] then next_script (at vm (length pre + 1) (xs @ [d])) else Inr (False, at vm (length pre + 1) (xs @ [d])))"
proof -
  let ?v = "at vm (length pre) xs"
  have "executeOpcode env (push_pop d) ?v = Inr (pushBytes d ?v)"
    using assms(3,4) by (intro execute_push) (auto simp: pushable_def)
  moreover have "validPC ?v = Inr ()" using assms(1,2) by (simp add: validPC_def)
  ultimately show ?thesis
    using assms by (auto simp: Step_def Let_def pushBytes_def Depth_def)
qed

lemma run_pushes:
  assumes "scriptIdx vm < length (vm_scripts vm)" and "vm_scripts vm ! scriptIdx vm = pre @ map push_pop ds @ post"
    and "post \<noteq> []" and "\<forall>d \<in> set ds. pushable d" and "condStack vm = []"
    and "int (length xs + length ds) + Depth (astack vm) \<le> MaxStackSize"
  shows "run_steps env (at vm (length pre) xs) = run_steps env (at vm (length pre + length ds) (xs @ ds))"
  using assms(2,4,6)
proof (induction ds arbitrary: pre xs)
  case (Cons d ds)
  have "Step env (at vm (length pre) xs) = Inr (False, at vm (length pre + 1) (xs @ [d]))"
    using Step_push [OF assms(1), of pre d "map push_pop ds @ post" xs env] Cons.prems assms(3,5) by simp
  then have "run_steps env (at vm (length pre) xs) = run_steps env (at vm (length (pre @ [push_pop d])) (xs @ [d]))"
    by (subst run_steps.simps) simp
  also have "\<dots> = run_steps env (at vm (length (pre @ [push_pop d]) + length ds) ((xs @ [d]) @ ds))"
    by (rule Cons.IH) (use Cons.prems in auto)
  finally show ?case by simp
qed simp

section \<open>The two scripts\<close>

text \<open>The items that a signature script pushes: public key and signature, pair by pair.\<close>

abbreviation spend_items :: "(bytes \<times> bytes) list \<Rightarrow> bytes list" where
  "spend_items qs \<equiv> concat (map (\<lambda>(pk, sg). [pk, sg]) qs)"

definition num_item :: "nat \<Rightarrow> bytes" where
  "num_item n = [word_of_nat n]"

definition spend_pops :: "byte \<Rightarrow> nat \<Rightarrow> bytes list \<Rightarrow> parsedOpcode list" where
  "spend_pops c m khs = push_pop (num_item m) # map push_pop khs @ [push_pop (num_item (length khs)), \<lparr>opcode = c, data = []\<rparr>]"

lemma pushable_num: "0 < n \<Longrightarrow> n \<le> 20 \<Longrightarrow> pushable (num_item n)"
  by (auto simp: pushable_def num_item_def MaxScriptElementSize_def word_of_nat_eq_0_iff dest: nat_dvd_not_less)

lemma end_of_script:
  assumes "vm_scripts vm = [p0, p1]" and "\<not> vm_bip16 vm" and "p1 \<noteq> []" and "scriptIdx vm = i" and "i < 2"
    and "stk (astack vm) = []"
  shows "next_script vm = Inr (i = 1, vm\<lparr>scriptIdx := i + 1, scriptOff := 0, numOps := 0, lastCodeSep := 0\<rparr>)"
proof -
  have as: "(astack vm)\<lparr>stk := []\<rparr> = astack vm" using assms(6) by (cases "astack vm") simp
  have "i = 0 \<or> i = 1" using assms(5) by auto
  with assms show ?thesis
    unfolding next_script_def DropN_all as
    by (cases vm) (auto simp: advance_def Let_def)
qed

lemma run_signature_script:
  assumes "vm_scripts vm = [map push_pop items, p1]" and "\<not> vm_bip16 vm" and "p1 \<noteq> []" and "scriptIdx vm = 0"
    and "scriptOff vm = 0" and "stk (astack vm) = []" and "stk (dstack vm) = []" and "condStack vm = []"
    and "items \<noteq> []" and "\<forall>d \<in> set items. pushable d" and "length items \<le> 1000"
  shows "run_steps env vm =
    run_steps env (vm\<lparr>dstack := (dstack vm)\<lparr>stk := items\<rparr>, scriptIdx := 1, scriptOff := 0, numOps := 0, lastCodeSep := 0\<rparr>)"
proof -
  obtain ds d where ds: "items = ds @ [d]" using assms(9) by (metis append_butlast_last_id)
  have "run_steps env (at vm 0 []) = run_steps env (at vm (length ds) ds)"
    using run_pushes [of vm "[]" ds "[push_pop d]" "[]" env] assms ds by (simp add: Depth_def MaxStackSize_def)
  moreover have "at vm 0 [] = vm" using assms(5,7) by (cases vm; cases "dstack vm") simp
  ultimately have 1: "run_steps env vm = run_steps env (at vm (length ds) ds)" by simp
  have "Step env (at vm (length (map push_pop ds)) ds) = next_script (at vm (length (map push_pop ds) + 1) (ds @ [d]))"
    by (subst Step_push [where d = d and post = "[]"]) (use assms ds in \<open>auto simp: Depth_def MaxStackSize_def\<close>)
  also have "\<dots> = Inr (False, vm\<lparr>dstack := (dstack vm)\<lparr>stk := items\<rparr>, scriptIdx := 1, scriptOff := 0, numOps := 0, lastCodeSep := 0\<rparr>)"
    by (subst end_of_script [where i = 0]) (use assms ds in auto)
  finally show ?thesis unfolding 1 by (subst run_steps.simps) simp
qed

lemma execute_check:
  assumes "c \<in> {OP_CHECKSAFEMULTISIG, OP_CHECKTHREAD}" and "condStack vm = []" and "numOps vm = 0"
  shows "executeOpcode env \<lparr>opcode = c, data = []\<rparr> vm =
    opcodeCheckSafeMultiSig env \<lparr>opcode = c, data = []\<rparr> (vm\<lparr>numOps := 1\<rparr>)"
proof -
  have "op_func (op_info OP_CHECKSAFEMULTISIG) = Do_opcodeCheckSafeMultiSig"
    "op_func (op_info OP_CHECKTHREAD) = Do_opcodeCheckSafeMultiSig" by code_simp+
  with assms show ?thesis
    by (auto simp: executeOpcode_def isDisabled_def alwaysIllegal_def MaxOpsPerScript_def isBranchExecuting_def Let_def)
qed

text \<open>The public key script, run on the pairs that the signature script pushed.\<close>

lemma run_key_script:
  assumes scr: "vm_scripts vm = [p0, spend_pops c (length qs) khs]" and c: "c \<in> {OP_CHECKSAFEMULTISIG, OP_CHECKTHREAD}"
    and vm: "\<not> vm_bip16 vm" "scriptIdx vm = 1" "scriptOff vm = 0" "stk (astack vm) = []" "condStack vm = []" "numOps vm = 0"
      "stk (dstack vm) = spend_items qs" "txIdx vm < length (TxIn (vm_tx vm))"
    and n: "qs \<noteq> []" "length qs \<le> length khs" "length khs \<le> 20" "\<forall>h \<in> set khs. length h = 20"
    and env: "vm_cache_ok env vm" "\<forall>b. length (sha256 env b) = 32"
  shows "(\<exists>v. Execute env vm = Inr v) \<longleftrightarrow> safe_accepts env vm (mset khs) (rev qs)"
proof -
  let ?ds = "num_item (length qs) # khs @ [num_item (length khs)]" and ?op = "\<lparr>opcode = c, data = []\<rparr> :: parsedOpcode"
  let ?xs = "spend_items qs @ ?ds" and ?acc = "safe_accepts env vm (mset khs) (rev qs)"
  have pops: "vm_scripts vm ! scriptIdx vm = map push_pop ?ds @ [?op]" by (simp add: scr vm spend_pops_def)
  have kh: "pushable h" if "h \<in> set khs" for h using n(4) that by (auto simp: pushable_def MaxScriptElementSize_def)
  have items: "length (spend_items qs) = 2 * length qs" by (induction qs) auto
  have pos: "0 < length qs" "0 < length khs" using n by auto
  have at0: "at vm 0 (spend_items qs) = vm" using vm by (cases vm; cases "dstack vm") simp
  define v0 where "v0 = at vm (length ?ds) ?xs"
  define v where "v = v0\<lparr>numOps := 1\<rparr>"
  have "run_steps env (at vm 0 (spend_items qs)) = run_steps env v0"
    unfolding v0_def
    using run_pushes [of vm "[]" ?ds "[?op]" "spend_items qs" env] pops vm scr n kh items pos
    by (simp add: pushable_num Depth_def MaxStackSize_def)
  then have run: "run_steps env vm = run_steps env v0" by (simp only: at0)
  have ex: "executeOpcode env ?op v0 = opcodeCheckSafeMultiSig env ?op v"
    unfolding v_def by (rule execute_check [OF c]) (simp_all add: v0_def vm)
  have pc: "validPC v0 = Inr ()" and op: "next_opcode v0 = ?op"
    using pops scr vm by (simp_all add: v0_def validPC_def nth_append)
  have lay: "safe_layout v [] (rev qs) (rev khs)"
    using n vm pos small_num [of "length qs"] small_num [of "length khs"]
    by (simp add: safe_layout_def v_def v0_def num_item_def)
  have cache: "vm_cache_ok env v" using env(1) by (simp add: vm_cache_ok_def v_def v0_def)
  have "sig_passes env v = sig_passes env vm"
    by (rule sig_passes_cong) (simp add: same_context_def v_def v0_def)
  then have acc: "safe_accepts env v (mset (rev khs)) (rev qs) = ?acc" by (simp add: safe_accepts_iff)
  note res = CheckSafeMultiSig_result [OF lay cache env(2), of ?op, unfolded acc]
  show ?thesis
  proof (cases "opcodeCheckSafeMultiSig env ?op v")
    case (Inl e)
    then have "run_steps env v0 = Inl e" by (subst run_steps.simps) (simp add: Step_def pc op ex)
    with Inl res(3) run show ?thesis by (auto simp: Execute_def)
  next
    case (Inr w)
    then obtain sc where w: "w = v\<lparr>dstack := (dstack v)\<lparr>stk := [fromBool ?acc]\<rparr>,
        numOps := numOps v + int (length (rev khs)), sigCache := sc\<rparr>" using res(2) by auto
    let ?w = "w\<lparr>scriptOff := scriptOff w + 1\<rparr>" and ?fin = "w\<lparr>scriptIdx := 2, scriptOff := 0, numOps := 0, lastCodeSep := 0\<rparr>"
    have "next_script ?w = Inr (True, ?fin)"
      by (subst end_of_script [where i = 1]) (use scr vm in \<open>auto simp: w v_def v0_def spend_pops_def\<close>)
    moreover have "Step env v0 = next_script ?w"
      using pops scr vm by (simp add: Step_def pc op ex Inr) (simp add: w v_def v0_def Depth_def MaxStackSize_def)
    ultimately have "run_steps env v0 = Inr ?fin" by (subst run_steps.simps) simp
    then have "Execute env vm = CheckErrorCondition True ?fin" by (simp add: Execute_def run)
    moreover have "(\<exists>u. CheckErrorCondition True ?fin = Inr u) \<longleftrightarrow> ?acc"
      using scr by (auto simp: CheckErrorCondition_def w v_def v0_def Depth_def popBool_def PopBool_def Pop_eq fromBool_def)
    ultimately show ?thesis by simp
  qed
qed


section \<open>Properties\<close>

text \<open>
  C1. Spending a Prova output, end to end.  Take a signature script that pushes the pairs
  \<open>qs\<close> of public key and signature, and a public key script
  \<open>m h1 ... hn n OP_CHECKSAFEMULTISIG\<close> (or \<open>OP_CHECKTHREAD\<close>) whose \<open>m\<close> is the number of pairs.
  Running a new engine on them succeeds if and only if every pair passes its checks and the
  hashes of the public keys are, with multiplicity, among \<open>h1, ..., hn\<close>.
\<close>

theorem Prova_spend:
  assumes new: "NewEngine pkScript tx idx flags cache hashes amount = Inr vm"
    and sig: "ParseScript (SignatureScript (TxIn tx ! nat idx)) = (map push_pop (spend_items qs), None)"
    and pk: "ParseScript pkScript = (spend_pops c (length qs) khs, None)"
    and c: "c \<in> {OP_CHECKSAFEMULTISIG, OP_CHECKTHREAD}"
    and n: "qs \<noteq> []" "length qs \<le> length khs" "length khs \<le> 20" "\<forall>h \<in> set khs. length h = 20"
    and items: "\<forall>d \<in> set (spend_items qs). pushable d"
    and env: "\<forall>s. cache = Some s \<longrightarrow> cache_valid env s" "\<forall>b. length (sha256 env b) = 32"
  shows "(\<exists>v. Execute env vm = Inr v) \<longleftrightarrow>
    (\<forall>p \<in> set qs. sig_passes env vm p) \<and> image_mset (\<lambda>p. Hash160 env (fst p)) (mset qs) \<subseteq># mset khs"
proof -
  note st = NewEngine_state [OF new]
  let ?items = "spend_items qs" and ?p1 = "spend_pops c (length qs) khs"
  have scr: "vm_scripts vm = [map push_pop ?items, ?p1]" and bip: "vm_bip16 vm = (hasFlag ScriptBip16 vm \<and> isScriptHash ?p1)"
    using st(1) sig pk by (auto simp: parseScript_def)
  have "opcode (push_pop (num_item (length qs))) \<noteq> OP_HASH160" using push_pop_low [of "num_item (length qs)"] by auto
  then have no_bip: "\<not> vm_bip16 vm" by (simp add: bip isScriptHash_def spend_pops_def)
  have ne: "?items \<noteq> []" "length ?items \<le> 1000"
  proof -
    have len: "length ?items = 2 * length qs" by (induction qs) auto
    then show "length ?items \<le> 1000" using n by simp
    have "length ?items \<noteq> 0" using len n(1) by simp
    then show "?items \<noteq> []" by (metis list.size(3))
  qed
  have "SignatureScript (TxIn tx ! nat idx) \<noteq> []" using sig ne(1) by auto
  then have idx: "scriptIdx vm = 0" using st(2) by simp
  let ?v = "vm\<lparr>dstack := (dstack vm)\<lparr>stk := ?items\<rparr>, scriptIdx := 1, scriptOff := 0, numOps := 0, lastCodeSep := 0\<rparr>"
  have "run_steps env vm = run_steps env ?v"
    by (rule run_signature_script [OF scr no_bip _ idx st(3,5,4,6) ne(1) items ne(2)]) (simp add: spend_pops_def)
  then have "Execute env vm = Execute env ?v" by (simp add: Execute_def)
  moreover have "vm_cache_ok env ?v" using env(1) st(10) by (simp add: vm_cache_ok_def)
  then have "(\<exists>v. Execute env ?v = Inr v) \<longleftrightarrow> safe_accepts env ?v (mset khs) (rev qs)"
    by (intro run_key_script [OF _ c]) (use scr no_bip st n env in auto)
  moreover have "sig_passes env ?v = sig_passes env vm"
    by (rule sig_passes_cong) (simp add: same_context_def)
  ultimately show ?thesis by (simp add: safe_accepts_iff)
qed

definition spend_tx :: MsgTx where
  "spend_tx = example_tx\<lparr>TxIn := [(TxIn example_tx ! 0)\<lparr>SignatureScript := 33 # unit_y_key @ 9 # example_sig\<rparr>]\<rparr>"

definition spend_script :: bytes where
  "spend_script = [OP_1, 20] @ take 20 unit_y_key @ 20 # replicate 20 0 @ [OP_2, OP_CHECKSAFEMULTISIG]"

theorem Prova_spend_witness:
  "\<exists>vm v. NewEngine spend_script spend_tx 0 0 None None 50 = Inr vm \<and> Execute example_env vm = Inr v"
proof -
  define vm where "vm = (case NewEngine spend_script spend_tx 0 0 None None 50 of Inr vm \<Rightarrow> vm | Inl _ \<Rightarrow> new_vm 0 None None 0)"
  have new: "NewEngine spend_script spend_tx 0 0 None None 50 = Inr vm" unfolding vm_def by code_simp
  have "vm_flags vm = 0" unfolding vm_def by code_simp
  then have pass: "sig_passes example_env vm (unit_y_key, example_sig)" by (rule example_sig_passes)
  have sig: "ParseScript (SignatureScript (TxIn spend_tx ! nat 0)) = (map push_pop (spend_items [(unit_y_key, example_sig)]), None)"
    by code_simp
  have pk: "ParseScript spend_script = (spend_pops OP_CHECKSAFEMULTISIG (length [(unit_y_key, example_sig)])
      [take 20 unit_y_key, replicate 20 0], None)" by code_simp
  have len: "length unit_y_key = 33" "length example_sig = 9" "unit_y_key \<noteq> [0]" "example_sig \<noteq> [0]" by code_simp+
  have "\<exists>v. Execute example_env vm = Inr v"
    using Prova_spend [OF new sig pk, of example_env] pass example_env_sha256
    by (simp add: example_key_hash pushable_def MaxScriptElementSize_def len)
  with new show ?thesis by blast
qed

end
