(* ===== verification/Wire_Block.thy ===== *)
theory Wire_Block
  imports Wire_Tx Crypto_Params
begin

text \<open>
  Block headers and blocks on the wire (\<open>src/wire/blockheader.go\<close>, \<open>src/wire/msgblock.go\<close>):
  encoding and decoding, sizes, transaction locations, and the validator's signature of a
  header.  A timestamp is its Unix time in seconds.  The lemmas interpret the writer/reader
  contract for headers and blocks and relate signing a header to verifying it.
\<close>

section \<open>Definitions\<close>

definition BlockValidatingPubKeySize :: nat where "BlockValidatingPubKeySize = 33"
definition BlockSignatureSize :: nat where "BlockSignatureSize = 80"
definition MaxBlockHeaderPayload :: nat where
  "MaxBlockHeaderPayload = 32 + HashSize * 2 + BlockValidatingPubKeySize + BlockSignatureSize"
definition MaxBlockPayload :: nat where "MaxBlockPayload = 2500000"
definition minTxPayload :: nat where "minTxPayload = 10"
definition maxTxPerBlock :: nat where "maxTxPerBlock = MaxBlockPayload div minTxPayload + 1"

record BlockHeader =
  BVersion :: "32 word"
  PrevBlock :: bytes
  MerkleRoot :: bytes
  Timestamp :: int
  Bits :: "32 word"
  Height :: "32 word"
  Size :: "32 word"
  Nonce :: nat
  ValidatingPubKey :: bytes
  BSignature :: bytes

record MsgBlock =
  Header :: BlockHeader
  Transactions :: "MsgTx list"

definition readBlockHeader :: "BlockHeader reader" where
  "readBlockHeader r =
     bindE (get_uint32 r) (\<lambda>(version, r).
     bindE (ReadFull HashSize r) (\<lambda>(prev, r).
     bindE (ReadFull HashSize r) (\<lambda>(root, r).
     bindE (get_int64 r) (\<lambda>(ts, r).
     bindE (get_uint32 r) (\<lambda>(bits, r).
     bindE (get_uint32 r) (\<lambda>(height, r).
     bindE (get_uint32 r) (\<lambda>(sz, r).
     bindE (getUint 8 r) (\<lambda>(nonce, r).
     bindE (ReadFull BlockValidatingPubKeySize r) (\<lambda>(key, r).
     bindE (ReadFull BlockSignatureSize r) (\<lambda>(sig, r).
       Inr (\<lparr>BVersion = version, PrevBlock = prev, MerkleRoot = root, Timestamp = ts, Bits = bits,
             Height = height, Size = sz, Nonce = nonce, ValidatingPubKey = key, BSignature = sig\<rparr>, r)))))))))))"

definition writeBlockHeader :: "BlockHeader \<Rightarrow> bytes" where
  "writeBlockHeader bh =
     put_uint32 (BVersion bh) @ PrevBlock bh @ MerkleRoot bh @ put_int64 (Timestamp bh) @
     put_uint32 (Bits bh) @ put_uint32 (Height bh) @ put_uint32 (Size bh) @ putUint 8 (Nonce bh) @
     ValidatingPubKey bh @ BSignature bh"

definition BlockHash :: "'x crypto_scheme \<Rightarrow> BlockHeader \<Rightarrow> bytes" where
  "BlockHash c h = PowHashB c (writeBlockHeader h)"

definition hashForSigning :: "'x crypto_scheme \<Rightarrow> BlockHeader \<Rightarrow> bytes" where
  "hashForSigning c h =
     PowHashB c (put_uint32 (BVersion h) @ put_int64 (Timestamp h) @ PrevBlock h @ MerkleRoot h)"

text \<open>
  \<open>BlockHeader.Sign\<close>, over the private key's signing function and its public key.  The copies
  into the fixed-size arrays overwrite a prefix and leave what stood behind it.
\<close>

definition header_Sign :: "'x crypto_scheme \<Rightarrow> (bytes \<Rightarrow> Signature res) \<Rightarrow> PublicKey \<Rightarrow> BlockHeader \<Rightarrow> BlockHeader res" where
  "header_Sign c key_Sign key_PubKey h =
     (let hash = hashForSigning c h
      in bindE (key_Sign hash) (\<lambda>signature.
         let serialized = Signature_Serialize signature;
             pubKey = take BlockValidatingPubKeySize (SerializeCompressed key_PubKey)
         in Inr (h\<lparr>ValidatingPubKey := copy_at (ValidatingPubKey h) 0 pubKey,
                   BSignature := copy_at (BSignature h) 0 serialized\<rparr>)))"

definition header_Verify :: "'x crypto_scheme \<Rightarrow> PublicKey \<Rightarrow> BlockHeader \<Rightarrow> bool res" where
  "header_Verify c pubKey h =
     (case ParseDERSignature (BSignature h) of
        Inl Panic \<Rightarrow> Inl Panic
      | Inl _ \<Rightarrow> Inr False
      | Inr sig \<Rightarrow> Inr (Signature_Verify c sig (hashForSigning c h) pubKey))"

definition MsgBlock_BtcDecode :: "MsgBlock reader" where
  "MsgBlock_BtcDecode r =
     bindE (readBlockHeader r) (\<lambda>(hdr, r).
     bindE (ReadVarInt r) (\<lambda>(txCount, r).
       if txCount > maxTxPerBlock then Inl MessageError
       else bindE (read_many MsgTx_BtcDecode txCount r) (\<lambda>(txs, r).
         Inr (\<lparr>Header = hdr, Transactions = txs\<rparr>, r))))"

definition MsgBlock_Serialize :: "MsgBlock \<Rightarrow> bytes" where
  "MsgBlock_Serialize msg =
     writeBlockHeader (Header msg) @ WriteVarInt (length (Transactions msg)) @
     concat (map MsgTx_Serialize (Transactions msg))"

definition MsgBlock_SerializeSize :: "MsgBlock \<Rightarrow> nat" where
  "MsgBlock_SerializeSize msg =
     (let n = MaxBlockHeaderPayload + VarIntSerializeSize (length (Transactions msg))
      in foldl (\<lambda>n tx. n + serializeSize False tx) n (Transactions msg))"

text \<open>\<open>DeserializeTxLoc\<close>: the same reading, recording where each transaction starts and its length.\<close>

fun txLoc_loop :: "nat \<Rightarrow> nat \<Rightarrow> bytes \<Rightarrow> wire_err + (MsgTx list \<times> (nat \<times> nat) list) \<times> bytes" where
  "txLoc_loop fullLen 0 r = Inr (([], []), r)"
| "txLoc_loop fullLen (Suc n) r =
     (let TxStart = fullLen - length r
      in bindE (MsgTx_BtcDecode r) (\<lambda>(tx, r).
         let TxLen = (fullLen - length r) - TxStart
         in bindE (txLoc_loop fullLen n r) (\<lambda>((txs, locs), r).
            Inr ((tx # txs, (TxStart, TxLen) # locs), r))))"

definition DeserializeTxLoc :: "bytes \<Rightarrow> wire_err + MsgBlock \<times> (nat \<times> nat) list" where
  "DeserializeTxLoc r =
     (let fullLen = length r
      in bindE (readBlockHeader r) (\<lambda>(hdr, r).
         bindE (ReadVarInt r) (\<lambda>(txCount, r).
           if txCount > maxTxPerBlock then Inl MessageError
           else bindE (txLoc_loop fullLen txCount r) (\<lambda>((txs, locs), r).
             Inr (\<lparr>Header = hdr, Transactions = txs\<rparr>, locs)))))"

definition TxHashes :: "'x crypto_scheme \<Rightarrow> MsgBlock \<Rightarrow> bytes list" where
  "TxHashes c msg = map (TxHash (DoubleHashB c)) (Transactions msg)"

definition BlockHeader_ok :: "BlockHeader \<Rightarrow> bool" where
  "BlockHeader_ok h \<longleftrightarrow> length (PrevBlock h) = HashSize \<and> length (MerkleRoot h) = HashSize \<and>
     in_int64 (Timestamp h) \<and> Nonce h < 2 ^ 64 \<and>
     length (ValidatingPubKey h) = BlockValidatingPubKeySize \<and> length (BSignature h) = BlockSignatureSize"

definition MsgBlock_ok :: "MsgBlock \<Rightarrow> bool" where
  "MsgBlock_ok msg \<longleftrightarrow> BlockHeader_ok (Header msg) \<and> length (Transactions msg) \<le> maxTxPerBlock \<and>
     list_all MsgTx_ok (Transactions msg)"

section \<open>The writer/reader contract\<close>

interpretation uint64: codec "putUint 8" "getUint 8" "\<lambda>v. v < 2 ^ 64"
  by unfold_locales (simp add: getUint_iff)

interpretation header: codec writeBlockHeader readBlockHeader BlockHeader_ok
proof (rule codecI)
  fix r x rest
  assume "readBlockHeader r = Inr (x, rest)"
  then show "BlockHeader_ok x \<and> r = writeBlockHeader x @ rest"
    by (auto simp: readBlockHeader_def writeBlockHeader_def BlockHeader_ok_def ReadFull_iff uint32.dec_iff
        int64.dec_iff getUint_iff)
qed (simp add: readBlockHeader_def writeBlockHeader_def BlockHeader_ok_def uint32.dec_enc int64.dec_enc
    uint64.dec_enc)

interpretation msgblock: codec MsgBlock_Serialize MsgBlock_BtcDecode MsgBlock_ok
proof (rule codecI)
  fix r x rest
  assume "MsgBlock_BtcDecode r = Inr (x, rest)"
  then show "MsgBlock_ok x \<and> r = MsgBlock_Serialize x @ rest"
    by (auto simp: MsgBlock_BtcDecode_def MsgBlock_Serialize_def MsgBlock_ok_def header.dec_iff varint.dec_iff
        msgtx.read_many_iff split: if_splits)
next
  fix x rest
  assume ok: "MsgBlock_ok x"
  have "read_many MsgTx_BtcDecode (length (Transactions x)) (concat (map MsgTx_Serialize (Transactions x)) @ r) =
      Inr (Transactions x, r)" for r
    using ok by (simp add: msgtx.read_many_iff MsgBlock_ok_def)
  moreover have "length (Transactions x) < 2 ^ 64"
    using ok by (simp add: MsgBlock_ok_def maxTxPerBlock_def MaxBlockPayload_def minTxPayload_def)
  ultimately show "MsgBlock_BtcDecode (MsgBlock_Serialize x @ rest) = Inr (x, rest)"
    using ok by (simp add: MsgBlock_BtcDecode_def MsgBlock_Serialize_def MsgBlock_ok_def header.dec_enc
        varint.dec_enc)
qed

lemma length_writeBlockHeader: "BlockHeader_ok h \<Longrightarrow> length (writeBlockHeader h) = MaxBlockHeaderPayload"
  by (simp add: writeBlockHeader_def BlockHeader_ok_def MaxBlockHeaderPayload_def put_uint32_def put_int64_def)

lemma txLoc_loop_correct:
  assumes "list_all MsgTx_ok txs"
  shows "\<exists>locs. txLoc_loop (length (pre @ concat (map MsgTx_Serialize txs) @ post)) (length txs)
             (concat (map MsgTx_Serialize txs) @ post) = Inr ((txs, locs), post) \<and> length locs = length txs \<and>
           (\<forall>i < length txs. take (snd (locs ! i)) (drop (fst (locs ! i)) (pre @ concat (map MsgTx_Serialize txs) @ post)) =
              MsgTx_Serialize (txs ! i))"
  using assms
proof (induction txs arbitrary: pre)
  case (Cons tx txs)
  define data where "data = pre @ concat (map MsgTx_Serialize (tx # txs)) @ post"
  from Cons.prems obtain locs where
    loop: "txLoc_loop (length data) (length txs) (concat (map MsgTx_Serialize txs) @ post) = Inr ((txs, locs), post)"
    and locs: "length locs = length txs"
      "\<forall>i < length txs. take (snd (locs ! i)) (drop (fst (locs ! i)) data) = MsgTx_Serialize (txs ! i)"
    using Cons.IH [of "pre @ MsgTx_Serialize tx"] by (auto simp: data_def)
  have "MsgTx_BtcDecode (concat (map MsgTx_Serialize (tx # txs)) @ post) =
      Inr (tx, concat (map MsgTx_Serialize txs) @ post)"
    using Cons.prems by (simp add: msgtx.dec_enc)
  with loop have "txLoc_loop (length data) (length (tx # txs)) (concat (map MsgTx_Serialize (tx # txs)) @ post) =
      Inr ((tx # txs, (length pre, length (MsgTx_Serialize tx)) # locs), post)"
    by (simp add: data_def)
  moreover have "take (length (MsgTx_Serialize tx)) (drop (length pre) data) = MsgTx_Serialize tx"
    by (simp add: data_def)
  ultimately show ?case
    using locs unfolding data_def [symmetric]
    by (intro exI [of _ "(length pre, length (MsgTx_Serialize tx)) # locs"]) (auto simp: less_Suc_eq_0_disj)
qed simp

lemma copy_at_prefix: "length src \<le> length dst \<Longrightarrow> copy_at dst 0 src = src @ drop (length src) dst"
  by (simp add: copy_at_def)

section \<open>Properties\<close>

text \<open>
  C7. A block has one serialization, of the announced size: the decoder accepts exactly the
  encodings of well-formed blocks, and \<open>SerializeSize\<close> is the length of the encoding.
\<close>

theorem MsgBlock_codec:
  "(MsgBlock_BtcDecode r = Inr (msg, rest) \<longleftrightarrow> MsgBlock_ok msg \<and> r = MsgBlock_Serialize msg @ rest) \<and>
   (MsgBlock_ok msg \<longrightarrow> length (MsgBlock_Serialize msg) = MsgBlock_SerializeSize msg)"
proof -
  have "length (MsgBlock_Serialize msg) = MsgBlock_SerializeSize msg" if "MsgBlock_ok msg"
  proof -
    have "length (concat (map MsgTx_Serialize (Transactions msg))) = (\<Sum>tx \<leftarrow> Transactions msg. serializeSize False tx)"
      using that length_btcEncode [of _ False]
      by (intro length_concat_map) (auto simp: MsgBlock_ok_def list_all_iff MsgTx_Serialize_def)
    with that show ?thesis
      by (simp add: MsgBlock_Serialize_def MsgBlock_SerializeSize_def MsgBlock_ok_def length_writeBlockHeader
          length_WriteVarInt foldl_add)
  qed
  then show ?thesis using msgblock.dec_iff by blast
qed

theorem MsgBlock_codec_witness:
  "MsgBlock_BtcDecode (MsgBlock_Serialize
     \<lparr>Header = \<lparr>BVersion = 4, PrevBlock = replicate 32 1, MerkleRoot = replicate 32 2, Timestamp = 5, Bits = 6,
        Height = 7, Size = 8, Nonce = 9, ValidatingPubKey = replicate 33 3, BSignature = replicate 80 4\<rparr>,
      Transactions = [NewMsgTx 1]\<rparr> @ [0]) =
   Inr (\<lparr>Header = \<lparr>BVersion = 4, PrevBlock = replicate 32 1, MerkleRoot = replicate 32 2, Timestamp = 5, Bits = 6,
        Height = 7, Size = 8, Nonce = 9, ValidatingPubKey = replicate 33 3, BSignature = replicate 80 4\<rparr>,
      Transactions = [NewMsgTx 1]\<rparr>, [0])"
  by (subst MsgBlock_codec [THEN conjunct1])
    (simp add: MsgBlock_ok_def BlockHeader_ok_def HashSize_def BlockValidatingPubKeySize_def BlockSignatureSize_def
      maxTxPerBlock_def MsgTx_ok_def NewMsgTx_def in_int32_def in_int64_def)

text \<open>
  C19. \<open>DeserializeTxLoc\<close> reads back the block that was serialized, and cutting the serialized
  bytes at the \<open>i\<close>-th location gives the serialization of the \<open>i\<close>-th transaction.
\<close>

theorem DeserializeTxLoc_correct:
  assumes "MsgBlock_ok msg"
  shows "\<exists>locs. DeserializeTxLoc (MsgBlock_Serialize msg) = Inr (msg, locs) \<and>
           length locs = length (Transactions msg) \<and>
           (\<forall>i < length (Transactions msg).
              take (snd (locs ! i)) (drop (fst (locs ! i)) (MsgBlock_Serialize msg)) =
              MsgTx_Serialize (Transactions msg ! i))"
proof -
  define pre where "pre = writeBlockHeader (Header msg) @ WriteVarInt (length (Transactions msg))"
  have eq: "MsgBlock_Serialize msg = pre @ concat (map MsgTx_Serialize (Transactions msg)) @ []"
    by (simp add: MsgBlock_Serialize_def pre_def)
  have "list_all MsgTx_ok (Transactions msg)" using assms by (simp add: MsgBlock_ok_def)
  from txLoc_loop_correct [OF this, of pre "[]"] obtain locs where
    l: "txLoc_loop (length (MsgBlock_Serialize msg)) (length (Transactions msg))
      (concat (map MsgTx_Serialize (Transactions msg))) = Inr ((Transactions msg, locs), [])"
    "length locs = length (Transactions msg)"
    "\<forall>i < length (Transactions msg). take (snd (locs ! i)) (drop (fst (locs ! i)) (MsgBlock_Serialize msg)) =
       MsgTx_Serialize (Transactions msg ! i)"
    unfolding eq by auto
  have "length (Transactions msg) < 2 ^ 64"
    using assms by (simp add: MsgBlock_ok_def maxTxPerBlock_def MaxBlockPayload_def minTxPayload_def)
  then have "DeserializeTxLoc (MsgBlock_Serialize msg) = Inr (msg, locs)"
    using assms l(1) unfolding DeserializeTxLoc_def Let_def
    by (simp add: MsgBlock_Serialize_def MsgBlock_ok_def header.dec_enc varint.dec_enc)
  with l show ?thesis by blast
qed

theorem DeserializeTxLoc_correct_witness:
  "\<exists>locs. DeserializeTxLoc (MsgBlock_Serialize
     \<lparr>Header = \<lparr>BVersion = 4, PrevBlock = replicate 32 1, MerkleRoot = replicate 32 2, Timestamp = 5, Bits = 6,
        Height = 7, Size = 8, Nonce = 9, ValidatingPubKey = replicate 33 3, BSignature = replicate 80 4\<rparr>,
      Transactions = [NewMsgTx 1, NewMsgTx 2]\<rparr>) =
     Inr (\<lparr>Header = \<lparr>BVersion = 4, PrevBlock = replicate 32 1, MerkleRoot = replicate 32 2, Timestamp = 5, Bits = 6,
        Height = 7, Size = 8, Nonce = 9, ValidatingPubKey = replicate 33 3, BSignature = replicate 80 4\<rparr>,
      Transactions = [NewMsgTx 1, NewMsgTx 2]\<rparr>, locs)"
  using DeserializeTxLoc_correct [of "\<lparr>Header = \<lparr>BVersion = 4, PrevBlock = replicate 32 1,
        MerkleRoot = replicate 32 2, Timestamp = 5, Bits = 6, Height = 7, Size = 8, Nonce = 9,
        ValidatingPubKey = replicate 33 3, BSignature = replicate 80 4\<rparr>,
      Transactions = [NewMsgTx 1, NewMsgTx 2]\<rparr>"]
  by (auto simp: MsgBlock_ok_def BlockHeader_ok_def HashSize_def BlockValidatingPubKeySize_def
      BlockSignatureSize_def maxTxPerBlock_def MaxBlockPayload_def minTxPayload_def MsgTx_ok_def NewMsgTx_def
      in_int32_def in_int64_def)

text \<open>
  C17. A header that a validator signs verifies under that validator's key: if the key's
  signatures are in range, low and valid (as RFC 6979 signing produces them), then after
  \<open>Sign\<close> the header carries the compressed public key, and \<open>Verify\<close> with that key succeeds,
  whatever bytes the signature field held behind the signature.
\<close>

theorem Sign_then_Verify:
  assumes "header_Sign c key_Sign pub h = Inr h'" and "BlockHeader_ok h"
    and "\<And>m sig. key_Sign m = Inr sig \<Longrightarrow> 0 < R sig \<and> R sig < curve_N \<and> 0 < S sig \<and> S sig \<le> halforder \<and>
           Signature_Verify c sig m pub"
    and "length (SerializeCompressed pub) = BlockValidatingPubKeySize"
  shows "header_Verify c pub h' = Inr True \<and> ValidatingPubKey h' = SerializeCompressed pub"
proof -
  obtain sig where sig: "key_Sign (hashForSigning c h) = Inr sig"
    and h': "h' = h\<lparr>ValidatingPubKey := copy_at (ValidatingPubKey h) 0
        (take BlockValidatingPubKeySize (SerializeCompressed pub)),
      BSignature := copy_at (BSignature h) 0 (Signature_Serialize sig)\<rparr>"
    using assms(1) by (auto simp: header_Sign_def Let_def)
  note s = assms(3) [OF sig]
  have "length (Signature_Serialize sig) \<le> length (BSignature h)"
    using length_Signature_Serialize [of sig] s assms(2) by (simp add: BlockHeader_ok_def BlockSignatureSize_def)
  then have "ParseDERSignature (BSignature h') = Inr sig"
    using parse_Serialize [of sig] s curve_N_bound by (simp add: h' copy_at_prefix)
  moreover have "hashForSigning c h' = hashForSigning c h" by (simp add: h' hashForSigning_def)
  ultimately show ?thesis
    using s assms(2,4) by (simp add: header_Verify_def h' copy_at_prefix BlockHeader_ok_def)
qed

definition example_header :: BlockHeader where
  "example_header = \<lparr>BVersion = 4, PrevBlock = replicate 32 1, MerkleRoot = replicate 32 2, Timestamp = 5, Bits = 6,
     Height = 7, Size = 8, Nonce = 9, ValidatingPubKey = replicate 33 3, BSignature = replicate 80 4\<rparr>"

lemma example_header_ok: "BlockHeader_ok example_header"
  by (simp add: BlockHeader_ok_def example_header_def HashSize_def BlockValidatingPubKeySize_def
      BlockSignatureSize_def in_int64_def)

theorem Sign_then_Verify_witness:
  "\<exists>h'. header_Sign example_crypto (\<lambda>m. Inr \<lparr>R = 3, S = 5\<rparr>) \<lparr>X = 3, Y = 5\<rparr> example_header = Inr h' \<and>
     header_Verify example_crypto \<lparr>X = 3, Y = 5\<rparr> h' = Inr True"
proof -
  define h' where "h' = projr (header_Sign example_crypto (\<lambda>m. Inr \<lparr>R = 3, S = 5\<rparr>) \<lparr>X = 3, Y = 5\<rparr> example_header)"
  have sign: "header_Sign example_crypto (\<lambda>m. Inr \<lparr>R = 3, S = 5\<rparr>) \<lparr>X = 3, Y = 5\<rparr> example_header = Inr h'"
    by (simp add: h'_def header_Sign_def Let_def)
  have "header_Verify example_crypto \<lparr>X = 3, Y = 5\<rparr> h' = Inr True \<and>
      ValidatingPubKey h' = SerializeCompressed \<lparr>X = 3, Y = 5\<rparr>"
    by (rule Sign_then_Verify [OF sign example_header_ok])
      (auto simp: curve_N_def halforder_def drop_bit_eq_div Signature_Verify_def example_crypto_def
        SerializeCompressed_def paddedAppend_def BlockValidatingPubKeySize_def be_bytes_def le_digits_pos)
  with sign show ?thesis by blast
qed

text \<open>
  C18. Verifying a block header panics on malformed signature fields: \<open>Verify\<close> runs into an
  index out of range exactly if the 80-byte field starts with \<open>0x30\<close> and its length byte is
  0, 254 or 255, or is 1 followed by the integer marker.  Every other field is rejected or
  checked.
\<close>

theorem header_Verify_panic_iff:
  assumes "BlockHeader_ok h"
  shows "header_Verify c pub h = Inl Panic \<longleftrightarrow>
    BSignature h ! 0 = 0x30 \<and>
    (BSignature h ! 1 = 0xfe \<or> BSignature h ! 1 = 0xff \<or> BSignature h ! 1 = 0 \<or>
     BSignature h ! 1 = 1 \<and> BSignature h ! 2 = 2)"
proof -
  have "header_Verify c pub h = Inl Panic \<longleftrightarrow> parseSig (BSignature h) True = Inl Panic"
    by (simp add: header_Verify_def ParseDERSignature_def split: sum.split script_err.split)
  then show ?thesis
    using assms by (simp add: parseSig_panic_iff BlockHeader_ok_def BlockSignatureSize_def)
qed

theorem header_Verify_panic_iff_witness:
  "header_Verify example_crypto \<lparr>X = 3, Y = 5\<rparr> (example_header\<lparr>BSignature := 0x30 # replicate 79 0xff\<rparr>) = Inl Panic"
  by (subst header_Verify_panic_iff)
    (simp_all add: BlockHeader_ok_def example_header_def HashSize_def BlockValidatingPubKeySize_def
      BlockSignatureSize_def in_int64_def)

end
