(* ===== verification/Chain_Base.thy ===== *)
theory Chain_Base
  imports Wire_Block "HOL-Library.Signed_Division"
begin

text \<open>
  What the parts of \<open>src/blockchain\<close> share: the rule error codes of \<open>error.go\<close>, the network
  parameters of \<open>src/chaincfg/params.go\<close> that validation reads, and the amounts of
  \<open>src/provautil/const.go\<close>.
\<close>

datatype (plugins only: code) RuleErrorCode =
    ErrDuplicateBlock | ErrBlockTooBig | ErrBlockVersionTooOld | ErrInvalidTime | ErrTimeTooOld
  | ErrTimeTooNew | ErrDifficultyTooLow | ErrUnexpectedDifficulty | ErrBadHeight
  | ErrBadBlockSignature | ErrHighHash | ErrBadMerkleRoot | ErrBadCheckpoint | ErrForkTooOld
  | ErrCheckpointTimeTooOld | ErrNoTransactions | ErrTooManyTransactions | ErrNoTxInputs
  | ErrNoTxOutputs | ErrTxTooBig | ErrBadTxOutValue | ErrDuplicateTxInputs | ErrBadTxInput
  | ErrMissingTx | ErrUnfinalizedTx | ErrDuplicateTx | ErrOverwriteTx | ErrImmatureSpend
  | ErrDoubleSpend | ErrSpendTooHigh | ErrBadFees | ErrTooManySigOps | ErrFirstTxNotCoinbase
  | ErrMultipleCoinbases | ErrBadCoinbaseScriptLen | ErrBadCoinbaseValue | ErrScriptMalformed
  | ErrScriptValidation | ErrExcessiveChainShare | ErrInconsistentBlkSize | ErrInvalidCoinbase
  | ErrInvalidTx | ErrInvalidValidateKey | ErrInvalidAdminTx | ErrInvalidAdminOp | ErrFeeTooHigh

text \<open>
  \<open>RuleErr c\<close> is \<open>ruleError(c, \<dots>)\<close>, \<open>AssertErr\<close> an \<open>AssertError\<close>, \<open>ErrBlockNotFound\<close> the error of
  the database for an unknown block, \<open>WireErr\<close> an error from decoding a message, \<open>PlainErr\<close> another error, and \<open>Lower e\<close> an
  error or a panic that comes from the other packages below.
\<close>

datatype chain_err =
    RuleErr RuleErrorCode | AssertErr | ErrDeserialize | ErrCorruption | ErrNotInMainChain | ErrBlockNotFound
  | WireErr wire_err | PlainErr | Lower script_err

type_synonym 'a cres = "chain_err + 'a"

definition lowerE :: "'a res \<Rightarrow> 'a cres" where
  "lowerE r = (case r of Inl e \<Rightarrow> Inl (Lower e) | Inr x \<Rightarrow> Inr x)"

text \<open>An error of a lower layer that is reported as a rule error; a panic is not.\<close>

definition orRule :: "RuleErrorCode \<Rightarrow> 'a res \<Rightarrow> 'a cres" where
  "orRule c r = (case r of Inr x \<Rightarrow> Inr x
     | Inl e \<Rightarrow> if e = Panic \<or> e = NoReturn then Inl (Lower e) else Inl (RuleErr c))"

lemma lowerE_simps [simp]:
  "lowerE (Inr x) = Inr x" "lowerE (Inl e) = Inl (Lower e)" "lowerE r = Inr x \<longleftrightarrow> r = Inr x"
  by (auto simp: lowerE_def split: sum.splits)

lemma orRule_simps [simp]: "orRule c (Inr x) = Inr x" "orRule c r = Inr x \<longleftrightarrow> r = Inr x"
  by (auto simp: orRule_def split: sum.splits if_splits)

definition AtomsPerGram :: int where "AtomsPerGram = 1000000"
definition MaxAtoms :: int where "MaxAtoms = 2100000000 * AtomsPerGram"

record Checkpoint =
  cp_Height :: "32 word"
  cp_Hash :: bytes

text \<open>
  The parameters of a network that the rules read, and the address prefixes; names, ports and seeds,
  and the genesis block with its key sets are left out.
\<close>

record Params =
  GenesisHash :: bytes
  PowLimit :: int
  PowLimitBits :: "32 word"
  CoinbaseMaturity :: "16 word"
  SubsidyReductionInterval :: "32 word"
  TargetTimePerBlock :: int
  GenerateSupported :: bool
  Checkpoints :: "Checkpoint list"
  BlockEnforceNumRequired :: nat
  BlockRejectNumRequired :: nat
  BlockUpgradeNumToCheck :: nat
  RelayNonStdTxs :: bool
  ProvaAddrID :: byte
  PrivateKeyID :: byte
  HDPrivateKeyID :: bytes
  HDPublicKeyID :: bytes
  HDCoinType :: "32 word"
  PowAveragingWindow :: int
  PowMaxAdjustDown :: int
  PowMaxAdjustUp :: int
  ChainWindowMaxBlocks :: int
  MaximumFeeAmount :: int

text \<open>
  The code divides floating point numbers and rounds up.  For the sizes in use the quotient is
  exact enough for the ceiling to be that of the rational quotient; a divisor of 0 gives
  infinity, which the conversion to \<open>int\<close> turns into the least 64-bit integer.
\<close>

definition MinValidateKeySetSize :: "Params \<Rightarrow> int" where
  "MinValidateKeySetSize p =
     (if ChainWindowMaxBlocks p = 0 then - (2 ^ 63)
      else - ((- PowAveragingWindow p) div ChainWindowMaxBlocks p))"

text \<open>Durations are counted in nanoseconds.\<close>

definition AveragingWindowTimespan :: "Params \<Rightarrow> int" where
  "AveragingWindowTimespan p = to_int64 (PowAveragingWindow p * TargetTimePerBlock p)"

definition MaxActualTimespan :: "Params \<Rightarrow> int" where
  "MaxActualTimespan p =
     (let dampenPercentage = to_int64 (100 + PowMaxAdjustDown p)
      in to_int64 (AveragingWindowTimespan p * dampenPercentage) sdiv 100)"

definition MinActualTimespan :: "Params \<Rightarrow> int" where
  "MinActualTimespan p =
     (let dampenPercentage = to_int64 (100 - PowMaxAdjustUp p)
      in to_int64 (AveragingWindowTimespan p * dampenPercentage) sdiv 100)"

text \<open>The parameters of the main network.\<close>

definition mainPowLimit :: int where "mainPowLimit = 2 ^ 243 - 1"

definition MainNetParams :: "bytes \<Rightarrow> Params" where
  "MainNetParams genesis = \<lparr>GenesisHash = genesis, PowLimit = mainPowLimit, PowLimitBits = 0x1f07ffff,
     CoinbaseMaturity = 100, SubsidyReductionInterval = 210000, TargetTimePerBlock = 150 * 1000000000,
     GenerateSupported = False, Checkpoints = [],
     BlockEnforceNumRequired = 750, BlockRejectNumRequired = 950, BlockUpgradeNumToCheck = 1000,
     RelayNonStdTxs = False, ProvaAddrID = 0x33, PrivateKeyID = 0x80, HDPrivateKeyID = [0x04, 0x88, 0xad, 0xe4],
     HDPublicKeyID = [0x04, 0x88, 0xb2, 0x1e], HDCoinType = 0,
     PowAveragingWindow = 31, PowMaxAdjustDown = 32, PowMaxAdjustUp = 16, ChainWindowMaxBlocks = 3,
     MaximumFeeAmount = 5000000\<rparr>"

section \<open>Undoing a sequence of steps\<close>

lemma foldE_total:
  assumes "\<And>s x. x \<in> set xs \<Longrightarrow> f s x = Inr (g s x)"
  shows "foldE f s xs = Inr (foldl g s xs)"
  using assms by (induction xs arbitrary: s) auto

lemma foldE_map: "foldE f s (map h xs) = foldE (\<lambda>s x. f s (h x)) s xs"
  by (induction xs arbitrary: s) auto

lemma foldE_cong:
  assumes "\<And>s x. x \<in> set xs \<Longrightarrow> f s x = g s x"
  shows "foldE f s xs = foldE g s xs"
proof -
  have "foldE f s ys = foldE g s ys" if "set ys \<subseteq> set xs" for ys
    using that
  proof (induction ys arbitrary: s)
    case (Cons y ys)
    then show ?case using assms [of y s] by (cases "g s y") auto
  qed simp
  then show ?thesis by simp
qed

text \<open>Every step is in order where it is run, and succeeds.\<close>

fun steps_ok :: "('x \<Rightarrow> 's \<Rightarrow> bool) \<Rightarrow> ('x \<Rightarrow> 's \<Rightarrow> 'e + 's) \<Rightarrow> 'x list \<Rightarrow> 's \<Rightarrow> bool" where
  "steps_ok ok run [] s \<longleftrightarrow> True"
| "steps_ok ok run (x # xs) s \<longleftrightarrow> ok x s \<and> (case run x s of Inl _ \<Rightarrow> False | Inr s' \<Rightarrow> steps_ok ok run xs s')"

text \<open>
  The contract of steps that can be undone: a step that is in order at a state succeeds there, and
  undoing it leads back to the state, up to the relation \<open>sim\<close>, which undoing respects.
\<close>

locale undo_log =
  fixes run :: "'x \<Rightarrow> 's \<Rightarrow> 'e + 's" and undo :: "'x \<Rightarrow> 's \<Rightarrow> 'e + 's"
    and ok :: "'x \<Rightarrow> 's \<Rightarrow> bool" and inv :: "'s \<Rightarrow> bool" and sim :: "'s \<Rightarrow> 's \<Rightarrow> bool"
  assumes run_undo: "ok x s \<Longrightarrow> inv s \<Longrightarrow>
      \<exists>s' t. run x s = Inr s' \<and> inv s' \<and> undo x s' = Inr t \<and> inv t \<and> sim s t"
    and undo_sim: "inv s \<Longrightarrow> inv t \<Longrightarrow> sim s t \<Longrightarrow> undo x s = Inr s' \<Longrightarrow>
      \<exists>t'. undo x t = Inr t' \<and> inv s' \<and> inv t' \<and> sim s' t'"
    and sim_refl: "sim s s"
    and sim_trans: "sim s t \<Longrightarrow> sim t u \<Longrightarrow> sim s u"
begin

lemma undo_all:
  assumes "inv s" and "steps_ok ok run xs s"
  shows "\<exists>s' t. foldE (\<lambda>s x. run x s) s xs = Inr s' \<and> inv s' \<and>
    foldE (\<lambda>s x. undo x s) s' (rev xs) = Inr t \<and> inv t \<and> sim s t"
  using assms
proof (induction xs arbitrary: s)
  case Nil
  then show ?case by (simp add: sim_refl)
next
  case (Cons x xs)
  obtain s1 t1 where 1: "run x s = Inr s1" "inv s1" "undo x s1 = Inr t1" "inv t1" "sim s t1"
    using run_undo [of x s] Cons.prems by auto
  obtain s2 t2 where 2: "foldE (\<lambda>s x. run x s) s1 xs = Inr s2" "inv s2"
      "foldE (\<lambda>s x. undo x s) s2 (rev xs) = Inr t2" "inv t2" "sim s1 t2"
    using Cons.IH [of s1] Cons.prems 1 by auto
  obtain t3 where "undo x t2 = Inr t3" "inv t3" "sim t1 t3"
    using undo_sim [OF 1(2) 2(4,5) 1(3)] by auto
  with 1 2 show ?case by (auto simp: foldE_append intro: sim_trans)
qed

end

end
