(* ===== verification/Compress.thy ===== *)
theory Compress
  imports Chain_Base Script_Standard
begin

text \<open>
  The compressed storage formats of \<open>src/blockchain/compress.go\<close>: variable length quantities,
  and the domain specific compression of amounts and public key scripts.

  Unsigned 64-bit integers are natural numbers, with the wrap-around written out where an
  operation can leave the range.  A function that writes into a target slice returns the bytes
  it writes.

  The lemmas show that each format reads back, from the front of a longer string, what was
  written, and that the size functions give the number of bytes written.
\<close>

section \<open>Variable length quantities\<close>

function serializeSizeVLQ :: "nat \<Rightarrow> nat" where
  "serializeSizeVLQ n = (if n > 0x7f then 1 + serializeSizeVLQ (n div 2 ^ 7 - 1) else 1)"
  by pat_completeness auto
termination by (relation "measure id") auto

text \<open>The loop of \<open>putVLQ\<close>, low groups of seven bits first; the result is reversed at the end.\<close>

function putVLQ_loop :: "nat \<Rightarrow> nat \<Rightarrow> bytes" where
  "putVLQ_loop offset n =
     (let highBitMask = (if offset = 0 then 0x00 else 0x80);
          b = word_of_nat (n mod 0x80) OR highBitMask
      in if n \<le> 0x7f then [b] else b # putVLQ_loop (offset + 1) (n div 2 ^ 7 - 1))"
  by pat_completeness auto
termination by (relation "measure snd") auto

definition putVLQ :: "nat \<Rightarrow> bytes" where
  "putVLQ n = rev (putVLQ_loop 0 n)"

fun deserializeVLQ_loop :: "nat \<Rightarrow> nat \<Rightarrow> bytes \<Rightarrow> nat \<times> nat" where
  "deserializeVLQ_loop n sz [] = (n, sz)"
| "deserializeVLQ_loop n sz (val # serialized) =
     (let sz = sz + 1;
          n = (n * 2 ^ 7) mod 2 ^ 64 + unat (val AND 0x7f)
      in if val AND 0x80 \<noteq> 0x80 then (n, sz)
         else deserializeVLQ_loop ((n + 1) mod 2 ^ 64) sz serialized)"

definition deserializeVLQ :: "bytes \<Rightarrow> nat \<times> nat" where
  "deserializeVLQ serialized = deserializeVLQ_loop 0 0 serialized"

declare serializeSizeVLQ.simps [simp del] putVLQ_loop.simps [simp del]

section \<open>Scripts\<close>

definition isPubKeyHash :: "bytes \<Rightarrow> bytes option" where
  "isPubKeyHash scr =
     (if length scr = 25 \<and> scr ! 0 = OP_DUP \<and> scr ! 1 = OP_HASH160 \<and> scr ! 2 = OP_DATA_20 \<and>
         scr ! 23 = OP_EQUALVERIFY \<and> scr ! 24 = OP_CHECKSIG
      then Some (take 20 (drop 3 scr)) else None)"

definition isScriptHash_bytes :: "bytes \<Rightarrow> bytes option" where
  "isScriptHash_bytes scr =
     (if length scr = 23 \<and> scr ! 0 = OP_HASH160 \<and> scr ! 1 = OP_DATA_20 \<and> scr ! 22 = OP_EQUAL
      then Some (take 20 (drop 2 scr)) else None)"

abbreviation (input) OP_DATA_33 :: byte where "OP_DATA_33 \<equiv> 0x21"
abbreviation (input) OP_DATA_65 :: byte where "OP_DATA_65 \<equiv> 0x41"

definition isPubKey :: "bytes \<Rightarrow> bytes option" where
  "isPubKey scr =
     (if length scr = 35 \<and> scr ! 0 = OP_DATA_33 \<and> scr ! 34 = OP_CHECKSIG \<and> (scr ! 1 = 0x02 \<or> scr ! 1 = 0x03) \<and>
         \<not> isl (ParsePubKey (take 33 (drop 1 scr)))
      then Some (take 33 (drop 1 scr))
      else if length scr = 67 \<and> scr ! 0 = OP_DATA_65 \<and> scr ! 66 = OP_CHECKSIG \<and> scr ! 1 = 0x04 \<and>
         \<not> isl (ParsePubKey (take 65 (drop 1 scr)))
      then Some (take 65 (drop 1 scr)) else None)"

definition numSpecialScripts :: nat where "numSpecialScripts = 6"

definition compressedScriptSize :: "bytes \<Rightarrow> nat" where
  "compressedScriptSize pkScript =
     (if isPubKeyHash pkScript \<noteq> None then 21
      else if isScriptHash_bytes pkScript \<noteq> None then 21
      else if isPubKey pkScript \<noteq> None then 33
      else serializeSizeVLQ (length pkScript + numSpecialScripts) + length pkScript)"

text \<open>The result is converted to \<open>int\<close>.\<close>

definition decodeCompressedScriptSize :: "bytes \<Rightarrow> int" where
  "decodeCompressedScriptSize serialized =
     (let (scriptSize, bytesRead) = deserializeVLQ serialized
      in if bytesRead = 0 then 0
         else if scriptSize = 0 then 21
         else if scriptSize = 1 then 21
         else if scriptSize \<in> {2, 3, 4, 5} then 33
         else to_int64 (int (scriptSize - numSpecialScripts + bytesRead)))"

definition putCompressedScript :: "bytes \<Rightarrow> bytes" where
  "putCompressedScript pkScript =
     (case isPubKeyHash pkScript of Some h \<Rightarrow> 0 # h
      | None \<Rightarrow> (case isScriptHash_bytes pkScript of Some h \<Rightarrow> 1 # h
      | None \<Rightarrow>
          let general = putVLQ (length pkScript + numSpecialScripts) @ pkScript
          in case isPubKey pkScript of
               Some serializedPubKey \<Rightarrow>
                 let pubKeyFormat = serializedPubKey ! 0
                 in if pubKeyFormat = 0x02 \<or> pubKeyFormat = 0x03
                    then pubKeyFormat # take 32 (drop 1 serializedPubKey)
                    else if pubKeyFormat = 0x04
                    then (pubKeyFormat OR (serializedPubKey ! 64 AND 0x01)) # take 32 (drop 1 serializedPubKey)
                    else general
             | None \<Rightarrow> general))"

text \<open>
  \<open>decompressScript\<close>; slicing out of range panics, a nil result is the empty script.
\<close>

definition sliceE :: "bytes \<Rightarrow> nat \<Rightarrow> int \<Rightarrow> bytes res" where
  "sliceE b i j = (if int i \<le> j \<and> j \<le> int (length b) then Inr (drop i (take (nat j) b)) else Inl Panic)"

definition decompressScript :: "bytes \<Rightarrow> bytes res" where
  "decompressScript compressedPkScript =
     (if length compressedPkScript = 0 then Inr []
      else
        let (encodedScriptSize, bytesRead) = deserializeVLQ compressedPkScript
        in if encodedScriptSize = 0 then
             bindE (sliceE compressedPkScript bytesRead (int bytesRead + 20)) (\<lambda>h.
               Inr ([OP_DUP, OP_HASH160, OP_DATA_20] @ h @ [OP_EQUALVERIFY, OP_CHECKSIG]))
           else if encodedScriptSize = 1 then
             bindE (sliceE compressedPkScript bytesRead (int bytesRead + 20)) (\<lambda>h.
               Inr ([OP_HASH160, OP_DATA_20] @ h @ [OP_EQUAL]))
           else if encodedScriptSize \<in> {2, 3} then
             bindE (sliceE compressedPkScript bytesRead (int bytesRead + 32)) (\<lambda>k.
               Inr ([OP_DATA_33, word_of_nat encodedScriptSize] @ k @ [OP_CHECKSIG]))
           else if encodedScriptSize \<in> {4, 5} then
             let compressedKey = copy_at (word_of_nat (encodedScriptSize - 2) # replicate 32 0) 1 (drop 1 compressedPkScript)
             in case ParsePubKey compressedKey of
                  Inl _ \<Rightarrow> Inr []
                | Inr key \<Rightarrow> Inr ([OP_DATA_65] @ SerializeUncompressed key @ [OP_CHECKSIG])
           else
             let scriptSize = to_int64 (int (encodedScriptSize - numSpecialScripts))
             in if scriptSize < 0 then Inl Panic
                else sliceE compressedPkScript bytesRead (int bytesRead + scriptSize))"

section \<open>Amounts\<close>

function strip_zeros :: "nat \<Rightarrow> nat \<Rightarrow> nat \<times> nat" where
  "strip_zeros amount exponent =
     (if amount mod 10 = 0 \<and> exponent < 9 then strip_zeros (amount div 10) (exponent + 1) else (amount, exponent))"
  by pat_completeness auto
termination by (relation "measure (\<lambda>(_, e). 9 - e)") auto

declare strip_zeros.simps [simp del]

definition compressTxOutAmount :: "nat \<Rightarrow> nat" where
  "compressTxOutAmount amount =
     (if amount = 0 then 0
      else
        let (amount, exponent) = strip_zeros amount 0
        in if exponent < 9 then
             let lastDigit = amount mod 10; amount = amount div 10
             in (1 + 10 * (9 * amount + lastDigit - 1) + exponent) mod 2 ^ 64
           else (10 + 10 * (amount - 1)) mod 2 ^ 64)"

definition decompressTxOutAmount :: "nat \<Rightarrow> nat" where
  "decompressTxOutAmount amount =
     (if amount = 0 then 0
      else
        let amount = amount - 1;
            exponent = amount mod 10;
            amount = amount div 10;
            n = (if exponent < 9 then
                   let lastDigit = amount mod 9 + 1; amount = amount div 9
                   in (amount * 10 + lastDigit) mod 2 ^ 64
                 else (amount + 1) mod 2 ^ 64)
        in ((\<lambda>n. (n * 10) mod 2 ^ 64) ^^ exponent) n)"

section \<open>Transaction outputs\<close>

definition compressedTxOutSize :: "nat \<Rightarrow> bytes \<Rightarrow> bool \<Rightarrow> nat" where
  "compressedTxOutSize amount pkScript preCompressed =
     (if preCompressed then serializeSizeVLQ amount + length pkScript
      else serializeSizeVLQ (compressTxOutAmount amount) + compressedScriptSize pkScript)"

definition putCompressedTxOut :: "nat \<Rightarrow> bytes \<Rightarrow> bool \<Rightarrow> bytes" where
  "putCompressedTxOut amount pkScript preCompressed =
     (if preCompressed then putVLQ amount @ pkScript
      else putVLQ (compressTxOutAmount amount) @ putCompressedScript pkScript)"

text \<open>A negative script size makes a slice of negative length, which panics.\<close>

definition decodeCompressedTxOut :: "bytes \<Rightarrow> (nat \<times> bytes \<times> nat) res" where
  "decodeCompressedTxOut serialized =
     (let (compressedAmount, bytesRead) = deserializeVLQ serialized
      in if bytesRead \<ge> length serialized then Inl OtherErr
         else
           let scriptSize = decodeCompressedScriptSize (drop bytesRead serialized)
           in if int (length (drop bytesRead serialized)) < scriptSize then Inl OtherErr
              else if scriptSize < 0 then Inl Panic
              else Inr (compressedAmount, take (nat scriptSize) (drop bytesRead serialized), bytesRead + nat scriptSize))"

section \<open>Reading back\<close>

subsection \<open>Variable length quantities\<close>

lemma putVLQ_loop_Suc: "putVLQ_loop (Suc k) n = putVLQ_loop 1 n"
proof (induction n arbitrary: k rule: less_induct)
  case (less n)
  show ?case
  proof (cases "n \<le> 0x7f")
    case True
    then show ?thesis by (simp add: putVLQ_loop.simps)
  next
    case False
    then have "n div 2 ^ 7 - 1 < n" by auto
    from less.IH [OF this] have "putVLQ_loop (Suc j) (n div 2 ^ 7 - 1) = putVLQ_loop 1 (n div 2 ^ 7 - 1)" for j .
    then show ?thesis using False
      by (simp add: putVLQ_loop.simps [of "Suc k" n] putVLQ_loop.simps [of 1 n] Let_def del: One_nat_def) (metis Suc_1 Suc_eq_plus1)
  qed
qed

definition vlq_high :: "nat \<Rightarrow> bytes" where "vlq_high m = rev (putVLQ_loop 1 m)"

lemma vlq_high_step:
  "vlq_high m = (if m \<le> 0x7f then [word_of_nat m OR 0x80] else vlq_high (m div 2 ^ 7 - 1) @ [word_of_nat (m mod 0x80) OR 0x80])"
  using putVLQ_loop_Suc [of 1 "m div 2 ^ 7 - 1"] by (simp add: vlq_high_def putVLQ_loop.simps [of "Suc 0" m] Let_def)

lemma putVLQ_step:
  "putVLQ n = (if n \<le> 0x7f then [word_of_nat n] else vlq_high (n div 2 ^ 7 - 1) @ [word_of_nat (n mod 0x80)])"
  by (simp add: putVLQ_def vlq_high_def putVLQ_loop.simps [of 0 n] Let_def)

lemma vlq_byte:
  assumes "m < 0x80"
  shows "unat ((word_of_nat m OR 0x80 :: byte) AND 0x7f) = m" "(word_of_nat m OR 0x80 :: byte) AND 0x80 = 0x80"
    "unat ((word_of_nat m :: byte) AND 0x7f) = m" "(word_of_nat m :: byte) AND 0x80 \<noteq> 0x80"
proof -
  have 7: "unat (b AND 0x7f) = unat b mod 0x80" for b :: byte
  proof -
    have "b AND 0x7f = take_bit 7 b" by (simp add: take_bit_eq_mask mask_eq_exp_minus_1)
    then have "unat (b AND 0x7f) = take_bit 7 (unat b)" by (simp only: unsigned_take_bit_eq)
    then show ?thesis by (simp add: take_bit_eq_mod)
  qed
  have w: "unat (word_of_nat m :: byte) = m" using assms by (simp add: unat_byte_of_nat)
  then have "unat (word_of_nat m OR 0x80 :: byte) = m + 0x80" using byte_or_80 [of "word_of_nat m"] assms by simp
  then show "unat ((word_of_nat m OR 0x80 :: byte) AND 0x7f) = m" "(word_of_nat m OR 0x80 :: byte) AND 0x80 = 0x80"
    "unat ((word_of_nat m :: byte) AND 0x7f) = m" "(word_of_nat m :: byte) AND 0x80 \<noteq> 0x80"
    using w assms by (simp_all add: 7 byte_and_80_eq)
qed

lemma vlq_high_read:
  "m + 1 < 2 ^ 64 \<Longrightarrow> deserializeVLQ_loop 0 s (vlq_high m @ t) = deserializeVLQ_loop (m + 1) (s + length (vlq_high m)) t"
proof (induction m arbitrary: t rule: less_induct)
  case (less m)
  show ?case
  proof (cases "m \<le> 0x7f")
    case True
    then show ?thesis using vlq_byte [of m] less.prems by (simp add: vlq_high_step [of m] Let_def)
  next
    case False
    let ?h = "m div 2 ^ 7 - 1"
    have h: "?h < m" "?h + 1 < 2 ^ 64" "?h + 1 = m div 2 ^ 7" using False less.prems by auto
    have "m mod 0x80 < 0x80" by simp
    note b = vlq_byte [OF this]
    have "(m div 2 ^ 7 * 2 ^ 7) mod 2 ^ 64 + m mod 0x80 = m"
    proof -
      have "m div 2 ^ 7 * 2 ^ 7 < 2 ^ 64" using less.prems by (metis Suc_eq_plus1 Suc_lessD div_times_less_eq_dividend order_le_less_trans)
      then show ?thesis using div_mult_mod_eq [of m "2 ^ 7"] by simp
    qed
    then show ?thesis
      using less.IH [OF h(1,2), of "[word_of_nat (m mod 0x80) OR 0x80] @ t"] less.prems False b h(3)
      by (simp add: vlq_high_step [of m] Let_def)
  qed
qed

lemma putVLQ_read:
  assumes "n < 2 ^ 64"
  shows "deserializeVLQ (putVLQ n @ t) = (n, length (putVLQ n))"
proof (cases "n \<le> 0x7f")
  case True
  then show ?thesis using vlq_byte [of n] by (simp add: putVLQ_step [of n] deserializeVLQ_def Let_def)
next
  case False
  let ?h = "n div 2 ^ 7 - 1"
  have h: "?h + 1 < 2 ^ 64" "?h + 1 = n div 2 ^ 7" using False assms by auto
  have "n mod 0x80 < 0x80" by simp
  note b = vlq_byte [OF this]
  have "(n div 2 ^ 7 * 2 ^ 7) mod 2 ^ 64 + n mod 0x80 = n"
  proof -
    have "n div 2 ^ 7 * 2 ^ 7 < 2 ^ 64" using assms by (metis div_times_less_eq_dividend order_le_less_trans)
    then show ?thesis using div_mult_mod_eq [of n "2 ^ 7"] by simp
  qed
  then show ?thesis
    using vlq_high_read [OF h(1), of 0 "[word_of_nat (n mod 0x80)] @ t"] False b h(2)
    by (simp add: putVLQ_step [of n] deserializeVLQ_def Let_def)
qed

lemma length_vlq_high: "length (vlq_high m) = serializeSizeVLQ m"
proof (induction m rule: less_induct)
  case (less m)
  show ?case
  proof (cases "m \<le> 0x7f")
    case False
    then have "m div 2 ^ 7 - 1 < m" by auto
    from less.IH [OF this] False show ?thesis
      by (simp add: vlq_high_step [of m] serializeSizeVLQ.simps [of m])
  qed (simp add: vlq_high_step [of m] serializeSizeVLQ.simps [of m])
qed

lemma length_putVLQ: "length (putVLQ n) = serializeSizeVLQ n"
  using length_vlq_high [of "n div 2 ^ 7 - 1"] by (simp add: putVLQ_step [of n] serializeSizeVLQ.simps [of n])

lemma serializeSizeVLQ_bounds: "0 < serializeSizeVLQ n" "serializeSizeVLQ n \<le> n + 1"
proof -
  show "0 < serializeSizeVLQ n" by (simp add: serializeSizeVLQ.simps)
  show "serializeSizeVLQ n \<le> n + 1"
  proof (induction n rule: less_induct)
    case (less n)
    show ?case
    proof (cases "n > 0x7f")
      case True
      then have "n div 2 ^ 7 - 1 < n" by auto
      from less.IH [OF this] this True show ?thesis by (simp add: serializeSizeVLQ.simps [of n])
    qed (simp add: serializeSizeVLQ.simps [of n])
  qed
qed

lemma putVLQ_nonempty: "putVLQ n \<noteq> []"
  using length_putVLQ [of n] serializeSizeVLQ_bounds(1) [of n] by auto

subsection \<open>Amounts\<close>

lemma strip_zeros_props:
  assumes "strip_zeros a e = (a', e')" and "e \<le> 9"
  shows "e \<le> e' \<and> e' \<le> 9 \<and> a = a' * 10 ^ (e' - e) \<and> (e' < 9 \<longrightarrow> a' mod 10 \<noteq> 0)"
  using assms
proof (induction a e rule: strip_zeros.induct)
  case (1 a e)
  show ?case
  proof (cases "a mod 10 = 0 \<and> e < 9")
    case True
    then have "strip_zeros (a div 10) (e + 1) = (a', e')" using 1(2) by (simp add: strip_zeros.simps [of a e])
    then have ih: "e + 1 \<le> e'" "e' \<le> 9" "a div 10 = a' * 10 ^ (e' - (e + 1))" "e' < 9 \<longrightarrow> a' mod 10 \<noteq> 0"
      using 1(1) [OF True] True by auto
    have "a = a div 10 * 10" using True by auto
    also have "\<dots> = a' * (10 ^ (e' - (e + 1)) * 10)" by (simp add: ih(3))
    also have "10 ^ (e' - (e + 1)) * 10 = (10 :: nat) ^ (e' - e)"
      using ih(1) by (metis Suc_diff_le Suc_eq_plus1 diff_Suc_Suc power_Suc2)
    finally show ?thesis using ih by simp
  next
    case False
    then show ?thesis using 1(2,3) by (auto simp: strip_zeros.simps [of a e])
  qed
qed

lemma scale_back: "n * 10 ^ e < 2 ^ 64 \<Longrightarrow> ((\<lambda>n. (n * 10) mod 2 ^ 64) ^^ e) n = (n :: nat) * 10 ^ e"
proof (induction e)
  case (Suc e)
  then have "n * 10 ^ e * 10 < 2 ^ 64" by (simp add: mult.assoc mult.commute)
  then have "((\<lambda>n. (n * 10) mod 2 ^ 64) ^^ e) n = n * 10 ^ e" by (intro Suc.IH) simp
  with \<open>n * 10 ^ e * 10 < 2 ^ 64\<close> show ?case by (simp add: mult.assoc mult.commute)
qed simp

lemma decompress_amount:
  assumes "a < 2 ^ 60"
  shows "decompressTxOutAmount (compressTxOutAmount a) = a" and "compressTxOutAmount a < 2 ^ 64"
proof -
  show "compressTxOutAmount a < 2 ^ 64"
    by (auto simp: compressTxOutAmount_def Let_def split: prod.splits)
  show "decompressTxOutAmount (compressTxOutAmount a) = a"
  proof (cases "a = 0")
    case True
    then show ?thesis by (simp add: compressTxOutAmount_def decompressTxOutAmount_def)
  next
    case False
    obtain n e where s: "strip_zeros a 0 = (n, e)" by fastforce
    have p: "e \<le> 9" "a = n * 10 ^ e" "e < 9 \<longrightarrow> n mod 10 \<noteq> 0" using strip_zeros_props [OF s] by auto
    have n: "0 < n" "n \<le> a" using p(2) False by auto
    have bk: "((\<lambda>n. (n * 10) mod 2 ^ 64) ^^ e) n = a" using scale_back [of n e] assms p(2) by simp
    show ?thesis
    proof (cases "e < 9")
      case True
      define d q where "d = n mod 10" and "q = n div 10"
      have dq: "n = q * 10 + d" "0 < d" "d < 10" using p(3) True by (auto simp: d_def q_def)
      have "1 + 10 * (9 * q + d - 1) + e < 2 ^ 64" using dq n(2) assms True by simp
      then have c: "compressTxOutAmount a = 1 + 10 * (9 * q + d - 1) + e"
        using False True by (simp add: compressTxOutAmount_def s d_def [symmetric] q_def [symmetric])
      have "9 * q + d - 1 = d - 1 + 9 * q" using dq(2) by simp
      then have "(9 * q + d - 1) mod 9 = d - 1" "(9 * q + d - 1) div 9 = q" using dq(3) by simp_all
      moreover have "(10 * (9 * q + d - 1) + e) mod 10 = e" "(10 * (9 * q + d - 1) + e) div 10 = 9 * q + d - 1"
        using True by simp_all
      moreover have "q * 10 + d < 2 ^ 64" using dq(1) n(2) assms by simp
      ultimately show ?thesis
        using bk True dq by (simp add: c decompressTxOutAmount_def Let_def)
    next
      case False
      then have e: "e = 9" using p(1) by simp
      have "10 + 10 * (n - 1) < 2 ^ 64" using n assms by simp
      then have c: "compressTxOutAmount a = 10 + 10 * (n - 1)"
        using \<open>a \<noteq> 0\<close> by (simp add: compressTxOutAmount_def s e)
      have "10 + 10 * (n - 1) - 1 = 10 * (n - 1) + 9" by simp
      moreover have "(10 * (n - 1) + 9) mod 10 = 9" "(10 * (n - 1) + 9) div 10 = n - 1" by simp_all
      ultimately show ?thesis using bk n assms by (simp add: c decompressTxOutAmount_def Let_def e)
    qed
  qed
qed

subsection \<open>Scripts\<close>

lemma read_special:
  assumes "k < 0x80"
  shows "deserializeVLQ (word_of_nat k # t) = (k, 1)"
  using vlq_byte [OF assms] by (simp add: deserializeVLQ_def Let_def)

lemmas read_specials =
  read_special [of 0, simplified] read_special [of 1, simplified] read_special [of 2, simplified]
  read_special [of 3, simplified] read_special [of 4, simplified] read_special [of 5, simplified]

lemma split_nth:
  assumes "length s = i + n + j"
  shows "s = map ((!) s) [0 ..< i] @ take n (drop i s) @ map ((!) s) [i + n ..< i + n + j]"
proof -
  have "s = take i s @ take n (drop i s) @ drop (i + n) s"
    by (metis add.commute append_take_drop_id drop_drop)
  moreover have "take i s = map ((!) s) [0 ..< i]" using assms by (intro nth_equalityI) auto
  moreover have "drop (i + n) s = map ((!) s) [i + n ..< i + n + j]" using assms by (intro nth_equalityI) auto
  ultimately show ?thesis by simp
qed

text \<open>The five shapes of a compressed script.\<close>

lemma putCompressedScript_cases:
  obtains (p2pkh) h where "pkScript = [OP_DUP, OP_HASH160, OP_DATA_20] @ h @ [OP_EQUALVERIFY, OP_CHECKSIG]" "length h = 20"
      "putCompressedScript pkScript = 0 # h" "compressedScriptSize pkScript = 21"
  | (p2sh) h where "pkScript = [OP_HASH160, OP_DATA_20] @ h @ [OP_EQUAL]" "length h = 20"
      "putCompressedScript pkScript = 1 # h" "compressedScriptSize pkScript = 21"
  | (p2pk) f k where "pkScript = [OP_DATA_33, f] @ k @ [OP_CHECKSIG]" "length k = 32" "f = 2 \<or> f = 3"
      "putCompressedScript pkScript = f # k" "compressedScriptSize pkScript = 33"
  | (p2pk_uncompressed) f k where "length pkScript = 67" "isPubKey pkScript \<noteq> None" "f = 4 \<or> f = 5" "length k = 32"
      "putCompressedScript pkScript = f # k" "compressedScriptSize pkScript = 33"
  | (general) "putCompressedScript pkScript = putVLQ (length pkScript + numSpecialScripts) @ pkScript"
      "compressedScriptSize pkScript = serializeSizeVLQ (length pkScript + numSpecialScripts) + length pkScript"
proof (cases "isPubKeyHash pkScript")
  case (Some h)
  show ?thesis
  proof (rule p2pkh)
    show "pkScript = [OP_DUP, OP_HASH160, OP_DATA_20] @ h @ [OP_EQUALVERIFY, OP_CHECKSIG]" "length h = 20"
      using Some split_nth [of pkScript 3 20 2] by (auto simp: isPubKeyHash_def upt_rec numeral_2_eq_2 split: if_splits)
  qed (use Some in \<open>simp_all add: putCompressedScript_def compressedScriptSize_def\<close>)
next
  case no_p2pkh: None
  show ?thesis
  proof (cases "isScriptHash_bytes pkScript")
    case (Some h)
    show ?thesis
    proof (rule p2sh)
      show "pkScript = [OP_HASH160, OP_DATA_20] @ h @ [OP_EQUAL]" "length h = 20"
        using Some split_nth [of pkScript 2 20 1] by (auto simp: isScriptHash_bytes_def upt_rec split: if_splits)
    qed (use Some no_p2pkh in \<open>simp_all add: putCompressedScript_def compressedScriptSize_def\<close>)
  next
    case no_p2sh: None
    show ?thesis
    proof (cases "isPubKey pkScript")
      case None
      then show ?thesis using general no_p2pkh no_p2sh by (simp add: putCompressedScript_def compressedScriptSize_def)
    next
      case (Some k)
      consider "length pkScript = 35" "pkScript ! 0 = OP_DATA_33" "pkScript ! 34 = OP_CHECKSIG"
          "pkScript ! 1 = 2 \<or> pkScript ! 1 = 3" "k = take 33 (drop 1 pkScript)"
        | "length pkScript = 67" "k = take 65 (drop 1 pkScript)" "pkScript ! 1 = 4"
        using Some by (auto simp: isPubKey_def split: if_splits)
      then show ?thesis
      proof cases
        case 1
        have "take 32 (drop 1 k) = take 32 (drop 2 pkScript)" by (simp add: 1 drop_take numeral_2_eq_2)
        moreover have "k ! 0 = pkScript ! 1" using 1 by simp
        ultimately have "putCompressedScript pkScript = pkScript ! 1 # take 32 (drop 2 pkScript)"
          "compressedScriptSize pkScript = 33"
          using 1(4) no_p2pkh no_p2sh Some by (auto simp: putCompressedScript_def compressedScriptSize_def Let_def)
        moreover have "pkScript = [OP_DATA_33, pkScript ! 1] @ take 32 (drop 2 pkScript) @ [OP_CHECKSIG]"
          using 1 split_nth [of pkScript 2 32 1] by (simp add: upt_rec)
        ultimately show ?thesis using p2pk [of "pkScript ! 1" "take 32 (drop 2 pkScript)"] 1 by simp
      next
        case 2
        have f: "(4 :: byte) OR (b AND 1) = 4 \<or> (4 :: byte) OR (b AND 1) = 5" for b
        proof -
          have "b AND 1 = 0 \<or> b AND 1 = 1" by (simp add: and_one_eq mod2_eq_if)
          then show ?thesis by auto
        qed
        have "k ! 0 = 4" "length (take 32 (drop 1 k)) = 32" using 2 by simp_all
        then have "putCompressedScript pkScript = (4 OR (k ! 64 AND 1)) # take 32 (drop 1 k)" "compressedScriptSize pkScript = 33"
          using no_p2pkh no_p2sh Some by (simp_all add: putCompressedScript_def compressedScriptSize_def Let_def)
        moreover have "isPubKey pkScript \<noteq> None" using Some by simp
        ultimately show ?thesis using 2(1) \<open>length (take 32 (drop 1 k)) = 32\<close> p2pk_uncompressed [OF _ _ f] by blast
      qed
    qed
  qed
qed

lemma compressed_script_size:
  assumes "length pkScript < 2 ^ 32"
  shows "length (putCompressedScript pkScript) = compressedScriptSize pkScript"
    and "decodeCompressedScriptSize (putCompressedScript pkScript @ t) = int (length (putCompressedScript pkScript))"
    and "0 < length (putCompressedScript pkScript)"
proof -
  have "length (putCompressedScript pkScript) = compressedScriptSize pkScript \<and>
    decodeCompressedScriptSize (putCompressedScript pkScript @ t) = int (length (putCompressedScript pkScript)) \<and>
    0 < length (putCompressedScript pkScript)"
  proof (cases rule: putCompressedScript_cases [of pkScript])
    case general
    let ?n = "length pkScript + numSpecialScripts"
    have n: "?n < 2 ^ 64" "6 \<le> ?n" using assms by (simp_all add: numSpecialScripts_def)
    have "serializeSizeVLQ ?n \<le> ?n + 1" by (rule serializeSizeVLQ_bounds)
    then have "to_int64 (int (length pkScript + serializeSizeVLQ ?n)) = int (length pkScript + serializeSizeVLQ ?n)"
      using assms by (intro to_int64_id) (simp add: in_int64_def numSpecialScripts_def)
    then show ?thesis using putVLQ_read [OF n(1), of "pkScript @ t"] n(2) general serializeSizeVLQ_bounds(1) [of ?n]
      by (auto simp: decodeCompressedScriptSize_def length_putVLQ numSpecialScripts_def)
  qed (auto simp: decodeCompressedScriptSize_def read_specials)
  then show "length (putCompressedScript pkScript) = compressedScriptSize pkScript"
    and "decodeCompressedScriptSize (putCompressedScript pkScript @ t) = int (length (putCompressedScript pkScript))"
    and "0 < length (putCompressedScript pkScript)" by blast+
qed

lemma decompress_script:
  assumes "length pkScript < 2 ^ 32" and "length pkScript = 67 \<longrightarrow> isPubKey pkScript = None"
  shows "decompressScript (putCompressedScript pkScript) = Inr pkScript"
proof (cases rule: putCompressedScript_cases [of pkScript])
  case general
  let ?n = "length pkScript + numSpecialScripts"
  have n: "?n < 2 ^ 64" "6 \<le> ?n" using assms by (simp_all add: numSpecialScripts_def)
  have "putVLQ ?n @ pkScript \<noteq> []" by (simp add: putVLQ_nonempty)
  moreover have "to_int64 (int (length pkScript)) = int (length pkScript)"
    using assms by (intro to_int64_id) (simp add: in_int64_def)
  ultimately show ?thesis using putVLQ_read [OF n(1), of pkScript] n(2) general
    by (simp add: decompressScript_def sliceE_def numSpecialScripts_def)
next
  case p2pk_uncompressed
  then show ?thesis using assms(2) by simp
qed (auto simp: decompressScript_def read_specials sliceE_def)

subsection \<open>Transaction outputs\<close>

lemma putCompressedTxOut_read:
  assumes "ca < 2 ^ 64" and "length pkScript < 2 ^ 32"
  shows "decodeCompressedTxOut (putVLQ ca @ putCompressedScript pkScript @ t) =
    Inr (ca, putCompressedScript pkScript, length (putVLQ ca) + length (putCompressedScript pkScript))"
  using compressed_script_size(2) [OF assms(2), of t] compressed_script_size(3) [OF assms(2)] putVLQ_read [OF assms(1), of "putCompressedScript pkScript @ t"]
  by (simp add: decodeCompressedTxOut_def Let_def)

text \<open>
  C29. Compression loses nothing: an output with amount below \<open>2^60\<close> atoms that is written in the
  compressed format is read back, from the front of any longer string, as a compressed amount and
  script that decompress to the amount and the script, and the announced size is the number of
  bytes written.  Pay-to-pubkey scripts with a valid uncompressed key are left out, for which reading back
  takes a square root modulo the field prime.
\<close>

theorem compressed_txout_roundtrip:
  assumes "amount < 2 ^ 60" and "length pkScript < 2 ^ 32" and "length pkScript = 67 \<longrightarrow> isPubKey pkScript = None"
  shows "\<exists>ca cs. decodeCompressedTxOut (putCompressedTxOut amount pkScript False @ t) =
      Inr (ca, cs, compressedTxOutSize amount pkScript False) \<and>
    length (putCompressedTxOut amount pkScript False) = compressedTxOutSize amount pkScript False \<and>
    decompressTxOutAmount ca = amount \<and> decompressScript cs = Inr pkScript"
  using putCompressedTxOut_read [OF decompress_amount(2) [OF assms(1)] assms(2), of t] decompress_amount(1) [OF assms(1)]
    decompress_script [OF assms(2,3)] compressed_script_size(1) [OF assms(2)]
  by (simp add: putCompressedTxOut_def compressedTxOutSize_def length_putVLQ)

theorem compressed_txout_roundtrip_witness:
  "\<exists>ca cs. decodeCompressedTxOut (putCompressedTxOut 1500000 [0x51, 0xbb] False @ [7]) = Inr (ca, cs, 5) \<and>
     decompressTxOutAmount ca = 1500000 \<and> decompressScript cs = Inr [0x51, 0xbb]"
proof -
  have "strip_zeros 1500000 0 = (15, 5)" by (simp add: strip_zeros.simps)
  then have "compressedTxOutSize 1500000 [0x51, 0xbb] False = 5"
    by (simp add: compressedTxOutSize_def compressTxOutAmount_def compressedScriptSize_def isPubKeyHash_def
        isScriptHash_bytes_def isPubKey_def numSpecialScripts_def serializeSizeVLQ.simps)
  then show ?thesis using compressed_txout_roundtrip [of 1500000 "[0x51, 0xbb]" "[7]"] by auto
qed

end
