(* ===== verification/Utxo_View.thy ===== *)
theory Utxo_View
  imports Compress Sig_Hash
begin

text \<open>
  Views of the unspent transaction outputs, \<open>src/blockchain/utxoviewpoint.go\<close>: entries for
  transactions with their outputs, spending and adding outputs, connecting and disconnecting the
  transactions of a block.  Loading entries from the database is in \<open>Chain_Store\<close>.

  The sparse map of outputs is an association list.  The entries of a view are a partial function
  from transaction hashes; \<open>Some None\<close> is a nil entry, which the code keeps to remember that the
  database has none.  An output that was loaded is decompressed when it is read; the code then
  stores the decompressed fields back, which changes no later read and is left out.  The argument
  \<open>c\<close> has the hash functions.
\<close>

section \<open>Entries\<close>

record utxoOutput =
  uo_spent :: bool
  uo_compressed :: bool
  uo_amount :: int
  uo_pkScript :: bytes

record UtxoEntry =
  ue_modified :: bool
  ue_version :: int
  ue_isCoinBase :: bool
  ue_blockHeight :: "32 word"
  sparseOutputs :: "(32 word \<times> utxoOutput) list"

text \<open>The conversion of an \<open>int64\<close> to \<open>uint64\<close>.\<close>

definition uint64 :: "int \<Rightarrow> nat" where "uint64 n = nat (n mod 2 ^ 64)"

definition maybeDecompress :: "utxoOutput \<Rightarrow> utxoOutput res" where
  "maybeDecompress out =
     (if \<not> uo_compressed out then Inr out
      else bindE (decompressScript (uo_pkScript out)) (\<lambda>pkScript.
        Inr (out\<lparr>uo_amount := to_int64 (int (decompressTxOutAmount (uint64 (uo_amount out)))),
                 uo_pkScript := pkScript, uo_compressed := False\<rparr>)))"

definition IsOutputSpent :: "UtxoEntry \<Rightarrow> 32 word \<Rightarrow> bool" where
  "IsOutputSpent entry outputIndex =
     (case map_of (sparseOutputs entry) outputIndex of None \<Rightarrow> True | Some output \<Rightarrow> uo_spent output)"

definition SpendOutput :: "32 word \<Rightarrow> UtxoEntry \<Rightarrow> UtxoEntry" where
  "SpendOutput outputIndex entry =
     (case map_of (sparseOutputs entry) outputIndex of
        None \<Rightarrow> entry
      | Some output \<Rightarrow>
          if uo_spent output then entry
          else entry\<lparr>ue_modified := True,
                 sparseOutputs := AList.update outputIndex (output\<lparr>uo_spent := True\<rparr>) (sparseOutputs entry)\<rparr>)"

definition IsFullySpent :: "UtxoEntry \<Rightarrow> bool" where
  "IsFullySpent entry = list_all (\<lambda>(_, output). uo_spent output) (sparseOutputs entry)"

definition AmountByIndex :: "UtxoEntry \<Rightarrow> 32 word \<Rightarrow> int res" where
  "AmountByIndex entry outputIndex =
     (case map_of (sparseOutputs entry) outputIndex of
        None \<Rightarrow> Inr 0
      | Some output \<Rightarrow> bindE (maybeDecompress output) (\<lambda>output. Inr (uo_amount output)))"

text \<open>A nil script is the empty one.\<close>

definition PkScriptByIndex :: "UtxoEntry \<Rightarrow> 32 word \<Rightarrow> bytes res" where
  "PkScriptByIndex entry outputIndex =
     (case map_of (sparseOutputs entry) outputIndex of
        None \<Rightarrow> Inr []
      | Some output \<Rightarrow> bindE (maybeDecompress output) (\<lambda>output. Inr (uo_pkScript output)))"

definition Utxo_Clone :: "UtxoEntry \<Rightarrow> UtxoEntry" where
  "Utxo_Clone entry =
     \<lparr>ue_modified = False, ue_version = ue_version entry, ue_isCoinBase = ue_isCoinBase entry,
      ue_blockHeight = ue_blockHeight entry,
      sparseOutputs = map (\<lambda>(outputIndex, output).
        (outputIndex, \<lparr>uo_spent = uo_spent output, uo_compressed = uo_compressed output,
                       uo_amount = uo_amount output, uo_pkScript = uo_pkScript output\<rparr>)) (sparseOutputs entry)\<rparr>"

definition newUtxoEntry :: "int \<Rightarrow> bool \<Rightarrow> 32 word \<Rightarrow> UtxoEntry" where
  "newUtxoEntry version isCoinBase blockHeight =
     \<lparr>ue_modified = False, ue_version = version, ue_isCoinBase = isCoinBase, ue_blockHeight = blockHeight, sparseOutputs = []\<rparr>"

section \<open>Views\<close>

record UtxoViewpoint =
  entries :: "bytes \<rightharpoonup> UtxoEntry option"
  bestHash :: bytes

definition NewUtxoViewpoint :: UtxoViewpoint where
  "NewUtxoViewpoint = \<lparr>entries = Map.empty, bestHash = replicate 32 0\<rparr>"

definition LookupEntry :: "UtxoViewpoint \<Rightarrow> bytes \<Rightarrow> UtxoEntry option" where
  "LookupEntry view txHash = (case entries view txHash of None \<Rightarrow> None | Some entry \<Rightarrow> entry)"

abbreviation set_entry :: "bytes \<Rightarrow> UtxoEntry \<Rightarrow> UtxoViewpoint \<Rightarrow> UtxoViewpoint" where
  "set_entry h entry view \<equiv> view\<lparr>entries := (entries view)(h \<mapsto> Some entry)\<rparr>"

abbreviation txid :: "'x crypto_scheme \<Rightarrow> MsgTx \<Rightarrow> bytes" where
  "txid c tx \<equiv> TxHash (DoubleHashB c) tx"

definition isNullOutpoint :: "OutPoint \<Rightarrow> bool" where
  "isNullOutpoint outpoint \<longleftrightarrow> Index outpoint = 0xffffffff \<and> Hash outpoint = replicate 32 0"

definition IsCoinBaseTx :: "MsgTx \<Rightarrow> bool" where
  "IsCoinBaseTx msgTx =
     (if length (TxIn msgTx) \<noteq> 1 then False
      else if \<not> isNullOutpoint (PreviousOutPoint (TxIn msgTx ! 0)) then False
      else True)"

definition add_output :: "UtxoEntry \<Rightarrow> nat \<times> TxOut \<Rightarrow> UtxoEntry" where
  "add_output entry x =
     (case x of (txOutIdx, txOut) \<Rightarrow>
        if IsUnspendable (PkScript txOut) then entry
        else entry\<lparr>sparseOutputs := AList.update (word_of_nat txOutIdx)
               \<lparr>uo_spent = False, uo_compressed = False, uo_amount = Value txOut, uo_pkScript = PkScript txOut\<rparr>
               (sparseOutputs entry)\<rparr>)"

definition AddTxOuts :: "'x crypto_scheme \<Rightarrow> MsgTx \<Rightarrow> 32 word \<Rightarrow> UtxoViewpoint \<Rightarrow> UtxoViewpoint" where
  "AddTxOuts c tx blockHeight view =
     (let entry = (case LookupEntry view (txid c tx) of
                     None \<Rightarrow> newUtxoEntry (Version tx) (IsCoinBaseTx tx) blockHeight
                   | Some entry \<Rightarrow> entry\<lparr>ue_blockHeight := blockHeight\<rparr>);
          entry = entry\<lparr>ue_modified := True\<rparr>
      in set_entry (txid c tx) (foldl add_output entry (enumerate 0 (TxOut tx))) view)"

section \<open>Connecting\<close>

record spentTxOut =
  st_compressed :: bool
  st_version :: int
  st_amount :: int
  st_pkScript :: bytes
  st_height :: "32 word"
  st_isCoinBase :: bool

text \<open>Spending one input; the list of spent outputs is extended unless the argument was nil.\<close>

definition spend_input ::
  "UtxoViewpoint \<times> spentTxOut list option \<Rightarrow> TxIn \<Rightarrow> (UtxoViewpoint \<times> spentTxOut list option) cres" where
  "spend_input st txIn =
     (case st of (view, stxos) \<Rightarrow>
        let originIndex = Index (PreviousOutPoint txIn); originHash = Hash (PreviousOutPoint txIn)
        in case LookupEntry view originHash of
             None \<Rightarrow> Inl AssertErr
           | Some entry \<Rightarrow>
               let entry = SpendOutput originIndex entry; view = set_entry originHash entry view
               in case stxos of
                    None \<Rightarrow> Inr (view, None)
                  | Some stxos \<Rightarrow>
                      bindE (lowerE (AmountByIndex entry originIndex)) (\<lambda>amount.
                      bindE (lowerE (PkScriptByIndex entry originIndex)) (\<lambda>pkScript.
                      let stxo = \<lparr>st_compressed = False, st_version = ue_version entry, st_amount = amount,
                                  st_pkScript = pkScript, st_height = 0, st_isCoinBase = False\<rparr>;
                          stxo = (if IsFullySpent entry
                                  then stxo\<lparr>st_height := ue_blockHeight entry, st_isCoinBase := ue_isCoinBase entry\<rparr>
                                  else stxo)
                      in Inr (view, Some (stxos @ [stxo])))))"

definition Utxo_connectTransaction ::
  "'x crypto_scheme \<Rightarrow> MsgTx \<Rightarrow> 32 word \<Rightarrow> UtxoViewpoint \<times> spentTxOut list option \<Rightarrow>
   (UtxoViewpoint \<times> spentTxOut list option) cres" where
  "Utxo_connectTransaction c tx blockHeight st =
     (if IsCoinBaseTx tx then Inr (AddTxOuts c tx blockHeight (fst st), snd st)
      else bindE (foldE spend_input st (TxIn tx)) (\<lambda>(view, stxos). Inr (AddTxOuts c tx blockHeight view, stxos)))"

definition Utxo_connectTransactions ::
  "'x crypto_scheme \<Rightarrow> MsgBlock \<Rightarrow> UtxoViewpoint \<times> spentTxOut list option \<Rightarrow>
   (UtxoViewpoint \<times> spentTxOut list option) cres" where
  "Utxo_connectTransactions c block st =
     bindE (foldE (\<lambda>st tx. Utxo_connectTransaction c tx (Height (Header block)) st) st (Transactions block))
       (\<lambda>(view, stxos). Inr (view\<lparr>bestHash := BlockHash c (Header block)\<rparr>, stxos))"

section \<open>Disconnecting\<close>

text \<open>A slice of the transactions from index 1 panics when there are none.\<close>

definition countSpentOutputs :: "MsgBlock \<Rightarrow> nat cres" where
  "countSpentOutputs block =
     (if Transactions block = [] then Inl (Lower Panic)
      else Inr (sum_list (map (\<lambda>tx. length (TxIn tx)) (drop 1 (Transactions block)))))"

definition unspend_input ::
  "UtxoViewpoint \<times> spentTxOut list \<Rightarrow> TxIn \<Rightarrow> (UtxoViewpoint \<times> spentTxOut list) cres" where
  "unspend_input st txIn =
     (case st of (view, stxos) \<Rightarrow>
        if stxos = [] then Inl (Lower Panic)
        else
          let stxo = last stxos;
              originHash = Hash (PreviousOutPoint txIn); originIndex = Index (PreviousOutPoint txIn);
              entry = (case LookupEntry view originHash of
                         None \<Rightarrow> newUtxoEntry (st_version stxo) (st_isCoinBase stxo) (st_height stxo)
                       | Some entry \<Rightarrow> entry);
              entry = entry\<lparr>ue_modified := True\<rparr>;
              output = (case map_of (sparseOutputs entry) originIndex of
                          None \<Rightarrow> \<lparr>uo_spent = False, uo_compressed = st_compressed stxo, uo_amount = st_amount stxo,
                                   uo_pkScript = st_pkScript stxo\<rparr>
                        | Some output \<Rightarrow> output\<lparr>uo_spent := False\<rparr>);
              entry = entry\<lparr>sparseOutputs := AList.update originIndex output (sparseOutputs entry)\<rparr>
          in Inr (set_entry originHash entry view, butlast stxos))"

definition Utxo_disconnect_tx ::
  "'x crypto_scheme \<Rightarrow> 32 word \<Rightarrow> UtxoViewpoint \<times> spentTxOut list \<Rightarrow> nat \<times> MsgTx \<Rightarrow>
   (UtxoViewpoint \<times> spentTxOut list) cres" where
  "Utxo_disconnect_tx c blockHeight st x =
     (case (st, x) of ((view, stxos), (txIdx, tx)) \<Rightarrow>
        let isCoinbase = (txIdx = 0);
            entry = (case LookupEntry view (txid c tx) of
                       None \<Rightarrow> newUtxoEntry (Version tx) isCoinbase blockHeight
                     | Some entry \<Rightarrow> entry);
            view = set_entry (txid c tx) (entry\<lparr>ue_modified := True, sparseOutputs := []\<rparr>) view
        in if isCoinbase then Inr (view, stxos)
           else foldE unspend_input (view, stxos) (rev (TxIn tx)))"

definition Utxo_disconnectTransactions ::
  "'x crypto_scheme \<Rightarrow> MsgBlock \<Rightarrow> spentTxOut list \<Rightarrow> UtxoViewpoint \<Rightarrow> UtxoViewpoint cres" where
  "Utxo_disconnectTransactions c block stxos view =
     bindE (countSpentOutputs block) (\<lambda>numSpent.
       if length stxos \<noteq> numSpent then Inl AssertErr
       else
         bindE (foldE (Utxo_disconnect_tx c (Height (Header block))) (view, stxos) (rev (enumerate 0 (Transactions block))))
           (\<lambda>(view, _). Inr (view\<lparr>bestHash := PrevBlock (Header block)\<rparr>)))"

definition commit :: "UtxoViewpoint \<Rightarrow> UtxoViewpoint" where
  "commit view = view\<lparr>entries := (\<lambda>txHash.
     case entries view txHash of
       None \<Rightarrow> None
     | Some None \<Rightarrow> None
     | Some (Some entry) \<Rightarrow>
         if ue_modified entry \<and> IsFullySpent entry then None
         else Some (Some (entry\<lparr>ue_modified := False\<rparr>)))\<rparr>"

section \<open>The ledger that a view stands for\<close>

text \<open>
  A ledger has for every transaction with unspent outputs its version, coinbase flag and height,
  and the unspent outputs by index, each an amount and a script.  Spending the last output of a
  transaction removes it.
\<close>

type_synonym coin = "int \<times> bytes"
type_synonym tx_meta = "int \<times> bool \<times> 32 word"
type_synonym ledger = "bytes \<rightharpoonup> tx_meta \<times> (32 word \<rightharpoonup> coin)"

definition with_coins :: "tx_meta \<Rightarrow> (32 word \<rightharpoonup> coin) \<Rightarrow> (tx_meta \<times> (32 word \<rightharpoonup> coin)) option" where
  "with_coins m f = (if f = Map.empty then None else Some (m, f))"

definition led_spend :: "OutPoint \<Rightarrow> ledger \<Rightarrow> ledger" where
  "led_spend p L = (case L (Hash p) of None \<Rightarrow> L | Some (m, f) \<Rightarrow> L(Hash p := with_coins m (f(Index p := None))))"

definition led_unspend :: "OutPoint \<Rightarrow> tx_meta \<Rightarrow> coin \<Rightarrow> ledger \<Rightarrow> ledger" where
  "led_unspend p m x L =
     (case L (Hash p) of
        None \<Rightarrow> L(Hash p \<mapsto> (m, [Index p \<mapsto> x]))
      | Some (m', f) \<Rightarrow> L(Hash p \<mapsto> (m', f(Index p \<mapsto> x))))"

definition led_coin :: "ledger \<Rightarrow> OutPoint \<Rightarrow> coin option" where
  "led_coin L p = (case L (Hash p) of None \<Rightarrow> None | Some (_, f) \<Rightarrow> f (Index p))"

lemma led_unspend_spend:
  assumes "L (Hash p) = Some (m, f)" and "f (Index p) = Some x"
    and "f(Index p := None) = Map.empty \<Longrightarrow> m' = m"
  shows "led_unspend p m' x (led_spend p L) = L"
proof (cases "f(Index p := None) = Map.empty")
  case True
  then have "f = [Index p \<mapsto> x]" using assms(2) by (metis fun_upd_triv fun_upd_upd)
  with True assms show ?thesis
    by (simp add: led_spend_def led_unspend_def with_coins_def fun_upd_idem)
next
  case False
  then show ?thesis using assms
    by (simp add: led_spend_def led_unspend_def with_coins_def fun_upd_idem)
qed

definition out_ok :: "utxoOutput \<Rightarrow> bool" where
  "out_ok out \<longleftrightarrow> (case maybeDecompress out of Inl _ \<Rightarrow> False | Inr _ \<Rightarrow> True)"

definition read_out :: "utxoOutput \<Rightarrow> coin" where
  "read_out out = (case maybeDecompress out of Inl _ \<Rightarrow> (0, []) | Inr out' \<Rightarrow> (uo_amount out', uo_pkScript out'))"

definition entry_coins :: "UtxoEntry \<Rightarrow> 32 word \<rightharpoonup> coin" where
  "entry_coins e i =
     (case map_of (sparseOutputs e) i of None \<Rightarrow> None | Some out \<Rightarrow> if uo_spent out then None else Some (read_out out))"

abbreviation entry_meta :: "UtxoEntry \<Rightarrow> tx_meta" where
  "entry_meta e \<equiv> (ue_version e, ue_isCoinBase e, ue_blockHeight e)"

definition entry_ok :: "UtxoEntry \<Rightarrow> bool" where
  "entry_ok e \<longleftrightarrow> distinct (map fst (sparseOutputs e)) \<and> list_all (\<lambda>(_, out). out_ok out) (sparseOutputs e)"

definition view_ok :: "UtxoViewpoint \<Rightarrow> bool" where
  "view_ok v \<longleftrightarrow> (\<forall>h e. LookupEntry v h = Some e \<longrightarrow> entry_ok e)"

definition utxo_ledger :: "UtxoViewpoint \<Rightarrow> ledger" where
  "utxo_ledger v h = (case LookupEntry v h of None \<Rightarrow> None | Some e \<Rightarrow> with_coins (entry_meta e) (entry_coins e))"

subsection \<open>Entries\<close>

lemma LookupEntry_set_entry [simp]:
  "LookupEntry (set_entry h e v) h' = (if h' = h then Some e else LookupEntry v h')"
  by (simp add: LookupEntry_def)

lemma LookupEntry_bestHash [simp]: "LookupEntry (v\<lparr>bestHash := b\<rparr>) = LookupEntry v"
  by (simp add: LookupEntry_def fun_eq_iff)

lemma set_entry_ledger: "utxo_ledger (set_entry h e v) = (utxo_ledger v)(h := with_coins (entry_meta e) (entry_coins e))"
  by (simp add: utxo_ledger_def fun_eq_iff)

lemma view_ok_set_entry: "view_ok v \<Longrightarrow> entry_ok e \<Longrightarrow> view_ok (set_entry h e v)"
  by (simp add: view_ok_def)

lemma ledger_lookup:
  "utxo_ledger v h = Some (m, f) \<longleftrightarrow> (\<exists>e. LookupEntry v h = Some e \<and> m = entry_meta e \<and> f = entry_coins e \<and> f \<noteq> Map.empty)"
  by (auto simp: utxo_ledger_def with_coins_def split: option.splits)

lemma entry_ok_map_of: "entry_ok e \<Longrightarrow> map_of (sparseOutputs e) i = Some out \<Longrightarrow> out_ok out"
  by (fastforce simp: entry_ok_def list_all_iff dest: map_of_SomeD)

lemma entry_ok_update:
  assumes "entry_ok e" and "out_ok out"
  shows "entry_ok (e\<lparr>sparseOutputs := AList.update i out (sparseOutputs e)\<rparr>)"
proof -
  have "(j, out') \<in> set (AList.update i out xs) \<Longrightarrow> out' = out \<or> (j, out') \<in> set xs" for j out' xs
    by (induction xs) (auto split: if_splits)
  then show ?thesis using assms by (fastforce simp: entry_ok_def list_all_iff distinct_update)
qed

lemma entry_coins_update:
  "entry_coins (e\<lparr>sparseOutputs := AList.update i out (sparseOutputs e)\<rparr>) =
     (entry_coins e)(i := if uo_spent out then None else Some (read_out out))"
  by (auto simp: entry_coins_def fun_eq_iff update_conv')

lemma entry_modified [simp]:
  "entry_coins (e\<lparr>ue_modified := b\<rparr>) = entry_coins e" "entry_ok (e\<lparr>ue_modified := b\<rparr>) = entry_ok e"
  "entry_coins (e\<lparr>ue_blockHeight := h\<rparr>) = entry_coins e" "entry_ok (e\<lparr>ue_blockHeight := h\<rparr>) = entry_ok e"
  by (simp_all add: entry_coins_def entry_ok_def fun_eq_iff)

lemma IsOutputSpent_iff: "IsOutputSpent e i \<longleftrightarrow> entry_coins e i = None"
  by (simp add: IsOutputSpent_def entry_coins_def split: option.splits)

lemma IsFullySpent_iff: "entry_ok e \<Longrightarrow> IsFullySpent e \<longleftrightarrow> entry_coins e = Map.empty"
  by (fastforce simp: IsFullySpent_def entry_ok_def entry_coins_def list_all_iff fun_eq_iff
      dest: map_of_SomeD split: option.splits if_splits)

lemma read_spent [simp]:
  "maybeDecompress (out\<lparr>uo_spent := b\<rparr>) = (case maybeDecompress out of Inl e \<Rightarrow> Inl e | Inr out' \<Rightarrow> Inr (out'\<lparr>uo_spent := b\<rparr>))"
  by (simp add: maybeDecompress_def bindE_def split: sum.splits)

lemma out_ok_spent [simp]: "out_ok (out\<lparr>uo_spent := b\<rparr>) = out_ok out" "read_out (out\<lparr>uo_spent := b\<rparr>) = read_out out"
  by (simp_all add: out_ok_def read_out_def split: sum.splits)

lemma by_index:
  assumes "entry_ok e" and "map_of (sparseOutputs e) i = Some out"
  shows "AmountByIndex e i = Inr (fst (read_out out))" "PkScriptByIndex e i = Inr (snd (read_out out))"
  using entry_ok_map_of [OF assms] assms(2)
  by (auto simp: AmountByIndex_def PkScriptByIndex_def read_out_def out_ok_def split: sum.splits)

lemma SpendOutput_ok:
  assumes "entry_ok e"
  shows "entry_ok (SpendOutput i e)" "entry_coins (SpendOutput i e) = (entry_coins e)(i := None)"
    "entry_meta (SpendOutput i e) = entry_meta e"
proof -
  have *: "e\<lparr>ue_modified := True, sparseOutputs := xs\<rparr> = (e\<lparr>sparseOutputs := xs\<rparr>)\<lparr>ue_modified := True\<rparr>" for xs by simp
  show "entry_ok (SpendOutput i e)"
    using assms entry_ok_update entry_ok_map_of [OF assms]
    by (auto simp del: UtxoEntry.simps simp: SpendOutput_def * split: option.splits)
  show "entry_coins (SpendOutput i e) = (entry_coins e)(i := None)"
    by (auto simp: SpendOutput_def entry_coins_def fun_eq_iff update_conv' split: option.splits)
qed (simp add: SpendOutput_def split: option.splits)

subsection \<open>Spending and restoring\<close>

definition stxo_out :: "spentTxOut \<Rightarrow> utxoOutput" where
  "stxo_out s = \<lparr>uo_spent = False, uo_compressed = st_compressed s, uo_amount = st_amount s, uo_pkScript = st_pkScript s\<rparr>"

abbreviation stxo_meta :: "spentTxOut \<Rightarrow> tx_meta" where
  "stxo_meta s \<equiv> (st_version s, st_isCoinBase s, st_height s)"

abbreviation led_restore :: "OutPoint \<Rightarrow> spentTxOut \<Rightarrow> ledger \<Rightarrow> ledger" where
  "led_restore p s \<equiv> led_unspend p (stxo_meta s) (read_out (stxo_out s))"

text \<open>The list of spent outputs is a journal from which the ledger before spending can be restored.\<close>

fun journal_of :: "ledger \<Rightarrow> OutPoint list \<Rightarrow> spentTxOut list \<Rightarrow> bool" where
  "journal_of L [] [] \<longleftrightarrow> True"
| "journal_of L (p # ps) (s # ss) \<longleftrightarrow>
     led_coin L p \<noteq> None \<and> out_ok (stxo_out s) \<and> led_restore p s (led_spend p L) = L \<and> journal_of (led_spend p L) ps ss"
| "journal_of L _ _ \<longleftrightarrow> False"

definition led_spends :: "OutPoint list \<Rightarrow> ledger \<Rightarrow> ledger" where
  "led_spends ps L = foldl (\<lambda>L p. led_spend p L) L ps"

lemma led_spends_simps [simp]:
  "led_spends [] L = L" "led_spends (p # ps) L = led_spends ps (led_spend p L)"
  by (simp_all add: led_spends_def)

lemma led_spend_None: "L h = None \<Longrightarrow> led_spend p L h = None"
  by (auto simp: led_spend_def split: option.splits)

lemma led_spends_None: "L h = None \<Longrightarrow> led_spends ps L h = None"
  by (induction ps arbitrary: L) (auto simp: led_spend_None)

lemma led_coin_spend: "led_coin (led_spend p L) q = (if q = p then None else led_coin L q)"
  by (cases p; cases q) (auto simp: led_coin_def led_spend_def with_coins_def fun_eq_iff split: option.splits)

lemma led_coin_spends: "led_coin (led_spends ps L) q = (if q \<in> set ps then None else led_coin L q)"
  by (induction ps arbitrary: L) (auto simp: led_coin_spend)

lemma spend_input_ledger:
  assumes "view_ok v" and "led_coin (utxo_ledger v) (PreviousOutPoint txIn) = Some x"
  shows "\<exists>v' s. spend_input (v, Some stxos) txIn = Inr (v', Some (stxos @ [s])) \<and> view_ok v' \<and>
    utxo_ledger v' = led_spend (PreviousOutPoint txIn) (utxo_ledger v) \<and> out_ok (stxo_out s) \<and>
    led_restore (PreviousOutPoint txIn) s (utxo_ledger v') = utxo_ledger v"
proof -
  define h i where "h = Hash (PreviousOutPoint txIn)" and "i = Index (PreviousOutPoint txIn)"
  obtain e where e: "LookupEntry v h = Some e" "entry_coins e i = Some x"
    using assms(2) by (auto simp: led_coin_def utxo_ledger_def with_coins_def h_def i_def split: option.splits if_splits)
  have ok: "entry_ok e" using assms(1) e(1) by (simp add: view_ok_def)
  have L: "utxo_ledger v h = Some (entry_meta e, entry_coins e)" using e by (auto simp: ledger_lookup)
  define e' where "e' = SpendOutput i e"
  note e' = SpendOutput_ok [OF ok, of i, folded e'_def]
  obtain out where "map_of (sparseOutputs e) i = Some out" "\<not> uo_spent out" "read_out out = x"
    using e(2) by (auto simp: entry_coins_def split: option.splits if_splits)
  then have "map_of (sparseOutputs e') i = Some (out\<lparr>uo_spent := True\<rparr>)" "read_out (out\<lparr>uo_spent := True\<rparr>) = x"
    by (auto simp: e'_def SpendOutput_def update_conv')
  from by_index [OF e'(1) this(1)] this(2) have read: "AmountByIndex e' i = Inr (fst x)" "PkScriptByIndex e' i = Inr (snd x)"
    by auto
  define s where "s = \<lparr>st_compressed = False, st_version = ue_version e', st_amount = fst x, st_pkScript = snd x,
    st_height = (if IsFullySpent e' then ue_blockHeight e' else 0),
    st_isCoinBase = (if IsFullySpent e' then ue_isCoinBase e' else False)\<rparr>"
  have run: "spend_input (v, Some stxos) txIn = Inr (set_entry h e' v, Some (stxos @ [s]))"
    using e(1) by (simp add: spend_input_def Let_def read s_def h_def [symmetric] i_def [symmetric] e'_def [symmetric])
  have led: "utxo_ledger (set_entry h e' v) = led_spend (PreviousOutPoint txIn) (utxo_ledger v)"
    using L e'(2,3) by (simp add: led_spend_def set_entry_ledger h_def i_def)
  have s: "out_ok (stxo_out s)" "read_out (stxo_out s) = x"
    by (simp_all add: s_def stxo_out_def out_ok_def read_out_def maybeDecompress_def)
  have "(entry_coins e)(i := None) = Map.empty \<Longrightarrow> stxo_meta s = entry_meta e"
    using e'(2,3) IsFullySpent_iff [OF e'(1)] by (simp add: s_def)
  then have "led_restore (PreviousOutPoint txIn) s (led_spend (PreviousOutPoint txIn) (utxo_ledger v)) = utxo_ledger v"
    using led_unspend_spend [of "utxo_ledger v" "PreviousOutPoint txIn" "entry_meta e" "entry_coins e" x "stxo_meta s"] L e(2) s(2)
    by (simp add: h_def i_def)
  with run led s(1) view_ok_set_entry [OF assms(1) e'(1)] show ?thesis by auto
qed

lemma spend_inputs_ledger:
  assumes "view_ok v" and "distinct (map PreviousOutPoint txIns)"
    and "\<And>txIn. txIn \<in> set txIns \<Longrightarrow> led_coin (utxo_ledger v) (PreviousOutPoint txIn) \<noteq> None"
  shows "\<exists>v' ss. foldE spend_input (v, Some stxos) txIns = Inr (v', Some (stxos @ ss)) \<and> view_ok v' \<and>
    utxo_ledger v' = led_spends (map PreviousOutPoint txIns) (utxo_ledger v) \<and>
    journal_of (utxo_ledger v) (map PreviousOutPoint txIns) ss"
  using assms
proof (induction txIns arbitrary: v stxos)
  case Nil
  then show ?case by (intro exI [of _ v] exI [of _ "[]"]) simp
next
  case (Cons txIn txIns)
  let ?p = "PreviousOutPoint txIn"
  obtain x where x: "led_coin (utxo_ledger v) ?p = Some x" using Cons.prems(3) [of txIn] by auto
  from spend_input_ledger [OF Cons.prems(1) this] obtain v1 s where 1: "spend_input (v, Some stxos) txIn = Inr (v1, Some (stxos @ [s]))"
      "view_ok v1" "utxo_ledger v1 = led_spend ?p (utxo_ledger v)" "out_ok (stxo_out s)" "led_restore ?p s (utxo_ledger v1) = utxo_ledger v"
    by blast
  have "led_coin (utxo_ledger v1) (PreviousOutPoint t) \<noteq> None" if "t \<in> set txIns" for t
    using Cons.prems(2,3) that by (auto simp: 1(3) led_coin_spend image_iff)
  from Cons.IH [OF 1(2) _ this, of "stxos @ [s]"] Cons.prems(2) obtain v' ss where
      2: "foldE spend_input (v1, Some (stxos @ [s])) txIns = Inr (v', Some (stxos @ s # ss))" "view_ok v'"
      "utxo_ledger v' = led_spends (map PreviousOutPoint txIns) (utxo_ledger v1)"
      "journal_of (utxo_ledger v1) (map PreviousOutPoint txIns) ss" by auto
  show ?case
    by (rule exI [of _ v'], rule exI [of _ "s # ss"]) (use 1 2 x in simp)
qed

text \<open>The outputs that a transaction adds, by index.\<close>

definition tx_coins :: "MsgTx \<Rightarrow> 32 word \<rightharpoonup> coin" where
  "tx_coins tx = foldl (\<lambda>f (i, txOut). if IsUnspendable (PkScript txOut) then f
     else f(word_of_nat i \<mapsto> (Value txOut, PkScript txOut))) Map.empty (enumerate 0 (TxOut tx))"

lemma add_outputs:
  assumes "entry_ok e"
  shows "entry_ok (foldl add_output e xs) \<and> entry_meta (foldl add_output e xs) = entry_meta e \<and>
    entry_coins (foldl add_output e xs) = entry_coins e ++ foldl (\<lambda>f (i, txOut). if IsUnspendable (PkScript txOut) then f
     else f(word_of_nat i \<mapsto> (Value txOut, PkScript txOut))) Map.empty xs"
proof (induction xs rule: rev_induct)
  case (snoc x xs)
  obtain i txOut where x: "x = (i, txOut)" by fastforce
  let ?out = "\<lparr>uo_spent = False, uo_compressed = False, uo_amount = Value txOut, uo_pkScript = PkScript txOut\<rparr>"
  have "out_ok ?out" "read_out ?out = (Value txOut, PkScript txOut)"
    by (simp_all add: out_ok_def read_out_def maybeDecompress_def)
  with snoc show ?case
    by (auto simp: x add_output_def entry_ok_update entry_coins_update)
qed (use assms in simp)

lemma AddTxOuts_ledger:
  assumes "view_ok v"
  shows "view_ok (AddTxOuts c tx ht v)"
    and "\<exists>m f. utxo_ledger (AddTxOuts c tx ht v) = (utxo_ledger v)(txid c tx := with_coins m (f ++ tx_coins tx)) \<and>
      (utxo_ledger v (txid c tx) = None \<longrightarrow> f = Map.empty) \<and>
      (LookupEntry v (txid c tx) = None \<longrightarrow> m = (Version tx, IsCoinBaseTx tx, ht))"
proof -
  define e where "e = (case LookupEntry v (txid c tx) of
                     None \<Rightarrow> newUtxoEntry (Version tx) (IsCoinBaseTx tx) ht
                   | Some entry \<Rightarrow> entry\<lparr>ue_blockHeight := ht\<rparr>)\<lparr>ue_modified := True\<rparr>"
  have e: "entry_ok e" using assms by (auto simp: e_def entry_ok_def newUtxoEntry_def view_ok_def split: option.splits)
  have add: "AddTxOuts c tx ht v = set_entry (txid c tx) (foldl add_output e (enumerate 0 (TxOut tx))) v"
    by (simp add: AddTxOuts_def e_def Let_def)
  show "view_ok (AddTxOuts c tx ht v)"
    unfolding add using add_outputs [OF e] view_ok_set_entry [OF assms] by blast
  have "utxo_ledger (AddTxOuts c tx ht v) = (utxo_ledger v)(txid c tx := with_coins (entry_meta e) (entry_coins e ++ tx_coins tx))"
    unfolding add set_entry_ledger tx_coins_def using add_outputs [OF e] by auto
  moreover have "utxo_ledger v (txid c tx) = None \<longrightarrow> entry_coins e = Map.empty"
    by (auto simp: e_def utxo_ledger_def with_coins_def newUtxoEntry_def entry_coins_def fun_eq_iff split: option.splits if_splits)
  moreover have "LookupEntry v (txid c tx) = None \<longrightarrow> entry_meta e = (Version tx, IsCoinBaseTx tx, ht)"
    by (simp add: e_def newUtxoEntry_def)
  ultimately show "\<exists>m f. utxo_ledger (AddTxOuts c tx ht v) = (utxo_ledger v)(txid c tx := with_coins m (f ++ tx_coins tx)) \<and>
      (utxo_ledger v (txid c tx) = None \<longrightarrow> f = Map.empty) \<and>
      (LookupEntry v (txid c tx) = None \<longrightarrow> m = (Version tx, IsCoinBaseTx tx, ht))"
    by (intro exI [of _ "entry_meta e"] exI [of _ "entry_coins e"]) auto
qed

subsection \<open>Disconnecting refines restoring\<close>

text \<open>
  A view as it is loaded from the database for disconnecting: its entries have unspent outputs
  only, and at least one.  The transactions disconnected so far, \<open>D\<close>, have empty entries.
\<close>

definition pruned :: "bytes set \<Rightarrow> UtxoViewpoint \<Rightarrow> ledger \<Rightarrow> bool" where
  "pruned D w L \<longleftrightarrow>
     view_ok w \<and>
     (\<forall>h. if h \<in> D then L h = None \<and> (\<exists>e. LookupEntry w h = Some e \<and> sparseOutputs e = [])
          else case LookupEntry w h of
                 None \<Rightarrow> L h = None
               | Some e \<Rightarrow> L h = Some (entry_meta e, entry_coins e) \<and> list_all (\<lambda>(_, out). \<not> uo_spent out) (sparseOutputs e))"

lemma prunedD:
  assumes "pruned D w L"
  shows "view_ok w" "h \<in> D \<Longrightarrow> L h = None" "h \<in> D \<Longrightarrow> \<exists>e. LookupEntry w h = Some e \<and> sparseOutputs e = []"
    "h \<notin> D \<Longrightarrow> LookupEntry w h = None \<Longrightarrow> L h = None"
    "h \<notin> D \<Longrightarrow> LookupEntry w h = Some e \<Longrightarrow> L h = Some (entry_meta e, entry_coins e)"
    "h \<notin> D \<Longrightarrow> LookupEntry w h = Some e \<Longrightarrow> list_all (\<lambda>(_, out). \<not> uo_spent out) (sparseOutputs e)"
  using assms unfolding pruned_def by (auto dest!: spec [of _ h])

lemma prunedI:
  assumes "view_ok w" and "\<And>h. h \<in> D \<Longrightarrow> L h = None" "\<And>h. h \<in> D \<Longrightarrow> \<exists>e. LookupEntry w h = Some e \<and> sparseOutputs e = []"
    and "\<And>h. h \<notin> D \<Longrightarrow> LookupEntry w h = None \<Longrightarrow> L h = None"
    and "\<And>h e. h \<notin> D \<Longrightarrow> LookupEntry w h = Some e \<Longrightarrow> L h = Some (entry_meta e, entry_coins e)"
    and "\<And>h e. h \<notin> D \<Longrightarrow> LookupEntry w h = Some e \<Longrightarrow> list_all (\<lambda>(_, out). \<not> uo_spent out) (sparseOutputs e)"
  shows "pruned D w L"
  using assms unfolding pruned_def by (auto split: option.splits)

text \<open>Clearing the entry of a transaction.\<close>

lemma pruned_clear:
  assumes "pruned D w (L(h := x))" and "L h = None" and "entry_ok e" and "sparseOutputs e = []"
  shows "pruned (insert h D) (set_entry h e w) L"
proof (rule prunedI)
  show "view_ok (set_entry h e w)" using prunedD(1) [OF assms(1)] assms(3) by (rule view_ok_set_entry)
next
  fix h' assume "h' \<in> insert h D"
  then show "L h' = None" using prunedD(2) [OF assms(1), of h'] assms(2) by (cases "h' = h") auto
  from \<open>h' \<in> insert h D\<close> show "\<exists>e'. LookupEntry (set_entry h e w) h' = Some e' \<and> sparseOutputs e' = []"
    using prunedD(3) [OF assms(1), of h'] assms(4) by (cases "h' = h") auto
next
  fix h' assume *: "h' \<notin> insert h D"
  then show "LookupEntry (set_entry h e w) h' = None \<Longrightarrow> L h' = None" using prunedD(4) [OF assms(1), of h'] by auto
  fix e' assume "LookupEntry (set_entry h e w) h' = Some e'"
  with * prunedD(5,6) [OF assms(1), of h' e']
  show "L h' = Some (entry_meta e', entry_coins e')" "list_all (\<lambda>(_, out). \<not> uo_spent out) (sparseOutputs e')" by auto
qed

lemma pruned_ledger:
  assumes "pruned D w L" and "\<And>h m. L h \<noteq> Some (m, Map.empty)"
  shows "utxo_ledger w = L"
proof
  fix h
  show "utxo_ledger w h = L h"
  proof (cases "h \<in> D")
    case True
    then obtain e where "LookupEntry w h = Some e" "sparseOutputs e = []" "L h = None"
      using prunedD(2,3) [OF assms(1), of h] by blast
    then show ?thesis by (simp add: utxo_ledger_def with_coins_def entry_coins_def fun_eq_iff)
  next
    case False
    show ?thesis
    proof (cases "LookupEntry w h")
      case None
      then show ?thesis using prunedD(4) [OF assms(1) False] by (simp add: utxo_ledger_def)
    next
      case (Some e)
      from prunedD(5) [OF assms(1) False Some] assms(2) [of h "entry_meta e"] Some show ?thesis
        by (auto simp: utxo_ledger_def with_coins_def)
    qed
  qed
qed

lemma unspend_input_pruned:
  assumes "pruned D w L" and "Hash (PreviousOutPoint txIn) \<notin> D" and "led_coin L (PreviousOutPoint txIn) = None"
    and "out_ok (stxo_out s)"
  shows "\<exists>w'. unspend_input (w, stxos @ [s]) txIn = Inr (w', stxos) \<and> pruned D w' (led_restore (PreviousOutPoint txIn) s L)"
proof -
  define h i where "h = Hash (PreviousOutPoint txIn)" and "i = Index (PreviousOutPoint txIn)"
  define e where "e = (case LookupEntry w h of None \<Rightarrow> newUtxoEntry (st_version s) (st_isCoinBase s) (st_height s) | Some e \<Rightarrow> e)"
  have e: "entry_ok e" "list_all (\<lambda>(_, out). \<not> uo_spent out) (sparseOutputs e)"
    using prunedD(1,6) [OF assms(1)] assms(2) by (auto simp: e_def h_def view_ok_def entry_ok_def newUtxoEntry_def split: option.splits)
  have none: "map_of (sparseOutputs e) i = None"
  proof (rule ccontr)
    assume "map_of (sparseOutputs e) i \<noteq> None"
    then obtain out where out: "map_of (sparseOutputs e) i = Some out" by auto
    then have "\<not> uo_spent out" using e(2) by (fastforce simp: list_all_iff dest: map_of_SomeD)
    then have "entry_coins e i = Some (read_out out)" "LookupEntry w h = Some e"
      using out by (auto simp: entry_coins_def e_def newUtxoEntry_def split: option.splits)
    then show False using prunedD(5) [OF assms(1,2)] assms(3) by (simp add: led_coin_def h_def i_def)
  qed
  define e' where "e' = (e\<lparr>ue_modified := True\<rparr>)\<lparr>sparseOutputs := AList.update i (stxo_out s) (sparseOutputs (e\<lparr>ue_modified := True\<rparr>))\<rparr>"
  have run: "unspend_input (w, stxos @ [s]) txIn = Inr (set_entry h e' w, stxos)"
    using none by (simp add: unspend_input_def Let_def h_def [symmetric] i_def [symmetric] e_def [symmetric] e'_def stxo_out_def)
  have e': "entry_ok e'" "entry_meta e' = entry_meta e" "entry_coins e' = (entry_coins e)(i \<mapsto> read_out (stxo_out s))"
    unfolding e'_def using entry_ok_update [of "e\<lparr>ue_modified := True\<rparr>", OF _ assms(4)] e(1)
      by (simp_all only: entry_coins_update) (simp_all add: stxo_out_def)
  have un: "list_all (\<lambda>(_, out). \<not> uo_spent out) (sparseOutputs e')"
  proof -
    have "(j, out') \<in> set (AList.update i out xs) \<Longrightarrow> out' = out \<or> (j, out') \<in> set xs" for j out out' xs
      by (induction xs) (auto split: if_splits)
    then show ?thesis using e(2) by (fastforce simp: e'_def list_all_iff stxo_out_def)
  qed
  have new: "led_restore (PreviousOutPoint txIn) s L = L(h \<mapsto> (entry_meta e', entry_coins e'))"
  proof (cases "LookupEntry w h")
    case None
    then have "L h = None" using prunedD(4) [OF assms(1,2)] by (simp add: h_def)
    moreover have "e = newUtxoEntry (st_version s) (st_isCoinBase s) (st_height s)" using None by (simp add: e_def)
    moreover from this have "entry_coins e = Map.empty" by (simp add: newUtxoEntry_def entry_coins_def fun_eq_iff)
    ultimately show ?thesis using e' by (simp add: led_unspend_def h_def i_def newUtxoEntry_def)
  next
    case (Some e1)
    then have "L h = Some (entry_meta e, entry_coins e)" using prunedD(5) [OF assms(1,2)] by (simp add: h_def e_def)
    then show ?thesis using e' by (simp add: led_unspend_def h_def i_def)
  qed
  have "pruned D (set_entry h e' w) (L(h \<mapsto> (entry_meta e', entry_coins e')))"
    using prunedD [OF assms(1)] assms(2) e'(1) un unfolding h_def [symmetric]
    by (auto simp: pruned_def view_ok_set_entry split: option.splits)
  with run new show ?thesis by auto
qed

lemma unspend_inputs_pruned:
  assumes "journal_of L (map PreviousOutPoint txIns) ss"
    and "pruned D w (led_spends (map PreviousOutPoint txIns) L)"
    and "\<And>txIn. txIn \<in> set txIns \<Longrightarrow> Hash (PreviousOutPoint txIn) \<notin> D"
  shows "\<exists>w'. foldE unspend_input (w, stxos @ ss) (rev txIns) = Inr (w', stxos) \<and> pruned D w' L"
  using assms
proof (induction txIns arbitrary: L ss stxos)
  case Nil
  then show ?case by (cases ss) auto
next
  case (Cons txIn txIns)
  then obtain s ss' where ss: "ss = s # ss'" by (cases ss) auto
  let ?p = "PreviousOutPoint txIn"
  have j: "led_coin L ?p \<noteq> None" "out_ok (stxo_out s)" "led_restore ?p s (led_spend ?p L) = L"
      "journal_of (led_spend ?p L) (map PreviousOutPoint txIns) ss'"
    using Cons.prems(1) by (auto simp: ss)
  obtain w1 where 1: "foldE unspend_input (w, (stxos @ [s]) @ ss') (rev txIns) = Inr (w1, stxos @ [s])" "pruned D w1 (led_spend ?p L)"
    using Cons.IH [OF j(4), of "stxos @ [s]"] Cons.prems(2,3) by auto
  obtain w' where "unspend_input (w1, stxos @ [s]) txIn = Inr (w', stxos)" "pruned D w' L"
    using unspend_input_pruned [OF 1(2) _ _ j(2), of txIn stxos] Cons.prems(3) [of txIn] j(3) by (auto simp: led_coin_spend)
  with 1 show ?case by (auto simp: ss foldE_append)
qed

subsection \<open>Transactions and blocks\<close>

definition tx_prevs :: "MsgTx \<Rightarrow> OutPoint list" where
  "tx_prevs tx = (if IsCoinBaseTx tx then [] else map PreviousOutPoint (TxIn tx))"

definition inputs_ok :: "MsgTx \<Rightarrow> UtxoViewpoint \<Rightarrow> bool" where
  "inputs_ok tx v \<longleftrightarrow> distinct (tx_prevs tx) \<and> list_all (\<lambda>p. led_coin (utxo_ledger v) p \<noteq> None) (tx_prevs tx)"

lemma connect_ledger:
  assumes "view_ok v" and "inputs_ok tx v" and "utxo_ledger v (txid c tx) = None"
  shows "\<exists>v' ss m. Utxo_connectTransaction c tx ht (v, Some stxos) = Inr (v', Some (stxos @ ss)) \<and> view_ok v' \<and>
    utxo_ledger v' = (led_spends (tx_prevs tx) (utxo_ledger v))(txid c tx := with_coins m (tx_coins tx)) \<and>
    journal_of (utxo_ledger v) (tx_prevs tx) ss"
proof -
  obtain v1 ss where 1: "(if IsCoinBaseTx tx then Inr (v, Some stxos) else foldE spend_input (v, Some stxos) (TxIn tx)) = Inr (v1, Some (stxos @ ss))"
      "view_ok v1" "utxo_ledger v1 = led_spends (tx_prevs tx) (utxo_ledger v)" "journal_of (utxo_ledger v) (tx_prevs tx) ss"
  proof (cases "IsCoinBaseTx tx")
    case True
    then show ?thesis using that [of v "[]"] assms(1) by (simp add: tx_prevs_def)
  next
    case False
    then have "distinct (map PreviousOutPoint (TxIn tx))"
        "\<And>txIn. txIn \<in> set (TxIn tx) \<Longrightarrow> led_coin (utxo_ledger v) (PreviousOutPoint txIn) \<noteq> None"
      using assms(2) by (auto simp: inputs_ok_def tx_prevs_def list_all_iff)
    from spend_inputs_ledger [OF assms(1) this, of stxos] False show ?thesis
      by (auto simp: tx_prevs_def intro: that)
  qed
  have "utxo_ledger v1 (txid c tx) = None" using 1(3) assms(3) by (simp add: led_spends_None)
  then obtain m where "utxo_ledger (AddTxOuts c tx ht v1) = (utxo_ledger v1)(txid c tx := with_coins m (tx_coins tx))"
    using AddTxOuts_ledger(2) [OF 1(2), of c tx ht] by auto
  moreover have "Utxo_connectTransaction c tx ht (v, Some stxos) = Inr (AddTxOuts c tx ht v1, Some (stxos @ ss))"
    using 1(1) by (auto simp: Utxo_connectTransaction_def split: if_splits)
  ultimately show ?thesis using 1 AddTxOuts_ledger(1) [OF 1(2), of c tx ht] by metis
qed

text \<open>A spent output as it comes back from the database may be compressed, but reads the same.\<close>

definition same_stxo :: "spentTxOut \<Rightarrow> spentTxOut \<Rightarrow> bool" where
  "same_stxo s s' \<longleftrightarrow> stxo_meta s' = stxo_meta s \<and> out_ok (stxo_out s') \<and> read_out (stxo_out s') = read_out (stxo_out s)"

lemma journal_of_same: "journal_of L ps ss \<Longrightarrow> list_all2 same_stxo ss ss' \<Longrightarrow> journal_of L ps ss'"
  by (induction L ps ss arbitrary: ss' rule: journal_of.induct) (auto simp: list_all2_Cons1 same_stxo_def)

lemma journal_of_length: "journal_of L ps ss \<Longrightarrow> length ss = length ps"
  by (induction L ps ss rule: journal_of.induct) auto

lemma disconnect_pruned:
  assumes "journal_of L (tx_prevs tx) ss" and "L (txid c tx) = None"
    and "pruned D w ((led_spends (tx_prevs tx) L)(txid c tx := x))"
    and "\<And>p. p \<in> set (tx_prevs tx) \<Longrightarrow> Hash p \<notin> D" and "IsCoinBaseTx tx \<longleftrightarrow> k = 0"
  shows "\<exists>u. Utxo_disconnect_tx c ht (w, stxos @ ss) (k, tx) = Inr (u, stxos) \<and> pruned (insert (txid c tx) D) u L"
proof -
  define e where "e = (case LookupEntry w (txid c tx) of None \<Rightarrow> newUtxoEntry (Version tx) (k = 0) ht | Some e \<Rightarrow> e)
    \<lparr>ue_modified := True, sparseOutputs := []\<rparr>"
  have "entry_ok e" by (simp add: e_def entry_ok_def)
  then have p: "pruned (insert (txid c tx) D) (set_entry (txid c tx) e w) (led_spends (tx_prevs tx) L)"
    using pruned_clear [OF assms(3) led_spends_None [of L "txid c tx", OF assms(2)]] by (simp add: e_def)
  have run: "Utxo_disconnect_tx c ht (w, stxos @ ss) (k, tx) =
      (if k = 0 then Inr (set_entry (txid c tx) e w, stxos @ ss)
       else foldE unspend_input (set_entry (txid c tx) e w, stxos @ ss) (rev (TxIn tx)))"
    by (simp add: Utxo_disconnect_tx_def e_def Let_def)
  show ?thesis
  proof (cases "k = 0")
    case True
    then have "tx_prevs tx = []" "ss = []" using assms(1,5) by (auto simp: tx_prevs_def dest: journal_of_length)
    then show ?thesis using True run p by simp
  next
    case False
    then have q: "tx_prevs tx = map PreviousOutPoint (TxIn tx)" using assms(5) by (simp add: tx_prevs_def)
    have "Hash (PreviousOutPoint txIn) \<notin> insert (txid c tx) D" if "txIn \<in> set (TxIn tx)" for txIn
    proof -
      have "led_coin L (PreviousOutPoint txIn) \<noteq> None"
      proof -
        have "journal_of L ps ss \<Longrightarrow> p \<in> set ps \<Longrightarrow> led_coin L p \<noteq> None" for L ps ss p
          by (induction L ps ss rule: journal_of.induct) (auto simp: led_coin_spend split: if_splits)
        then show ?thesis using assms(1) that unfolding q by fastforce
      qed
      then show ?thesis using assms(2,4) that by (auto simp: led_coin_def q split: option.splits)
    qed
    from unspend_inputs_pruned [OF assms(1) [unfolded q] p [unfolded q] this, of stxos] run False show ?thesis by auto
  qed
qed

text \<open>The state of affairs in which a block is connected; \<open>k\<close> is the index of the transaction.\<close>

abbreviation in_order :: "nat \<times> MsgTx \<Rightarrow> UtxoViewpoint \<times> spentTxOut list option \<Rightarrow> bool" where
  "in_order x st \<equiv> (IsCoinBaseTx (snd x) \<longleftrightarrow> fst x = 0) \<and> inputs_ok (snd x) (fst st)"

lemma connect_disconnect_txs:
  assumes "view_ok v" and "distinct (map (txid c \<circ> snd) xs)"
    and "\<And>x. x \<in> set xs \<Longrightarrow> utxo_ledger v (txid c (snd x)) = None"
    and "steps_ok in_order (\<lambda>x. Utxo_connectTransaction c (snd x) ht) xs (v, Some stxos)"
  shows "\<exists>v' ss. foldE (\<lambda>st x. Utxo_connectTransaction c (snd x) ht st) (v, Some stxos) xs = Inr (v', Some (stxos @ ss)) \<and> view_ok v' \<and>
    length ss = sum_list (map (\<lambda>x. length (tx_prevs (snd x))) xs) \<and>
    (\<forall>w ss' st'. pruned {} w (utxo_ledger v') \<and> list_all2 same_stxo ss ss' \<longrightarrow>
       (\<exists>u. foldE (Utxo_disconnect_tx c ht) (w, st' @ ss') (rev xs) = Inr (u, st') \<and>
         pruned ((txid c \<circ> snd) ` set xs) u (utxo_ledger v)))"
  using assms
proof (induction xs arbitrary: v stxos)
  case Nil
  then show ?case by (intro exI [of _ v] exI [of _ "[]"]) simp
next
  case (Cons x xs)
  obtain k tx where x: "x = (k, tx)" by fastforce
  have tx: "inputs_ok tx v" "utxo_ledger v (txid c tx) = None" "IsCoinBaseTx tx \<longleftrightarrow> k = 0"
    using Cons.prems(4) Cons.prems(3) [of x] by (simp_all add: x)
  from connect_ledger [OF Cons.prems(1) tx(1,2), of ht stxos] obtain v1 s1 m where
    1: "Utxo_connectTransaction c tx ht (v, Some stxos) = Inr (v1, Some (stxos @ s1))" "view_ok v1"
      "utxo_ledger v1 = (led_spends (tx_prevs tx) (utxo_ledger v))(txid c tx := with_coins m (tx_coins tx))"
      "journal_of (utxo_ledger v) (tx_prevs tx) s1" by blast
  have "utxo_ledger v1 (txid c (snd y)) = None" if "y \<in> set xs" for y
    using Cons.prems(2,3) that led_spends_None by (auto simp: 1(3) x rev_image_eqI)
  with Cons.IH [OF 1(2), of "stxos @ s1"] Cons.prems(2,4) 1(1) obtain v' ss where
    2: "foldE (\<lambda>st x. Utxo_connectTransaction c (snd x) ht st) (v1, Some (stxos @ s1)) xs = Inr (v', Some (stxos @ s1 @ ss))" "view_ok v'"
      "length ss = sum_list (map (\<lambda>x. length (tx_prevs (snd x))) xs)"
      "\<And>w ss' st'. pruned {} w (utxo_ledger v') \<Longrightarrow> list_all2 same_stxo ss ss' \<Longrightarrow>
       (\<exists>u. foldE (Utxo_disconnect_tx c ht) (w, st' @ ss') (rev xs) = Inr (u, st') \<and>
         pruned ((txid c \<circ> snd) ` set xs) u (utxo_ledger v1))"
    by (auto simp: x)
  have "Hash p \<notin> (txid c \<circ> snd) ` set xs" if "p \<in> set (tx_prevs tx)" for p
    using that tx(1) Cons.prems(3) by (fastforce simp: inputs_ok_def list_all_iff led_coin_def)
  note undo = disconnect_pruned [OF journal_of_same [OF 1(4)] tx(2) _ this tx(3)]
  show ?case
  proof (rule exI [of _ v'], rule exI [of _ "s1 @ ss"], intro conjI allI impI)
    show "foldE (\<lambda>st x. Utxo_connectTransaction c (snd x) ht st) (v, Some stxos) (x # xs) = Inr (v', Some (stxos @ s1 @ ss))"
      using 1(1) 2(1) by (simp add: x)
    show "view_ok v'" by (rule 2(2))
    show "length (s1 @ ss) = sum_list (map (\<lambda>x. length (tx_prevs (snd x))) (x # xs))"
      using journal_of_length [OF 1(4)] 2(3) by (simp add: x)
    fix w ss' st'
    assume w: "pruned {} w (utxo_ledger v') \<and> list_all2 same_stxo (s1 @ ss) ss'"
    then obtain t1 t2 where t: "ss' = t1 @ t2" "list_all2 same_stxo s1 t1" "list_all2 same_stxo ss t2"
      by (auto simp: list_all2_append1)
    from 2(4) [of w t2 "st' @ t1"] w t obtain u1 where
      "foldE (Utxo_disconnect_tx c ht) (w, (st' @ t1) @ t2) (rev xs) = Inr (u1, st' @ t1)" "pruned ((txid c \<circ> snd) ` set xs) u1 (utxo_ledger v1)"
      by auto
    moreover obtain u where "Utxo_disconnect_tx c ht (u1, st' @ t1) (k, tx) = Inr (u, st')"
        "pruned (insert (txid c tx) ((txid c \<circ> snd) ` set xs)) u (utxo_ledger v)"
      using undo [OF t(2), of u1 "with_coins m (tx_coins tx)" ht st'] calculation(2) by (auto simp: 1(3))
    ultimately show "\<exists>u. foldE (Utxo_disconnect_tx c ht) (w, st' @ ss') (rev (x # xs)) = Inr (u, st') \<and>
        pruned ((txid c \<circ> snd) ` set (x # xs)) u (utxo_ledger v)"
      by (auto simp: foldE_append t(1) x)
  qed
qed

lemma enumerate_steps:
  "foldE (\<lambda>st x. f (snd x) st) st (enumerate n txs) = foldE (\<lambda>st tx. f tx st) st txs"
  using foldE_map [of "\<lambda>st tx. f tx st" st snd "enumerate n txs"] by (simp add: comp_def)

lemma set_enumerate_snd: "x \<in> set (enumerate n xs) \<Longrightarrow> snd x \<in> set xs"
  using imageI [of x "set (enumerate n xs)" snd] by (simp flip: set_map)

lemma countSpentOutputs_prevs:
  assumes "list_all (\<lambda>x. IsCoinBaseTx (snd x) \<longleftrightarrow> fst x = 0) (enumerate 0 (Transactions block))" and "Transactions block \<noteq> []"
  shows "countSpentOutputs block = Inr (sum_list (map (\<lambda>x. length (tx_prevs (snd x))) (enumerate 0 (Transactions block))))"
proof (cases "Transactions block")
  case (Cons tx txs)
  then have cb: "IsCoinBaseTx tx" "list_all (\<lambda>x. \<not> IsCoinBaseTx (snd x)) (enumerate 1 txs)"
    using assms by (auto simp: list_all_iff in_set_enumerate_eq)
  have "map (\<lambda>x. length (tx_prevs (snd x))) (enumerate 1 txs) = map (\<lambda>x. length (TxIn (snd x))) (enumerate 1 txs)"
    using cb(2) by (auto simp: list_all_iff tx_prevs_def)
  also have "\<dots> = map (\<lambda>tx. length (TxIn tx)) (map snd (enumerate 1 txs))" by (simp only: map_map comp_def)
  finally show ?thesis using Cons cb(1) by (simp add: countSpentOutputs_def tx_prevs_def)
qed (use assms(2) in simp)

text \<open>
  C30. Disconnecting a block restores the unspent outputs that connecting it changed, through the
  journal of spent outputs alone.  Let the transactions of a block have distinct hashes, none of
  them a transaction that still has unspent outputs, let only the first be a coinbase, and let
  every input refer to an output that is unspent when its transaction is connected.  Then
  connecting the block succeeds, and for every view that is loaded afterwards, without the spent
  outputs, and every journal that reads the same, disconnecting succeeds and leads to the ledger
  before the block: the same unspent outputs, with amounts, scripts, versions, heights and
  coinbase flags.  Only for a block without transactions, which the rules refuse, disconnecting
  panics.
\<close>

theorem utxo_disconnect_undoes_connect:
  assumes "view_ok v" and "distinct (map (txid c) (Transactions block))"
    and "list_all (\<lambda>tx. utxo_ledger v (txid c tx) = None) (Transactions block)"
    and "steps_ok in_order (\<lambda>x. Utxo_connectTransaction c (snd x) (Height (Header block))) (enumerate 0 (Transactions block)) (v, Some [])"
  shows "\<exists>v' stxos. Utxo_connectTransactions c block (v, Some []) = Inr (v', Some stxos) \<and>
    (\<forall>w stxos'. pruned {} w (utxo_ledger v') \<and> list_all2 same_stxo stxos stxos' \<longrightarrow>
       (if Transactions block = [] then Utxo_disconnectTransactions c block stxos' w = Inl (Lower Panic)
        else \<exists>u. Utxo_disconnectTransactions c block stxos' w = Inr u \<and> utxo_ledger u = utxo_ledger v \<and>
            bestHash u = PrevBlock (Header block)))"
proof -
  let ?xs = "enumerate 0 (Transactions block)" and ?ht = "Height (Header block)"
  have "map (txid c \<circ> snd) ?xs = map (txid c) (Transactions block)" by (simp flip: map_map)
  then have d: "distinct (map (txid c \<circ> snd) ?xs)" using assms(2) by simp
  have fresh: "utxo_ledger v (txid c (snd x)) = None" if "x \<in> set ?xs" for x
    using assms(3) set_enumerate_snd [OF that] by (simp add: list_all_iff)
  have "steps_ok in_order run xs st \<Longrightarrow> list_all (\<lambda>x. IsCoinBaseTx (snd x) \<longleftrightarrow> fst x = 0) xs"
    for xs st and run :: "nat \<times> MsgTx \<Rightarrow> UtxoViewpoint \<times> spentTxOut list option \<Rightarrow> chain_err + UtxoViewpoint \<times> spentTxOut list option"
    by (induction xs arbitrary: st) (auto split: sum.splits)
  from this [OF assms(4)] have count: "countSpentOutputs block = Inr (sum_list (map (\<lambda>x. length (tx_prevs (snd x))) ?xs))"
    if "Transactions block \<noteq> []" using that by (rule countSpentOutputs_prevs)
  from connect_disconnect_txs [OF assms(1) d fresh assms(4)] obtain v' ss where
    1: "foldE (\<lambda>st x. Utxo_connectTransaction c (snd x) ?ht st) (v, Some []) ?xs = Inr (v', Some ss)"
      "length ss = sum_list (map (\<lambda>x. length (tx_prevs (snd x))) ?xs)"
      "\<And>w ss' st'. pruned {} w (utxo_ledger v') \<and> list_all2 same_stxo ss ss' \<Longrightarrow>
       \<exists>u. foldE (Utxo_disconnect_tx c ?ht) (w, st' @ ss') (rev ?xs) = Inr (u, st') \<and>
         pruned ((txid c \<circ> snd) ` set ?xs) u (utxo_ledger v)"
    by auto
  have led: "utxo_ledger (v'\<lparr>bestHash := b\<rparr>) = utxo_ledger v'" "utxo_ledger (u\<lparr>bestHash := b\<rparr>) = utxo_ledger u" for b u
    by (simp_all add: utxo_ledger_def fun_eq_iff)
  have "utxo_ledger u = utxo_ledger v" if "pruned D u (utxo_ledger v)" for D u
    by (rule pruned_ledger [OF that]) (auto simp: utxo_ledger_def with_coins_def split: option.splits)
  then have "\<exists>u. Utxo_disconnectTransactions c block ss' w = Inr u \<and> utxo_ledger u = utxo_ledger v \<and> bestHash u = PrevBlock (Header block)"
    if "pruned {} w (utxo_ledger v') \<and> list_all2 same_stxo ss ss'" "Transactions block \<noteq> []" for w ss'
    using 1(3) [OF that(1), of "[]"] 1(2) that(1) count [OF that(2)]
    by (auto simp: Utxo_disconnectTransactions_def led dest: list_all2_lengthD)
  moreover have "Utxo_disconnectTransactions c block ss' w = Inl (Lower Panic)" if "Transactions block = []" for w ss'
    using that by (simp add: Utxo_disconnectTransactions_def countSpentOutputs_def)
  moreover have "Utxo_connectTransactions c block (v, Some []) = Inr (v'\<lparr>bestHash := BlockHash c (Header block)\<rparr>, Some ss)"
    using 1(1) by (simp add: Utxo_connectTransactions_def enumerate_steps [where f = "\<lambda>tx. Utxo_connectTransaction c tx ?ht"])
  ultimately show ?thesis
    by (intro exI [of _ "v'\<lparr>bestHash := BlockHash c (Header block)\<rparr>"] exI [of _ ss]) (simp add: led)
qed

subsection \<open>An instance\<close>

definition example_coinbase :: MsgTx where
  "example_coinbase = \<lparr>Version = 1,
     TxIn = [\<lparr>PreviousOutPoint = \<lparr>Hash = replicate 32 0, Index = 0xffffffff\<rparr>, SignatureScript = [], Sequence = 0\<rparr>],
     TxOut = [\<lparr>Value = 4, PkScript = [0x51]\<rparr>], LockTime = 0\<rparr>"

definition example_utxos :: UtxoViewpoint where
  "example_utxos = \<lparr>entries = [replicate 32 5 \<mapsto> Some \<lparr>ue_modified = False, ue_version = 1, ue_isCoinBase = False, ue_blockHeight = 3,
     sparseOutputs = [(0, \<lparr>uo_spent = False, uo_compressed = False, uo_amount = 9, uo_pkScript = [0x51]\<rparr>)]\<rparr>],
     bestHash = replicate 32 0\<rparr>"

definition example_block :: MsgBlock where
  "example_block = \<lparr>Header = example_header, Transactions = [example_coinbase, example_tx]\<rparr>"

lemma example_txid:
  assumes "TxIn tx = ti # tis" and "length (TxIn tx) < 0xfd" and "length (Hash (PreviousOutPoint ti)) = 32"
  shows "txid example_crypto tx = put_int32 (Version tx) @ [word_of_nat (length (TxIn tx))] @ take 27 (Hash (PreviousOutPoint ti))"
proof -
  have "length (put_int32 (Version tx)) = 4" by (simp add: put_int32_def putUint_def)
  moreover have "WriteVarInt (length (TxIn tx)) = [word_of_nat (length (TxIn tx))]"
    using assms(2) by (simp add: WriteVarInt_def putUint_def)
  ultimately show ?thesis using assms(1,3)
    by (simp add: TxHash_def DoubleHashB_def example_crypto_def Let_def SerializeStripped_def btcEncode_def writeTxIn_def writeOutPoint_def)
qed

lemma put_int32_1: "put_int32 1 = [1, 0, 0, 0]"
proof -
  have "(4::nat) = Suc (Suc (Suc (Suc 0)))" by simp
  then show ?thesis unfolding put_int32_def putUint_def by (simp only: le_bytes.simps) simp
qed

lemma example_txids:
  "txid example_crypto example_coinbase = [1, 0, 0, 0, 1] @ replicate 27 0"
  "txid example_crypto example_tx = [1, 0, 0, 0, 1] @ replicate 27 5"
  using example_txid [of example_coinbase "TxIn example_coinbase ! 0" "[]"] example_txid [of example_tx "TxIn example_tx ! 0" "[]"]
  by (simp_all add: example_coinbase_def example_tx_def put_int32_1)

lemma example_utxos_ok:
  "view_ok example_utxos"
  "utxo_ledger example_utxos = [replicate 32 5 \<mapsto> ((1, False, 3), [0 \<mapsto> (9, [0x51])])]"
proof -
  have l: "LookupEntry example_utxos h = (if h = replicate 32 5 then Some \<lparr>ue_modified = False, ue_version = 1, ue_isCoinBase = False, ue_blockHeight = 3,
     sparseOutputs = [(0, \<lparr>uo_spent = False, uo_compressed = False, uo_amount = 9, uo_pkScript = [0x51]\<rparr>)]\<rparr> else None)" for h
    by (simp add: LookupEntry_def example_utxos_def)
  show "view_ok example_utxos"
    by (simp add: view_ok_def l entry_ok_def out_ok_def maybeDecompress_def)
  show "utxo_ledger example_utxos = [replicate 32 5 \<mapsto> ((1, False, 3), [0 \<mapsto> (9, [0x51])])]"
    by (auto simp: fun_eq_iff utxo_ledger_def l with_coins_def entry_coins_def read_out_def maybeDecompress_def)
qed

lemma example_kinds: "IsCoinBaseTx example_coinbase" "\<not> IsCoinBaseTx example_tx"
  by (simp_all add: IsCoinBaseTx_def isNullOutpoint_def example_coinbase_def example_tx_def)

lemma example_neq:
  "txid example_crypto example_coinbase \<noteq> replicate 32 5" "txid example_crypto example_tx \<noteq> replicate 32 5"
  "txid example_crypto example_coinbase \<noteq> txid example_crypto example_tx"
  unfolding example_txids by (auto dest: arg_cong [of _ _ hd])

lemma example_steps:
  "steps_ok in_order (\<lambda>x. Utxo_connectTransaction example_crypto (snd x) ht) (enumerate 0 [example_coinbase, example_tx]) (example_utxos, Some [])"
proof -
  have i: "inputs_ok example_coinbase example_utxos" by (simp add: inputs_ok_def tx_prevs_def example_kinds)
  from connect_ledger [OF example_utxos_ok(1) i, of example_crypto ht "[]"] example_neq obtain v1 s1 m where
    1: "Utxo_connectTransaction example_crypto example_coinbase ht (example_utxos, Some []) = Inr (v1, Some s1)" "view_ok v1"
      "utxo_ledger v1 = (utxo_ledger example_utxos)(txid example_crypto example_coinbase := with_coins m (tx_coins example_coinbase))"
    by (auto simp: example_utxos_ok(2) tx_prevs_def example_kinds)
  have p: "tx_prevs example_tx = [\<lparr>Hash = replicate 32 5, Index = 0\<rparr>]" by (simp add: tx_prevs_def example_kinds) (simp add: example_tx_def)
  then have i2: "inputs_ok example_tx v1" using example_neq(1)
    by (simp add: inputs_ok_def led_coin_def 1(3) example_utxos_ok(2))
  from connect_ledger [OF 1(2) i2, of example_crypto ht s1] example_neq show ?thesis
    using 1(1) i i2 by (auto simp: 1(3) example_utxos_ok(2) example_kinds)
qed

theorem utxo_disconnect_undoes_connect_witness:
  "\<exists>v' stxos. Utxo_connectTransactions example_crypto example_block (example_utxos, Some []) = Inr (v', Some stxos) \<and>
    (\<nexists>w stxos'. pruned {} w (utxo_ledger v') \<and> list_all2 same_stxo stxos stxos' \<and>
       \<not> (\<exists>u. Utxo_disconnectTransactions example_crypto example_block stxos' w = Inr u \<and> utxo_ledger u = utxo_ledger example_utxos))"
proof -
  have b: "Transactions example_block = [example_coinbase, example_tx]" by (simp add: example_block_def)
  have "distinct (map (txid example_crypto) (Transactions example_block))" using example_neq by (simp add: b)
  moreover have "list_all (\<lambda>tx. utxo_ledger example_utxos (txid example_crypto tx) = None) (Transactions example_block)"
    using example_neq by (simp add: b example_utxos_ok(2))
  moreover note example_steps [of "Height (Header example_block)", folded b]
  ultimately obtain v' stxos where "Utxo_connectTransactions example_crypto example_block (example_utxos, Some []) = Inr (v', Some stxos)"
      "\<And>w stxos'. pruned {} w (utxo_ledger v') \<Longrightarrow> list_all2 same_stxo stxos stxos' \<Longrightarrow>
        \<exists>u. Utxo_disconnectTransactions example_crypto example_block stxos' w = Inr u \<and> utxo_ledger u = utxo_ledger example_utxos"
    using utxo_disconnect_undoes_connect [OF example_utxos_ok(1), of example_crypto example_block] b by auto blast
  then show ?thesis by blast
qed

end
