(* ===== verification/Merkle.thy ===== *)
theory Merkle
  imports Utxo_View "HOL-Library.Log_Nat"
begin

text \<open>
  The Merkle tree of a block, \<open>src/blockchain/merkle.go\<close>: a linear array of the hashes of the
  transactions, with and without signature scripts, and of the inner nodes.  Its last element is
  shown to be the hash of the two roots of the usual trees.
\<close>

section \<open>The linear array\<close>

text \<open>
  The code takes the integer part of the binary logarithm of a number that is small enough for
  the floating point result to be exact.
\<close>

definition nextPowerOfTwo :: "nat \<Rightarrow> nat" where
  "nextPowerOfTwo n = (if int n AND (int n - 1) = 0 then n else 2 ^ floorlog 2 n)"

definition HashMerkleBranches :: "'x crypto_scheme \<Rightarrow> bytes \<Rightarrow> bytes \<Rightarrow> bytes" where
  "HashMerkleBranches c left right =
     DoubleHashB c (copy_at (copy_at (replicate (HashSize * 2) 0) 0 left) HashSize right)"

definition merkle_step :: "'x crypto_scheme \<Rightarrow> nat \<Rightarrow> bytes option list \<Rightarrow> nat \<Rightarrow> bytes option list" where
  "merkle_step c offset merkles k =
     (let i = 2 * k
      in merkles[offset + k :=
           (case merkles ! i of
              None \<Rightarrow> None
            | Some left \<Rightarrow>
                (case merkles ! (i + 1) of
                   None \<Rightarrow> Some (HashMerkleBranches c left left)
                 | Some right \<Rightarrow> Some (HashMerkleBranches c left right)))])"

text \<open>For a block without transactions the size of the array is negative, and making it panics.\<close>

definition BuildMerkleTreeStore :: "'x crypto_scheme \<Rightarrow> MsgTx list \<Rightarrow> bytes option list res" where
  "BuildMerkleTreeStore c transactions =
     (let nextPoT = nextPowerOfTwo (length transactions)
      in if nextPoT = 0 then Inl Panic
         else
           let arraySize = nextPoT * 2 * 2 - 1;
               merkles = replicate arraySize None;
               merkles = foldl (\<lambda>merkles (i, tx). merkles[i := Some (txid c tx), i + nextPoT := Some (TxHashWithSig (DoubleHashB c) tx)])
                           merkles (enumerate 0 transactions)
           in Inr (foldl (merkle_step c (nextPoT * 2)) merkles [0 ..< (arraySize - 1) div 2]))"

section \<open>The tree\<close>

text \<open>
  The root of a list of hashes: neighbours are hashed together, level by level, the last one with
  itself if it has no neighbour.
\<close>

fun pair_up :: "('a \<Rightarrow> 'a \<Rightarrow> 'a) \<Rightarrow> 'a list \<Rightarrow> 'a list" where
  "pair_up h [] = []"
| "pair_up h [x] = [h x x]"
| "pair_up h (x # y # zs) = h x y # pair_up h zs"

lemma length_pair_up: "length (pair_up h xs) = (length xs + 1) div 2"
  by (induction h xs rule: pair_up.induct) auto

function merkle_root :: "('a \<Rightarrow> 'a \<Rightarrow> 'a) \<Rightarrow> 'a list \<Rightarrow> 'a" where
  "merkle_root h xs = (if length xs \<le> 1 then hd xs else merkle_root h (pair_up h xs))"
  by pat_completeness auto
termination
  by (relation "measure (\<lambda>(h, xs). length xs)") (auto simp: length_pair_up)

declare merkle_root.simps [simp del]

text \<open>Parents of nodes that may be missing, and the tree over a function that gives the leaves.\<close>

fun opt_node :: "('a \<Rightarrow> 'a \<Rightarrow> 'a) \<Rightarrow> 'a option \<Rightarrow> 'a option \<Rightarrow> 'a option" where
  "opt_node h None r = None"
| "opt_node h (Some l) None = Some (h l l)"
| "opt_node h (Some l) (Some r) = Some (h l r)"

fun opt_tree :: "('a \<Rightarrow> 'a \<Rightarrow> 'a) \<Rightarrow> (nat \<Rightarrow> 'a option) \<Rightarrow> nat \<Rightarrow> nat \<Rightarrow> 'a option" where
  "opt_tree h leaf 0 p = leaf p"
| "opt_tree h leaf (Suc l) p = opt_node h (opt_tree h leaf l (2 * p)) (opt_tree h leaf l (2 * p + 1))"

abbreviation padded :: "'a list \<Rightarrow> nat \<Rightarrow> 'a option" where
  "padded xs i \<equiv> if i < length xs then Some (xs ! i) else None"

lemma opt_tree_shift: "opt_tree h leaf l (p + q * 2 ^ (m - l)) = opt_tree h (\<lambda>i. leaf (i + q * 2 ^ m)) l p" if "l \<le> m"
  using that
proof (induction l arbitrary: p)
  case (Suc l)
  have e: "2 * (p + q * 2 ^ (m - Suc l)) = 2 * p + q * 2 ^ (m - l)"
    using Suc.prems by (simp add: Suc_diff_Suc [symmetric] algebra_simps)
  have e1: "2 * p + q * 2 ^ (m - l) + 1 = (2 * p + 1) + q * 2 ^ (m - l)" by simp
  have "l \<le> m" using Suc.prems by simp
  note IH = Suc.IH [OF this]
  show ?case by (simp only: opt_tree.simps e e1 IH)
qed simp

lemma opt_tree_pair: "opt_tree h leaf (Suc l) p = opt_tree h (\<lambda>i. opt_node h (leaf (2 * i)) (leaf (2 * i + 1))) l p"
proof (induction l arbitrary: p)
  case (Suc l)
  show ?case by (subst opt_tree.simps(2)) (simp only: Suc.IH opt_tree.simps(2) [of h "\<lambda>i. opt_node h (leaf (2 * i)) (leaf (2 * i + 1))"])
qed simp

lemma padded_pair: "opt_node h (padded xs (2 * i)) (padded xs (2 * i + 1)) = padded (pair_up h xs) i"
proof (induction h xs arbitrary: i rule: pair_up.induct)
  case (2 h x)
  then show ?case by (cases i) auto
next
  case (3 h x y zs)
  show ?case
  proof (cases i)
    case (Suc k)
    have "padded (x # y # zs) (2 * i) = padded zs (2 * k)" "padded (x # y # zs) (2 * i + 1) = padded zs (2 * k + 1)"
      "padded (pair_up h (x # y # zs)) i = padded (pair_up h zs) k" by (simp_all add: Suc)
    then show ?thesis by (simp only: 3)
  qed simp
qed simp

lemma opt_tree_root:
  assumes "2 ^ l < 2 * length xs" and "length xs \<le> 2 ^ l"
  shows "opt_tree h (padded xs) l 0 = Some (merkle_root h xs)"
  using assms
proof (induction l arbitrary: xs)
  case 0
  then have "length xs = 1" by simp
  then show ?case by (subst merkle_root.simps) (cases xs, simp_all)
next
  case (Suc l)
  have "opt_tree h (padded xs) (Suc l) 0 = opt_tree h (padded (pair_up h xs)) l 0"
    unfolding opt_tree_pair padded_pair ..
  also have "\<dots> = Some (merkle_root h (pair_up h xs))"
    by (rule Suc.IH) (use Suc.prems in \<open>auto simp: length_pair_up\<close>)
  also have "merkle_root h (pair_up h xs) = merkle_root h xs"
  proof -
    have "(2 :: nat) \<le> 2 ^ Suc l" by simp
    with Suc.prems(1) have "1 < length xs" by linarith
    then show ?thesis by (subst (2) merkle_root.simps) simp
  qed
  finally show ?case .
qed

lemma merkle_step_node:
  "merkle_step c offset ms k = ms[offset + k := opt_node (HashMerkleBranches c) (ms ! (2 * k)) (ms ! (2 * k + 1))]"
  by (simp add: merkle_step_def Let_def split: option.splits)

lemma merkle_steps:
  assumes "length ms = 2 * n - 1" and "k \<le> n - 1"
  shows "let ms' = foldl (merkle_step c n) ms [0 ..< k]
         in length ms' = 2 * n - 1 \<and> (\<forall>j < n. ms' ! j = ms ! j) \<and>
            (\<forall>i < k. ms' ! (n + i) = opt_node (HashMerkleBranches c) (ms' ! (2 * i)) (ms' ! (2 * i + 1)))"
  using assms(2)
proof (induction k)
  case 0
  then show ?case by (simp add: assms(1))
next
  case (Suc k)
  define xs where "xs = foldl (merkle_step c n) ms [0 ..< k]"
  define x where "x = opt_node (HashMerkleBranches c) (xs ! (2 * k)) (xs ! (2 * k + 1))"
  have IH: "length xs = 2 * n - 1" "\<And>j. j < n \<Longrightarrow> xs ! j = ms ! j"
      "\<And>i. i < k \<Longrightarrow> xs ! (n + i) = opt_node (HashMerkleBranches c) (xs ! (2 * i)) (xs ! (2 * i + 1))"
    using Suc by (simp_all add: xs_def Let_def)
  have new: "foldl (merkle_step c n) ms [0 ..< Suc k] = xs[n + k := x]"
    by (simp add: xs_def x_def merkle_step_node)
  have far: "n + k < length xs" "2 * i + 1 < n + k" if "i \<le> k" for i using that Suc.prems IH(1) by auto
  have "xs[n + k := x] ! (n + i) = opt_node (HashMerkleBranches c) (xs[n + k := x] ! (2 * i)) (xs[n + k := x] ! (2 * i + 1))" if "i < Suc k" for i
  proof -
    have "xs[n + k := x] ! (2 * i) = xs ! (2 * i)" "xs[n + k := x] ! (2 * i + 1) = xs ! (2 * i + 1)"
      using far(2) [of i] that by simp_all
    then show ?thesis using that far(1) [of k] IH(3) [of i] by (cases "i = k") (simp_all add: x_def)
  qed
  moreover have "xs[n + k := x] ! j = ms ! j" if "j < n" for j using IH(2) [OF that] that by simp
  ultimately show ?case unfolding new Let_def by (simp add: IH(1))
qed

lemma merkle_levels:
  assumes "\<And>i. i < 2 ^ m - 1 \<Longrightarrow> ms ! (2 ^ m + i) = opt_node h (ms ! (2 * i)) (ms ! (2 * i + 1))"
    and "l \<le> m" and "p < 2 ^ (m - l)"
  shows "ms ! (2 * 2 ^ m - 2 * 2 ^ (m - l) + p) = opt_tree h (\<lambda>i. ms ! i) l p"
  using assms(2,3)
proof (induction l arbitrary: p)
  case (Suc l)
  define a where "a = (2 :: nat) ^ (m - Suc l)"
  have a: "2 ^ (m - l) = 2 * a" using Suc.prems(1) by (simp add: a_def Suc_diff_Suc [symmetric])
  have m: "2 * a \<le> 2 ^ m" unfolding a [symmetric] by simp
  have i: "2 * 2 ^ m - 2 * a + p = 2 ^ m + (2 ^ m - 2 * a + p)" "2 ^ m - 2 * a + p < 2 ^ m - 1"
    using m Suc.prems(2) unfolding a_def [symmetric] by linarith+
  have j: "2 * (2 ^ m - 2 * a + p) = 2 * 2 ^ m - 2 * (2 * a) + 2 * p" "2 * p + 1 < 2 * a"
    using Suc.prems(2) m unfolding a_def [symmetric] by (simp_all add: diff_mult_distrib2 add_mult_distrib2)
  have k: "2 * (2 ^ m - 2 * a + p) + 1 = 2 * 2 ^ m - 2 * (2 * a) + (2 * p + 1)" using j(1) by simp
  have "l \<le> m" using Suc.prems(1) by simp
  note IH = Suc.IH [OF this, unfolded a]
  show ?case unfolding a_def [symmetric] i(1) assms(1) [OF i(2)] k unfolding j(1)
    using IH [of "2 * p"] IH [of "2 * p + 1"] j(2) by simp
qed simp

lemma foldl_leaves:
  assumes "length txs \<le> n" and "length ms = 4 * n - 1" and "0 < n"
  shows "let ms' = foldl (\<lambda>ms (i, tx). ms[i := Some (f tx), i + n := Some (g tx)]) ms (enumerate 0 txs)
     in length ms' = 4 * n - 1 \<and>
       (\<forall>i < n. ms' ! i = (if i < length txs then Some (f (txs ! i)) else ms ! i) \<and>
          ms' ! (i + n) = (if i < length txs then Some (g (txs ! i)) else ms ! (i + n)))"
  using assms(1)
proof (induction txs rule: rev_induct)
  case Nil
  then show ?case using assms(2) by simp
next
  case (snoc tx txs)
  define xs where "xs = foldl (\<lambda>ms (i, tx). ms[i := Some (f tx), i + n := Some (g tx)]) ms (enumerate 0 txs)"
  have IH: "length xs = 4 * n - 1" "\<And>i. i < n \<Longrightarrow> xs ! i = (if i < length txs then Some (f (txs ! i)) else ms ! i)"
      "\<And>i. i < n \<Longrightarrow> xs ! (i + n) = (if i < length txs then Some (g (txs ! i)) else ms ! (i + n))"
    using snoc by (simp_all add: xs_def Let_def)
  have "foldl (\<lambda>ms (i, tx). ms[i := Some (f tx), i + n := Some (g tx)]) ms (enumerate 0 (txs @ [tx])) =
      xs[length txs := Some (f tx), length txs + n := Some (g tx)]"
    by (simp add: xs_def enumerate_append_eq)
  then show ?case using IH snoc.prems assms(3) by (simp add: nth_list_update nth_append less_Suc_eq)
qed

lemma power_of_two_and: "int n AND (int n - 1) = 0 \<Longrightarrow> 0 < n \<Longrightarrow> \<exists>k. n = 2 ^ k"
proof (induction n rule: less_induct)
  case (less n)
  obtain m where n: "n = 2 * m \<or> n = 2 * m + 1" by (metis oddE dvdE)
  show ?case
  proof (cases "n = 2 * m")
    case True
    then have m: "0 < m" "m < n" using less.prems(2) by auto
    have "(2 * int m - 1) div 2 = int m - 1" by presburger
    then have "int n AND (int n - 1) = 2 * (int m AND (int m - 1))"
      using True by (subst and_int_rec) auto
    with less.IH [OF m(2) _ m(1)] less.prems(1) obtain k where "m = 2 ^ k" by auto
    then show ?thesis using True by (intro exI [of _ "Suc k"]) simp
  next
    case False
    with n have "n = 2 * m + 1" by simp
    then have "int n AND (int n - 1) = 2 * int m" by (subst and_int_rec) auto
    with less.prems(1) \<open>n = 2 * m + 1\<close> show ?thesis by (intro exI [of _ 0]) simp
  qed
qed

lemma nextPowerOfTwo:
  assumes "0 < n"
  shows "\<exists>k. nextPowerOfTwo n = 2 ^ k \<and> n \<le> 2 ^ k \<and> 2 ^ k < 2 * n"
proof (cases "int n AND (int n - 1) = 0")
  case True
  then show ?thesis using power_of_two_and [OF True assms] assms by (auto simp: nextPowerOfTwo_def)
next
  case False
  define k where "k = floorlog 2 n"
  have k: "2 ^ (k - 1) \<le> n" "n < 2 ^ k" using floorlog_bounds [of n 2] assms by (simp_all add: k_def)
  have "k \<noteq> 0" using k(2) assms by (cases k) auto
  then have two: "(2 :: nat) ^ k = 2 * 2 ^ (k - 1)" by (cases k) auto
  have "n \<noteq> 2 ^ (k - 1)"
  proof
    assume "n = 2 ^ (k - 1)"
    then have "int n AND (int n - 1) = take_bit (k - 1) (2 ^ (k - 1))" by (simp add: take_bit_eq_mask mask_eq_exp_minus_1)
    then show False using False by simp
  qed
  then show ?thesis using False k two by (intro exI [of _ k]) (auto simp: nextPowerOfTwo_def k_def)
qed

section \<open>Properties\<close>

text \<open>
  C36. For a block with transactions the array is built, and its last element, which the code
  compares with the Merkle root of the header, is the hash of two Merkle roots: that of the hashes
  of the transactions without signature scripts, and that of the hashes with them.
\<close>

theorem merkle_store_root:
  assumes "txs \<noteq> []"
  shows "\<exists>store. BuildMerkleTreeStore c txs = Inr store \<and> store \<noteq> [] \<and>
    last store = Some (HashMerkleBranches c
      (merkle_root (HashMerkleBranches c) (map (txid c) txs))
      (merkle_root (HashMerkleBranches c) (map (TxHashWithSig (DoubleHashB c)) txs)))"
proof -
  let ?h = "HashMerkleBranches c" and ?f = "txid c" and ?g = "TxHashWithSig (DoubleHashB c)"
  obtain k where k: "nextPowerOfTwo (length txs) = 2 ^ k" "length txs \<le> 2 ^ k" "2 ^ k < 2 * length txs"
    using nextPowerOfTwo [of "length txs"] assms by auto
  define n where "n = (2 :: nat) ^ k"
  define ms where "ms = foldl (\<lambda>ms (i, tx). ms[i := Some (?f tx), i + n := Some (?g tx)]) (replicate (4 * n - 1) None) (enumerate 0 txs)"
  define store where "store = foldl (merkle_step c (2 * n)) ms [0 ..< 2 * n - 1]"
  have n: "0 < n" "length txs \<le> n" using k(2) by (simp_all add: n_def)
  have ms: "length ms = 2 * (2 * n) - 1" "\<And>i. i < n \<Longrightarrow> ms ! i = padded (map ?f txs) i" "\<And>i. i < n \<Longrightarrow> ms ! (i + n) = padded (map ?g txs) i"
    using foldl_leaves [OF n(2) _ n(1), of "replicate (4 * n - 1) None" ?f ?g] n(1) by (simp_all add: ms_def Let_def)
  have run: "BuildMerkleTreeStore c txs = Inr store"
  proof -
    have "n * 2 * 2 - 1 = 4 * n - 1" "(n * 2 * 2 - 1 - 1) div 2 = 2 * n - 1" "n * 2 = 2 * n" using n(1) by auto
    then show ?thesis unfolding BuildMerkleTreeStore_def Let_def k(1) n_def [symmetric] store_def ms_def using n(1) by (simp add: mult.commute [of n 2])
  qed
  have store: "length store = 2 * (2 * n) - 1" "\<And>j. j < 2 * n \<Longrightarrow> store ! j = ms ! j"
      "\<And>i. i < 2 * n - 1 \<Longrightarrow> store ! (2 * n + i) = opt_node ?h (store ! (2 * i)) (store ! (2 * i + 1))"
    using merkle_steps [OF ms(1) order.refl, of c] by (simp_all add: store_def Let_def)
  have tree: "opt_tree ?h (\<lambda>i. store ! (i + q * n)) k 0 = opt_tree ?h leaf k 0"
    if "\<And>i. i < n \<Longrightarrow> store ! (i + q * n) = leaf i" for q leaf
  proof -
    have "l \<le> k \<Longrightarrow> p < 2 ^ (k - l) \<Longrightarrow> opt_tree ?h (\<lambda>i. store ! (i + q * n)) l p = opt_tree ?h leaf l p" for l p
    proof (induction l arbitrary: p)
      case 0
      then show ?case using that by (simp add: n_def)
    next
      case (Suc l)
      have "2 ^ (k - l) = 2 * (2 :: nat) ^ (k - Suc l)" using Suc.prems(1) by (simp add: Suc_diff_Suc [symmetric])
      then show ?case using Suc by simp
    qed
    from this [of k 0] show ?thesis by simp
  qed
  have "store ! (2 * 2 ^ Suc k - 2 * 2 ^ (Suc k - Suc k) + 0) = opt_tree ?h (\<lambda>i. store ! i) (Suc k) 0"
    by (rule merkle_levels) (use store(3) in \<open>simp_all add: n_def\<close>)
  moreover have "opt_tree ?h (\<lambda>i. store ! i) k 0 = Some (merkle_root ?h (map ?f txs))"
    using tree [of 0 "padded (map ?f txs)"] opt_tree_root [of k "map ?f txs" ?h] k store(2) ms(2) by simp
  moreover have "opt_tree ?h (\<lambda>i. store ! i) k 1 = Some (merkle_root ?h (map ?g txs))"
  proof -
    have "opt_tree ?h (\<lambda>i. store ! i) k (0 + 1 * 2 ^ (k - k)) = opt_tree ?h (\<lambda>i. store ! (i + 1 * n)) k 0"
      unfolding n_def by (rule opt_tree_shift) simp
    then show ?thesis
      using tree [of 1 "padded (map ?g txs)"] opt_tree_root [of k "map ?g txs" ?h] k store(2) ms(3) by simp
  qed
  moreover have ne: "store \<noteq> []" using store(1) n(1) by auto
  moreover have "last store = store ! (2 * 2 ^ Suc k - 2 * 2 ^ (Suc k - Suc k) + 0)"
  proof -
    have "2 * 2 ^ Suc k - 2 * 2 ^ (Suc k - Suc k) + 0 = length store - 1" using n(1) by (simp add: store(1) n_def)
    then show ?thesis using ne by (simp add: last_conv_nth)
  qed
  ultimately show ?thesis using run by auto
qed

theorem merkle_store_root_witness:
  "\<exists>store. BuildMerkleTreeStore example_crypto [example_tx] = Inr store \<and>
     last store = Some (HashMerkleBranches example_crypto (txid example_crypto example_tx) (TxHashWithSig (DoubleHashB example_crypto) example_tx))"
  using merkle_store_root [of "[example_tx]" example_crypto] by (auto simp: merkle_root.simps)

end
