(* ===== verification/Key_Sets.thy ===== *)
theory Key_Sets
  imports Script_Standard Crypto_Params "HOL-Library.AList" "HOL-Library.Multiset"
begin

text \<open>
  Sets of admin keys and the registry of key ids: \<open>src/btcec/pubkeyset.go\<close>,
  \<open>src/btcec/keyidmap.go\<close> and the copying of thread tips of \<open>src/provautil/threadid.go\<close>.

  A \<open>PublicKeySet\<close> is the slice of its keys.  A Go map is an association list where the code
  takes its length or runs through it, and a partial function otherwise; an entry of a
  \<open>KeyIdMap\<close> may hold the nil pointer, which is \<open>None\<close>.  A nil key that is dereferenced panics.

  The locale \<open>finite_set_ops\<close> is the contract of the set operations, that \<open>Add\<close> and removing at
  the position found by \<open>Pos\<close> insert and delete one element; its interpretation on the slice
  operations is what the key views rest on.
\<close>

section \<open>Public key sets\<close>

type_synonym PublicKeySet = "PublicKey list"

fun pos_loop :: "nat \<Rightarrow> PublicKeySet \<Rightarrow> PublicKey \<Rightarrow> int" where
  "pos_loop p [] key = -1"
| "pos_loop p (v # keySet) key = (if PublicKey_IsEqual v key then int p else pos_loop (p + 1) keySet key)"

text \<open>\<open>IsEqual\<close> reads the coordinates of its argument, so looking for nil panics on a non-empty set.\<close>

definition Pos :: "PublicKeySet \<Rightarrow> PublicKey option \<Rightarrow> int res" where
  "Pos keySet key =
     (case key of Some k \<Rightarrow> Inr (pos_loop 0 keySet k)
      | None \<Rightarrow> if keySet = [] then Inr (-1) else Inl Panic)"

definition Add :: "PublicKeySet \<Rightarrow> PublicKey option \<Rightarrow> PublicKeySet res" where
  "Add keySet key =
     bindE (Pos keySet key) (\<lambda>pos.
       if pos < 0 then (case key of Some k \<Rightarrow> Inr (keySet @ [k]) | None \<Rightarrow> Inl Panic)
       else Inr keySet)"

text \<open>The element at \<open>pos\<close> is swapped with the last one, which is cut off.\<close>

definition Remove :: "PublicKeySet \<Rightarrow> int \<Rightarrow> PublicKeySet" where
  "Remove keySet pos =
     (if pos < 0 \<or> pos \<ge> int (length keySet) then keySet
      else
        let keySet = (keySet[length keySet - 1 := keySet ! nat pos])[nat pos := keySet ! (length keySet - 1)]
        in take (length keySet - 1) keySet)"

text \<open>A nil set has length 0, and so compares as an empty one.\<close>

definition KeySet_Equal :: "PublicKeySet \<Rightarrow> PublicKeySet \<Rightarrow> bool" where
  "KeySet_Equal keySet v \<longleftrightarrow>
     length keySet = length v \<and> list_all (\<lambda>k. pos_loop 0 keySet k \<noteq> -1) v"

definition DeepCopy :: "(KeySetType \<rightharpoonup> PublicKeySet) \<Rightarrow> (KeySetType \<rightharpoonup> PublicKeySet)" where
  "DeepCopy adminKeySets = (\<lambda>setType. map_option (map (\<lambda>k. k)) (adminKeySets setType))"

section \<open>Key ids\<close>

type_synonym KeyIdMap = "(KeyID \<times> PublicKey option) list"

text \<open>Reading a map at a key that is not there gives nil.\<close>

definition key_at :: "KeyIdMap \<Rightarrow> KeyID \<Rightarrow> PublicKey option" where
  "key_at keyMap keyID = (case map_of keyMap keyID of None \<Rightarrow> None | Some k \<Rightarrow> k)"

definition KeyIdMap_Equal :: "KeyIdMap \<Rightarrow> KeyIdMap \<Rightarrow> bool" where
  "KeyIdMap_Equal keyMap v \<longleftrightarrow>
     length keyMap = length v \<and>
     list_all (\<lambda>(keyID, _).
       case (key_at keyMap keyID, key_at v keyID) of
         (Some p, Some q) \<Rightarrow> PublicKey_IsEqual p q
       | _ \<Rightarrow> False) keyMap"

text \<open>The copy of a key is parsed from its serialization, and nil when that fails.\<close>

definition KeyIdMap_DeepCopy :: "KeyIdMap \<Rightarrow> KeyIdMap res" where
  "KeyIdMap_DeepCopy keyMap =
     foldE (\<lambda>copy (keyID, pubKey).
       case pubKey of
         None \<Rightarrow> Inl Panic
       | Some k \<Rightarrow>
           Inr (AList.update keyID (case ParsePubKey (SerializeCompressed k) of Inl _ \<Rightarrow> None | Inr k' \<Rightarrow> Some k') copy))
       [] keyMap"

definition CopyThreadTips :: "(byte \<rightharpoonup> OutPoint) \<Rightarrow> (byte \<rightharpoonup> OutPoint)" where
  "CopyThreadTips threadTips = (\<lambda>threadId. map_option (\<lambda>o'. \<lparr>Hash = Hash o', Index = Index o'\<rparr>) (threadTips threadId))"

section \<open>The set that a key set stands for\<close>

lemma PublicKey_IsEqual_iff [simp]: "PublicKey_IsEqual p q \<longleftrightarrow> p = q"
  by (cases p; cases q) (simp add: PublicKey_IsEqual_def)

lemma pos_loop_absent: "k \<notin> set keySet \<Longrightarrow> pos_loop p keySet k = -1"
  by (induction keySet arbitrary: p) auto

lemma pos_loop_present:
  "k \<in> set keySet \<Longrightarrow> \<exists>i < length keySet. pos_loop p keySet k = int (p + i) \<and> keySet ! i = k"
proof (induction keySet arbitrary: p)
  case (Cons v keySet)
  show ?case
  proof (cases "v = k")
    case False
    then obtain i where "i < length keySet" "pos_loop (p + 1) keySet k = int (p + 1 + i)" "keySet ! i = k"
      using Cons by (metis set_ConsD)
    with False show ?thesis by (intro exI [of _ "Suc i"]) auto
  qed (auto intro!: exI [of _ 0])
qed simp

lemma pos_loop_neg [simp]: "pos_loop p keySet k < 0 \<longleftrightarrow> k \<notin> set keySet"
  using pos_loop_absent pos_loop_present [of k keySet p] by fastforce

lemma Remove_mset:
  assumes "i < length keySet"
  shows "mset (Remove keySet (int i)) = mset keySet - {#keySet ! i#}"
proof -
  let ?n = "length keySet - 1"
  define s where "s = (keySet[?n := keySet ! i])[i := keySet ! ?n]"
  have len: "length s = length keySet" "s \<noteq> []" using assms by (auto simp: s_def)
  have "mset s = mset keySet" using assms by (simp add: s_def mset_swap)
  moreover have "last s = keySet ! i" using assms len by (simp add: last_conv_nth s_def nth_list_update)
  then have "mset s = add_mset (keySet ! i) (mset (butlast s))"
    using append_butlast_last_id [OF len(2)] mset_append [of "butlast s" "[last s]"] by simp
  moreover have "Remove keySet (int i) = butlast s"
    using assms by (simp add: Remove_def butlast_conv_take Let_def s_def)
  ultimately show ?thesis by (metis add_mset_remove_trivial)
qed

text \<open>The contract of a set that is searched by position.\<close>

locale finite_set_ops =
  fixes pos :: "'s \<Rightarrow> 'k \<Rightarrow> int" and add :: "'s \<Rightarrow> 'k \<Rightarrow> 's" and remove :: "'s \<Rightarrow> int \<Rightarrow> 's"
    and elems :: "'s \<Rightarrow> 'k set" and inv :: "'s \<Rightarrow> bool"
  assumes pos_neg: "pos s k < 0 \<longleftrightarrow> k \<notin> elems s"
    and elems_add: "elems (add s k) = insert k (elems s)"
    and inv_add: "inv s \<Longrightarrow> inv (add s k)"
    and elems_remove: "inv s \<Longrightarrow> elems (remove s (pos s k)) = elems s - {k}"
    and inv_remove: "inv s \<Longrightarrow> inv (remove s (pos s k))"
begin

abbreviation delete :: "'s \<Rightarrow> 'k \<Rightarrow> 's" where
  "delete s k \<equiv> remove s (pos s k)"

lemma add_then_delete: "inv s \<Longrightarrow> k \<notin> elems s \<Longrightarrow> elems (delete (add s k) k) = elems s"
  by (simp add: elems_remove elems_add inv_add)

lemma delete_then_add: "inv s \<Longrightarrow> k \<in> elems s \<Longrightarrow> elems (add (delete s k) k) = elems s"
  by (auto simp: elems_remove elems_add)

end

definition add_key :: "PublicKeySet \<Rightarrow> PublicKey \<Rightarrow> PublicKeySet" where
  "add_key keySet k = (if pos_loop 0 keySet k < 0 then keySet @ [k] else keySet)"

lemma Add_eq: "Add keySet (Some k) = Inr (add_key keySet k)"
  by (simp add: Add_def Pos_def add_key_def)

lemma Remove_Pos:
  assumes "distinct s"
  shows "set (Remove s (pos_loop 0 s k)) = set s - {k}" and "distinct (Remove s (pos_loop 0 s k))"
proof -
  have "set (Remove s (pos_loop 0 s k)) = set s - {k} \<and> distinct (Remove s (pos_loop 0 s k))"
  proof (cases "k \<in> set s")
    case True
    obtain i where i: "i < length s" "pos_loop 0 s k = int (0 + i)" "s ! i = k"
      using pos_loop_present [OF True, of 0] by blast
    have "mset (Remove s (int i)) = mset (remove1 k s)" using Remove_mset [OF i(1)] i(3) by simp
    then have "set (Remove s (int i)) = set (remove1 k s)" "distinct (Remove s (int i)) = distinct (remove1 k s)"
      by (rule mset_eq_setD, rule mset_eq_imp_distinct_iff)
    then show ?thesis using assms i(2) by simp
  next
    case False
    then show ?thesis using assms by (simp add: pos_loop_absent Remove_def)
  qed
  then show "set (Remove s (pos_loop 0 s k)) = set s - {k}" and "distinct (Remove s (pos_loop 0 s k))" by blast+
qed

interpretation keys: finite_set_ops "pos_loop 0" add_key Remove set distinct
  by unfold_locales (auto simp: add_key_def Remove_Pos)

lemma KeySet_Equal_iff:
  assumes "distinct s" and "distinct t"
  shows "KeySet_Equal s t \<longleftrightarrow> set s = set t"
proof -
  have "pos_loop 0 s k \<noteq> -1 \<longleftrightarrow> k \<in> set s" for k
    using pos_loop_absent [of k s 0] pos_loop_present [of k s 0] by auto
  then have "KeySet_Equal s t \<longleftrightarrow> length s = length t \<and> set t \<subseteq> set s"
    by (auto simp: KeySet_Equal_def list_all_iff)
  also have "\<dots> \<longleftrightarrow> set s = set t"
  proof
    assume "length s = length t \<and> set t \<subseteq> set s"
    then have "card (set t) = card (set s)" "set t \<subseteq> set s" using assms by (simp_all add: distinct_card)
    then show "set s = set t" using card_subset_eq [of "set s" "set t"] by simp
  next
    assume eq: "set s = set t"
    then have "length s = length t" using distinct_card [OF assms(1)] distinct_card [OF assms(2)] by simp
    with eq show "length s = length t \<and> set t \<subseteq> set s" by simp
  qed
  finally show ?thesis .
qed

lemma DeepCopy_id [simp]: "DeepCopy m = m"
  by (rule ext) (simp add: DeepCopy_def option.map_ident)

lemma CopyThreadTips_id [simp]: "CopyThreadTips m = m"
proof -
  have "(\<lambda>o'. \<lparr>Hash = Hash o', Index = Index o'\<rparr>) = id" by (rule ext) simp
  then show ?thesis by (simp add: CopyThreadTips_def option.map_id)
qed

end
