(* ===== verification/Key_View.thy ===== *)
theory Key_View
  imports Key_Sets Chain_Base
begin

text \<open>
  The view of the admin state of the chain, \<open>src/blockchain/keyviewpoint.go\<close>: the tips of the
  admin threads, the admin key sets, the registered key ids and the total supply; and the check
  of a transaction's outputs against it, \<open>CheckTransactionOutputs\<close> of
  \<open>src/blockchain/validate.go\<close>.

  The transaction hash is taken over the hash functions in the argument \<open>c\<close>.  The two loops
  over issued and destroyed amounts occur with both signs, which is their first argument.

  The locale \<open>undo_log\<close> states what it takes for a sequence of steps to be undone in reverse
  order.  Its interpretation on \<open>connectTransaction\<close> and the undoing of a transaction gives that
  disconnecting a block restores the view, up to the order of the keys inside a key set and up to
  the last key id, for which the exact value after undoing a transaction is proved.
\<close>

section \<open>The view\<close>

record KeyViewpoint =
  threadTips :: "byte \<rightharpoonup> OutPoint"
  lastKeyID :: KeyID
  totalSupply :: "64 word"
  adminKeySets :: "KeySetType \<rightharpoonup> PublicKeySet"
  aspKeyIdMap :: KeyIdMap

definition NewKeyViewpoint :: KeyViewpoint where
  "NewKeyViewpoint = \<lparr>threadTips = Map.empty, lastKeyID = 0, totalSupply = 0, adminKeySets = Map.empty, aspKeyIdMap = []\<rparr>"

definition SetThreadTips :: "(byte \<rightharpoonup> OutPoint) \<Rightarrow> KeyViewpoint \<Rightarrow> KeyViewpoint" where
  "SetThreadTips tips view = view\<lparr>threadTips := CopyThreadTips tips\<rparr>"

text \<open>The argument is \<open>None\<close> for a nil map.\<close>

definition SetKeys :: "(KeySetType \<rightharpoonup> PublicKeySet) option \<Rightarrow> KeyViewpoint \<Rightarrow> KeyViewpoint" where
  "SetKeys keys view = (case keys of None \<Rightarrow> view | Some m \<Rightarrow> view\<lparr>adminKeySets := DeepCopy m\<rparr>)"

definition SetKeyIDs :: "KeyIdMap option \<Rightarrow> KeyViewpoint \<Rightarrow> KeyViewpoint res" where
  "SetKeyIDs m view =
     (case m of None \<Rightarrow> Inr view
      | Some m \<Rightarrow> bindE (KeyIdMap_DeepCopy m) (\<lambda>copy. Inr (view\<lparr>aspKeyIdMap := copy\<rparr>)))"

text \<open>Reading the map of key sets at a type that is not there gives the nil slice.\<close>

definition keys_at :: "KeyViewpoint \<Rightarrow> KeySetType \<Rightarrow> PublicKeySet" where
  "keys_at view t = (case adminKeySets view t of None \<Rightarrow> [] | Some s \<Rightarrow> s)"

text \<open>The conversion \<open>KeySetType(threadID)\<close>; other numbers are no key of the map.\<close>

definition KeySetType_of :: "byte \<Rightarrow> KeySetType option" where
  "KeySetType_of threadID =
     (if threadID = 0 then Some RootKeySet else if threadID = 1 then Some ProvisionKeySet
      else if threadID = 2 then Some IssueKeySet else if threadID = 3 then Some ValidateKeySet
      else if threadID = 4 then Some ASPKeySet else None)"

definition GetAdminKeyHashes :: "'x crypto_scheme \<Rightarrow> byte \<Rightarrow> KeyViewpoint \<Rightarrow> bytes list" where
  "GetAdminKeyHashes c threadID view =
     (let pubs = (case KeySetType_of threadID of None \<Rightarrow> [] | Some t \<Rightarrow> keys_at view t)
      in map (\<lambda>pubKey. Hash160 c (SerializeCompressed pubKey)) pubs)"

definition LookupKeyIDs :: "'x crypto_scheme \<Rightarrow> KeyID list \<Rightarrow> KeyViewpoint \<Rightarrow> (KeyID \<times> bytes) list" where
  "LookupKeyIDs c ids view =
     fold (\<lambda>keyID m.
       AList.update keyID
         (case key_at (aspKeyIdMap view) keyID of
            Some pubKey \<Rightarrow> Hash160 c (SerializeCompressed pubKey)
          | None \<Rightarrow> replicate 20 0) m) ids []"

section \<open>Connecting\<close>

type_synonym admin_op = "bool \<times> KeySetType \<times> PublicKey option \<times> KeyID"

definition applyAdminOp :: "admin_op \<Rightarrow> KeyViewpoint \<Rightarrow> KeyViewpoint res" where
  "applyAdminOp op view =
     (case op of (isAddOp, keySetType, pubKey, keyID) \<Rightarrow>
        if keySetType = ASPKeySet then
          (if isAddOp
           then Inr (view\<lparr>aspKeyIdMap := AList.update keyID pubKey (aspKeyIdMap view), lastKeyID := keyID\<rparr>)
           else Inr (view\<lparr>aspKeyIdMap := AList.delete keyID (aspKeyIdMap view)\<rparr>))
        else if isAddOp then
          bindE (Add (keys_at view keySetType) pubKey) (\<lambda>s.
            Inr (view\<lparr>adminKeySets := (adminKeySets view)(keySetType \<mapsto> s)\<rparr>))
        else
          bindE (Pos (keys_at view keySetType) pubKey) (\<lambda>pos.
            Inr (view\<lparr>adminKeySets := (adminKeySets view)(keySetType \<mapsto> Remove (keys_at view keySetType) pos)\<rparr>)))"

definition destroyed_loop ::
  "(64 word \<Rightarrow> 64 word \<Rightarrow> 64 word) \<Rightarrow> MsgTx \<Rightarrow> parsedOpcode list list \<Rightarrow> 64 word \<Rightarrow> 64 word" where
  "destroyed_loop f tx adminOutputs supply =
     fold (\<lambda>i supply.
       if typeOfScript (adminOutputs ! i) = NullDataTy
       then f supply (word_of_int (Value (TxOut tx ! (i + 1)))) else supply) [0 ..< length adminOutputs] supply"

definition issued_loop :: "(64 word \<Rightarrow> 64 word \<Rightarrow> 64 word) \<Rightarrow> MsgTx \<Rightarrow> 64 word \<Rightarrow> 64 word" where
  "issued_loop f tx supply =
     fold (\<lambda>i supply. f supply (word_of_int (Value (TxOut tx ! i)))) [1 ..< length (TxOut tx)] supply"

definition ProcessAdminOuts :: "'x crypto_scheme \<Rightarrow> MsgTx \<Rightarrow> KeyViewpoint \<Rightarrow> KeyViewpoint res" where
  "ProcessAdminOuts c tx view =
     (let (threadInt, adminOutputs) = GetAdminDetailsMsgTx tx;
          tip = NewOutPoint (TxHash (DoubleHashB c) tx) 0
      in if threadInt < 0 then Inr view
         else if (word_of_int threadInt :: byte) = IssueThread then
           let isDestruction = length (TxIn tx) > 1;
               supply = (if isDestruction then destroyed_loop (-) tx adminOutputs (totalSupply view)
                         else issued_loop (+) tx (totalSupply view))
           in Inr (view\<lparr>totalSupply := supply, threadTips := (threadTips view)(IssueThread \<mapsto> tip)\<rparr>)
         else
           bindE (foldE (\<lambda>view out. bindE (ExtractAdminOpData out) (\<lambda>op. applyAdminOp op view)) view adminOutputs)
             (\<lambda>view. Inr (view\<lparr>threadTips := (threadTips view)(word_of_int threadInt \<mapsto> tip)\<rparr>)))"

definition Key_connectTransaction :: "'x crypto_scheme \<Rightarrow> MsgTx \<Rightarrow> KeyViewpoint \<Rightarrow> KeyViewpoint res" where
  "Key_connectTransaction c tx view = ProcessAdminOuts c tx view"

definition Key_connectTransactions :: "'x crypto_scheme \<Rightarrow> MsgBlock \<Rightarrow> KeyViewpoint \<Rightarrow> KeyViewpoint res" where
  "Key_connectTransactions c block view =
     foldE (\<lambda>view tx. Key_connectTransaction c tx view) view (Transactions block)"

section \<open>Disconnecting\<close>

definition undoAdminOp :: "admin_op \<Rightarrow> KeyViewpoint \<Rightarrow> KeyViewpoint res" where
  "undoAdminOp op view =
     (case op of (isAddOp, keySetType, pubKey, keyID) \<Rightarrow>
        if keySetType = ASPKeySet then
          (if isAddOp
           then Inr (view\<lparr>aspKeyIdMap := AList.delete keyID (aspKeyIdMap view), lastKeyID := keyID - 1\<rparr>)
           else Inr (view\<lparr>aspKeyIdMap := AList.update keyID pubKey (aspKeyIdMap view)\<rparr>))
        else applyAdminOp (\<not> isAddOp, keySetType, pubKey, keyID) view)"

definition disconnect_tx :: "MsgTx \<Rightarrow> KeyViewpoint \<Rightarrow> KeyViewpoint res" where
  "disconnect_tx tx view =
     (let (threadInt, adminOutputs) = GetAdminDetailsMsgTx tx
      in if threadInt \<ge> 0 then
           let threadId = word_of_int threadInt :: byte
           in bindE
                (if threadId = IssueThread then
                   let isDestruction = length (TxIn tx) > 1
                   in Inr (view\<lparr>totalSupply := (if isDestruction then destroyed_loop (+) tx adminOutputs (totalSupply view)
                                              else issued_loop (-) tx (totalSupply view))\<rparr>)
                 else foldE (\<lambda>view out. bindE (ExtractAdminOpData out) (\<lambda>op. undoAdminOp op view)) view adminOutputs)
                (\<lambda>view. bindE (idxE (TxIn tx) 0) (\<lambda>txIn.
                   Inr (view\<lparr>threadTips := (threadTips view)(threadId \<mapsto> PreviousOutPoint txIn)\<rparr>)))
         else Inr view)"

definition Key_disconnectTransactions :: "MsgBlock \<Rightarrow> KeyViewpoint \<Rightarrow> KeyViewpoint res" where
  "Key_disconnectTransactions block view = foldE (\<lambda>view tx. disconnect_tx tx view) view (rev (Transactions block))"

section \<open>Checking outputs against the view\<close>

definition MaxAdminKeySetSize :: nat where "MaxAdminKeySetSize = 42"

definition CheckProvaOutput :: "KeyID list \<Rightarrow> KeyViewpoint \<Rightarrow> unit cres" where
  "CheckProvaOutput ids keyView =
     (if list_all (\<lambda>keyID. key_at (aspKeyIdMap keyView) keyID \<noteq> None) ids then Inr ()
      else Inl (RuleErr ErrInvalidTx))"

fun prova_outputs_loop :: "KeyViewpoint \<Rightarrow> TxOut list \<Rightarrow> bool \<Rightarrow> unit cres" where
  "prova_outputs_loop keyView [] hasNullDataOutput = Inr ()"
| "prova_outputs_loop keyView (txOut # txOuts) hasNullDataOutput =
     bindE (orRule ErrInvalidTx (parseScript (PkScript txOut))) (\<lambda>output.
       if Value txOut = 0 \<and> typeOfScript output = NullDataTy then
         (if \<not> hasNullDataOutput then prova_outputs_loop keyView txOuts True
          else Inl (RuleErr ErrInvalidTx))
       else
         bindE (orRule ErrInvalidTx (ExtractKeyIDs output)) (\<lambda>ids.
         bindE (CheckProvaOutput ids keyView) (\<lambda>_. prova_outputs_loop keyView txOuts hasNullDataOutput)))"

text \<open>One admin operation: \<open>lastKeyId\<close> and the key ids revoked so far are passed along.\<close>

definition check_admin_op ::
  "Params \<Rightarrow> KeyViewpoint \<Rightarrow> KeyID \<times> KeyID list \<Rightarrow> admin_op \<Rightarrow> (KeyID \<times> KeyID list) cres" where
  "check_admin_op chainParams keyView st op =
     (case (st, op) of ((lastKeyId, revoked), (isAddOp, keySetType, pubKey, keyID)) \<Rightarrow>
        if keySetType = ASPKeySet then
          (if isAddOp then
             let lastKeyId = lastKeyId + 1
             in if key_at (aspKeyIdMap keyView) keyID \<noteq> None then Inl (RuleErr ErrInvalidAdminOp)
                else if keyID \<noteq> lastKeyId then Inl (RuleErr ErrInvalidAdminOp)
                else Inr (lastKeyId, revoked)
           else
             case key_at (aspKeyIdMap keyView) keyID of
               None \<Rightarrow> Inl (RuleErr ErrInvalidAdminOp)
             | Some k \<Rightarrow>
                 if keyID \<in> set revoked then Inl (RuleErr ErrInvalidAdminOp)
                 else (case pubKey of None \<Rightarrow> Inl (Lower Panic)
                       | Some p \<Rightarrow> if \<not> PublicKey_IsEqual k p then Inl (RuleErr ErrInvalidAdminOp)
                                  else Inr (lastKeyId, keyID # revoked)))
        else
          let keySet = keys_at keyView keySetType
          in bindE (lowerE (Pos keySet pubKey)) (\<lambda>pos.
               if isAddOp then
                 (if pos \<ge> 0 then Inl (RuleErr ErrInvalidAdminOp)
                  else if length keySet \<ge> MaxAdminKeySetSize then Inl (RuleErr ErrInvalidAdminOp)
                  else Inr (lastKeyId, revoked))
               else if pos = -1 then Inl (RuleErr ErrInvalidAdminOp)
               else
                 let minLen = (if keySetType = ValidateKeySet then MinValidateKeySetSize chainParams else 0)
                 in if int (length keySet) \<le> minLen then Inl (RuleErr ErrInvalidAdminOp)
                    else Inr (lastKeyId, revoked)))"

definition CheckTransactionOutputs :: "MsgTx \<Rightarrow> KeyViewpoint \<Rightarrow> Params \<Rightarrow> unit cres" where
  "CheckTransactionOutputs tx keyView chainParams =
     (let (threadInt, adminOutputs) = GetAdminDetailsMsgTx tx
      in if \<not> threadInt \<ge> 0 then prova_outputs_loop keyView (TxOut tx) False
         else if (word_of_int threadInt :: byte) = IssueThread then
           foldE (\<lambda>_ output.
             if length output > 2 then
               bindE (orRule ErrInvalidTx (ExtractKeyIDs output)) (\<lambda>ids. CheckProvaOutput ids keyView)
             else Inr ()) () adminOutputs
         else
           bindE (foldE (\<lambda>st out. bindE (lowerE (ExtractAdminOpData out)) (check_admin_op chainParams keyView st))
                    (lastKeyID keyView, []) adminOutputs)
             (\<lambda>_. Inr ()))"

section \<open>Undoing one transaction\<close>

text \<open>Assigning in turn to places of a function.\<close>

lemma foldl_upd_other: "i \<notin> key ` set xs \<Longrightarrow> foldl (\<lambda>f x. f(key x := val x)) f xs i = f i"
  by (induction xs arbitrary: f) auto

lemma foldl_upd_same:
  assumes "\<And>x. x \<in> set xs \<Longrightarrow> key x = i \<Longrightarrow> val x = v" and "i \<in> key ` set xs"
  shows "foldl (\<lambda>f x. f(key x := val x)) f xs i = v"
  using assms
proof (induction xs arbitrary: f)
  case (Cons x xs)
  show ?case
  proof (cases "i \<in> key ` set xs")
    case True
    then show ?thesis using Cons by auto
  next
    case False
    then have "key x = i" using Cons.prems(2) by auto
    then have "val x = v" using Cons.prems(1) by auto
    with \<open>key x = i\<close> show ?thesis using foldl_upd_other [OF False, of val "f(key x := val x)"]
      by (simp del: fun_upd_apply) simp
  qed
qed simp

lemma foldl_upd_undo:
  assumes "\<And>x. x \<in> set xs \<Longrightarrow> back x = f (key x)"
  shows "foldl (\<lambda>f x. f(key x := back x)) (foldl (\<lambda>f x. f(key x := val x)) f xs) xs = f"
proof
  fix i
  show "foldl (\<lambda>f x. f(key x := back x)) (foldl (\<lambda>f x. f(key x := val x)) f xs) xs i = f i"
  proof (cases "i \<in> key ` set xs")
    case True
    then show ?thesis using assms by (intro foldl_upd_same) auto
  next
    case False
    then show ?thesis by (simp add: foldl_upd_other)
  qed
qed

text \<open>What a view says of the key ids and of the key sets, without the order of the keys.\<close>

abbreviation ids_of :: "KeyViewpoint \<Rightarrow> KeyID \<Rightarrow> PublicKey option" where
  "ids_of v \<equiv> key_at (aspKeyIdMap v)"

definition members :: "KeyViewpoint \<Rightarrow> KeySetType \<times> PublicKey \<Rightarrow> bool" where
  "members v = (\<lambda>(t, k). k \<in> set (keys_at v t))"

definition view_inv :: "KeyViewpoint \<Rightarrow> bool" where
  "view_inv v \<longleftrightarrow> (\<forall>t. distinct (keys_at v t))"

text \<open>An operation with a key, as a total function.\<close>

type_synonym key_op = "bool \<times> KeySetType \<times> PublicKey \<times> KeyID"

definition op_of :: "key_op \<Rightarrow> admin_op" where
  "op_of x = (case x of (a, t, k, i) \<Rightarrow> (a, t, Some k, i))"

definition apply_op :: "KeyViewpoint \<Rightarrow> key_op \<Rightarrow> KeyViewpoint" where
  "apply_op v x = (case x of (a, t, k, i) \<Rightarrow>
     if t = ASPKeySet then
       (if a then v\<lparr>aspKeyIdMap := AList.update i (Some k) (aspKeyIdMap v), lastKeyID := i\<rparr>
        else v\<lparr>aspKeyIdMap := AList.delete i (aspKeyIdMap v)\<rparr>)
     else v\<lparr>adminKeySets := (adminKeySets v)(t \<mapsto>
       (if a then add_key (keys_at v t) k else Remove (keys_at v t) (pos_loop 0 (keys_at v t) k)))\<rparr>)"

definition undo_op :: "KeyViewpoint \<Rightarrow> key_op \<Rightarrow> KeyViewpoint" where
  "undo_op v x = (case x of (a, t, k, i) \<Rightarrow>
     if t = ASPKeySet then
       (if a then v\<lparr>aspKeyIdMap := AList.delete i (aspKeyIdMap v), lastKeyID := i - 1\<rparr>
        else v\<lparr>aspKeyIdMap := AList.update i (Some k) (aspKeyIdMap v)\<rparr>)
     else apply_op v (\<not> a, t, k, i))"

lemma applyAdminOp_eq: "applyAdminOp (op_of x) v = Inr (apply_op v x)"
  by (cases x) (simp add: applyAdminOp_def apply_op_def op_of_def Add_eq Pos_def)

lemma undoAdminOp_eq: "undoAdminOp (op_of x) v = Inr (undo_op v x)"
  by (cases x) (simp add: undoAdminOp_def undo_op_def op_of_def applyAdminOp_eq [of "(\<not> a, t, k, i)" for a t k i, unfolded op_of_def, simplified])

abbreviation is_asp :: "key_op \<Rightarrow> bool" where "is_asp x \<equiv> fst (snd x) = ASPKeySet"

definition op_id :: "key_op \<Rightarrow> KeyID" where "op_id x = snd (snd (snd x))"
definition op_key :: "key_op \<Rightarrow> PublicKey" where "op_key x = fst (snd (snd x))"
definition op_member :: "key_op \<Rightarrow> KeySetType \<times> PublicKey" where "op_member x = (fst (snd x), op_key x)"

lemma key_at_update [simp]: "key_at (AList.update i k m) = (key_at m)(i := k)"
  by (rule ext) (simp add: key_at_def update_conv')

lemma key_at_delete [simp]: "key_at (AList.delete i m) = (key_at m)(i := None)"
  by (rule ext) (simp add: key_at_def delete_conv')

lemma keys_at_upd [simp]:
  "keys_at (v\<lparr>adminKeySets := (adminKeySets v)(t \<mapsto> s)\<rparr>) t' = (if t' = t then s else keys_at v t')"
  "keys_at (v\<lparr>aspKeyIdMap := m\<rparr>) t' = keys_at v t'"
  "keys_at (v\<lparr>lastKeyID := l\<rparr>) t' = keys_at v t'"
  "keys_at (v\<lparr>totalSupply := n\<rparr>) t' = keys_at v t'"
  "keys_at (v\<lparr>threadTips := tt\<rparr>) t' = keys_at v t'"
  by (simp_all add: keys_at_def)

lemma apply_op_inv: "view_inv v \<Longrightarrow> view_inv (apply_op v x)"
  by (cases x) (auto simp: view_inv_def apply_op_def keys.inv_add keys.inv_remove)

lemma undo_op_other: "\<not> is_asp x \<Longrightarrow> undo_op v x = apply_op v (\<not> fst x, snd x)"
  by (cases x) (simp add: undo_op_def)

lemma undo_op_inv: "view_inv v \<Longrightarrow> view_inv (undo_op v x)"
  by (cases "is_asp x") (auto simp: undo_op_other apply_op_inv, cases x, auto simp: undo_op_def view_inv_def)

lemma apply_op_ids:
  "ids_of (apply_op v x) = (if is_asp x then (ids_of v)(op_id x := if fst x then Some (op_key x) else None) else ids_of v)"
  by (cases x) (simp add: apply_op_def op_id_def op_key_def)

lemma undo_op_ids:
  "ids_of (undo_op v x) = (if is_asp x then (ids_of v)(op_id x := if fst x then None else Some (op_key x)) else ids_of v)"
  by (cases x) (simp add: undo_op_def apply_op_def op_id_def op_key_def)

lemma apply_op_members:
  "view_inv v \<Longrightarrow> members (apply_op v x) = (if is_asp x then members v else (members v)(op_member x := fst x))"
  by (cases x)
    (auto simp: members_def apply_op_def op_member_def op_key_def view_inv_def keys.elems_add keys.elems_remove fun_eq_iff)

lemma undo_op_members:
  assumes "view_inv v"
  shows "members (undo_op v x) = (if is_asp x then members v else (members v)(op_member x := \<not> fst x))"
proof (cases "is_asp x")
  case True
  then show ?thesis by (cases x) (simp add: undo_op_def members_def)
next
  case False
  then show ?thesis using apply_op_members [OF assms, of "(\<not> fst x, snd x)"]
    by (simp add: undo_op_other op_member_def op_key_def)
qed

lemma op_frame:
  "totalSupply (apply_op v x) = totalSupply v" "threadTips (apply_op v x) = threadTips v"
  "totalSupply (undo_op v x) = totalSupply v" "threadTips (undo_op v x) = threadTips v"
  by (cases x; simp add: apply_op_def undo_op_def)+

lemma op_lastKeyID:
  "lastKeyID (apply_op v x) = (if is_asp x \<and> fst x then op_id x else lastKeyID v)"
  "lastKeyID (undo_op v x) = (if is_asp x \<and> fst x then op_id x - 1 else lastKeyID v)"
  by (cases x; simp add: apply_op_def undo_op_def op_id_def)+

text \<open>The operations of a transaction that the view supports.\<close>

definition op_ok :: "KeyViewpoint \<Rightarrow> key_op \<Rightarrow> bool" where
  "op_ok v x \<longleftrightarrow>
     (if is_asp x then ids_of v (op_id x) = (if fst x then None else Some (op_key x))
      else members v (op_member x) = (\<not> fst x))"

abbreviation asp_adds :: "key_op list \<Rightarrow> key_op list" where
  "asp_adds xs \<equiv> filter (\<lambda>x. is_asp x \<and> fst x) xs"

lemma foldl_inv: "view_inv v \<Longrightarrow> view_inv (foldl apply_op v xs)" "view_inv v \<Longrightarrow> view_inv (foldl undo_op v xs)"
  by (induction xs arbitrary: v) (auto simp: apply_op_inv undo_op_inv)

lemma foldl_ids:
  "ids_of (foldl apply_op v xs) =
     foldl (\<lambda>f x. f(op_id x := if fst x then Some (op_key x) else None)) (ids_of v) (filter is_asp xs)"
  "ids_of (foldl undo_op v xs) =
     foldl (\<lambda>f x. f(op_id x := if fst x then None else Some (op_key x))) (ids_of v) (filter is_asp xs)"
  by (induction xs arbitrary: v) (simp_all add: apply_op_ids undo_op_ids)

lemma foldl_members:
  "view_inv v \<Longrightarrow> members (foldl apply_op v xs) =
     foldl (\<lambda>f x. f(op_member x := fst x)) (members v) (filter (\<lambda>x. \<not> is_asp x) xs)"
  "view_inv v \<Longrightarrow> members (foldl undo_op v xs) =
     foldl (\<lambda>f x. f(op_member x := \<not> fst x)) (members v) (filter (\<lambda>x. \<not> is_asp x) xs)"
  by (induction xs arbitrary: v) (simp_all add: apply_op_members undo_op_members apply_op_inv undo_op_inv)

lemma foldl_frame:
  "totalSupply (foldl apply_op v xs) = totalSupply v" "threadTips (foldl apply_op v xs) = threadTips v"
  "totalSupply (foldl undo_op v xs) = totalSupply v" "threadTips (foldl undo_op v xs) = threadTips v"
  by (induction xs arbitrary: v) (simp_all add: op_frame)

lemma foldl_undo_tips: "foldl undo_op (v\<lparr>threadTips := tt\<rparr>) xs = (foldl undo_op v xs)\<lparr>threadTips := tt\<rparr>"
proof (induction xs arbitrary: v)
  case (Cons x xs)
  have "undo_op (v\<lparr>threadTips := tt\<rparr>) x = (undo_op v x)\<lparr>threadTips := tt\<rparr>"
    by (cases x) (simp add: undo_op_def apply_op_def)
  then show ?case by (simp add: Cons.IH)
qed simp

lemma foldl_lastKeyID:
  "lastKeyID (foldl apply_op v xs) = (if asp_adds xs = [] then lastKeyID v else op_id (last (asp_adds xs)))"
  "lastKeyID (foldl undo_op v xs) = (if asp_adds xs = [] then lastKeyID v else op_id (last (asp_adds xs)) - 1)"
  by (induction xs arbitrary: v) (auto simp: op_lastKeyID)

lemma undo_ops:
  assumes "view_inv v" and "\<forall>x \<in> set xs. op_ok v x"
  defines "w \<equiv> foldl undo_op (foldl apply_op v xs) xs"
  shows "ids_of w = ids_of v" and "members w = members v" and "view_inv w"
    and "totalSupply w = totalSupply v" and "threadTips w = threadTips v"
    and "lastKeyID w = (if asp_adds xs = [] then lastKeyID v else op_id (last (asp_adds xs)) - 1)"
proof -
  show "ids_of w = ids_of v"
    unfolding w_def foldl_ids by (rule foldl_upd_undo) (use assms(2) in \<open>auto simp: op_ok_def\<close>)
  show "members w = members v"
    unfolding w_def foldl_members(2) [OF foldl_inv(1) [OF assms(1)]] foldl_members(1) [OF assms(1)]
    by (rule foldl_upd_undo) (use assms(2) in \<open>auto simp: op_ok_def\<close>)
qed (use assms(1) in \<open>simp_all add: w_def foldl_inv foldl_frame foldl_lastKeyID\<close>)

text \<open>What \<open>CheckTransactionOutputs\<close> guarantees of the operations it lets pass.\<close>

lemma check_admin_op_ok:
  assumes "check_admin_op p v (l, r) (op_of x) = Inr (l', r')"
  shows "op_ok v x" and "l' = (if is_asp x \<and> fst x then l + 1 else l)" and "is_asp x \<Longrightarrow> fst x \<Longrightarrow> op_id x = l'"
proof -
  obtain a t k i where x: "x = (a, t, k, i)" by (cases x)
  have "pos_loop 0 (keys_at v t) k = -1 \<longleftrightarrow> k \<notin> set (keys_at v t)"
    using pos_loop_neg [of 0 "keys_at v t" k] pos_loop_absent [of k "keys_at v t" 0] by linarith
  moreover have "0 \<le> pos_loop 0 (keys_at v t) k \<longleftrightarrow> k \<in> set (keys_at v t)"
    using pos_loop_neg [of 0 "keys_at v t" k] by linarith
  ultimately show "op_ok v x" "l' = (if is_asp x \<and> fst x then l + 1 else l)" "is_asp x \<Longrightarrow> fst x \<Longrightarrow> op_id x = l'"
    using assms
    by (auto simp: check_admin_op_def op_of_def x op_ok_def op_id_def op_key_def op_member_def members_def Pos_def Let_def
        split: if_splits option.splits)
qed

lemma check_admin_ops_ok:
  assumes "foldE (check_admin_op p v) (l, r) (map op_of xs) = Inr (l', r')"
  shows "\<forall>x \<in> set xs. op_ok v x" and "l' = l + of_nat (length (asp_adds xs))"
    and "asp_adds xs \<noteq> [] \<Longrightarrow> op_id (last (asp_adds xs)) = l'"
  using assms
proof (induction xs arbitrary: l r)
  case (Cons x xs)
  {
    case 1
    then obtain l1 r1 where s: "check_admin_op p v (l, r) (op_of x) = Inr (l1, r1)"
        "foldE (check_admin_op p v) (l1, r1) (map op_of xs) = Inr (l', r')" by auto
    show ?case using check_admin_op_ok(1) [OF s(1)] Cons.IH(1) [OF s(2)] by simp
  next
    case 2
    then obtain l1 r1 where s: "check_admin_op p v (l, r) (op_of x) = Inr (l1, r1)"
        "foldE (check_admin_op p v) (l1, r1) (map op_of xs) = Inr (l', r')" by auto
    show ?case using check_admin_op_ok(2) [OF s(1)] Cons.IH(2) [OF s(2)] by simp
  next
    case 3
    then obtain l1 r1 where s: "check_admin_op p v (l, r) (op_of x) = Inr (l1, r1)"
        "foldE (check_admin_op p v) (l1, r1) (map op_of xs) = Inr (l', r')" by auto
    show ?case
    proof (cases "asp_adds xs = []")
      case True
      then show ?thesis using 3(1) check_admin_op_ok(3) [OF s(1)] Cons.IH(2) [OF s(2)] by (auto split: if_splits)
    next
      case False
      then show ?thesis using Cons.IH(3) [OF False s(2)] by auto
    qed
  }
qed auto

section \<open>Undoing blocks\<close>

lemma fold_sum:
  fixes g :: "'i \<Rightarrow> 64 word"
  shows "fold (\<lambda>i s. if P i then s + g i else s) xs s = s + (\<Sum>i \<leftarrow> filter P xs. g i)"
    and "fold (\<lambda>i s. if P i then s - g i else s) xs s = s - (\<Sum>i \<leftarrow> filter P xs. g i)"
  by (induction xs arbitrary: s) (simp_all add: algebra_simps)

lemma supply_undo:
  "destroyed_loop (+) tx outs (destroyed_loop (-) tx outs s) = s"
  "issued_loop (-) tx (issued_loop (+) tx s) = s"
proof -
  note all = fold_sum [of "\<lambda>_. True", simplified]
  show "destroyed_loop (+) tx outs (destroyed_loop (-) tx outs s) = s"
    by (simp add: destroyed_loop_def fold_sum)
  show "issued_loop (-) tx (issued_loop (+) tx s) = s"
    by (simp add: issued_loop_def all)
qed

lemma IsValidAdminOp_ops:
  assumes "list_all (\<lambda>out. IsValidAdminOp out threadID) outs"
  shows "\<exists>xs. map ExtractAdminOpData outs = map (\<lambda>x. Inr (op_of x)) xs"
proof -
  have "\<exists>x. ExtractAdminOpData out = Inr (op_of x)" if "IsValidAdminOp out threadID" for out
    using that
    by (auto simp: IsValidAdminOp_def ExtractAdminData_def ExtractAdminOpData_def Let_def op_of_def
        split: if_splits sum.splits)
  with assms show ?thesis
  proof (induction outs)
    case (Cons out outs)
    then obtain x xs where "ExtractAdminOpData out = Inr (op_of x)" "map ExtractAdminOpData outs = map (\<lambda>x. Inr (op_of x)) xs"
      by force
    then have "map ExtractAdminOpData (out # outs) = map (\<lambda>x. Inr (op_of x)) (x # xs)" by simp
    then show ?case by blast
  qed simp
qed

lemma foldE_extract:
  assumes "map ExtractAdminOpData outs = map (\<lambda>x. Inr (op_of x)) xs"
  shows "foldE (\<lambda>s out. bindE (ExtractAdminOpData out) (\<lambda>op. f s op)) s outs = foldE (\<lambda>s x. f s (op_of x)) s xs"
    and "foldE (\<lambda>s out. bindE (lowerE (ExtractAdminOpData out)) (g t)) u outs = foldE (\<lambda>s x. g t (op_of x)) u xs"
proof -
  show "foldE (\<lambda>s out. bindE (ExtractAdminOpData out) (\<lambda>op. f s op)) s outs = foldE (\<lambda>s x. f s (op_of x)) s xs"
    using foldE_map [of "\<lambda>s r. bindE r (\<lambda>op. f s op)" s ExtractAdminOpData outs]
      foldE_map [of "\<lambda>s r. bindE r (\<lambda>op. f s op)" s "\<lambda>x. Inr (op_of x)" xs] assms by simp
  show "foldE (\<lambda>s out. bindE (lowerE (ExtractAdminOpData out)) (g t)) u outs = foldE (\<lambda>s x. g t (op_of x)) u xs"
    using foldE_map [of "\<lambda>s r. bindE (lowerE r) (g t)" u ExtractAdminOpData outs]
      foldE_map [of "\<lambda>s r. bindE (lowerE r) (g t)" u "\<lambda>x. Inr (op_of x)" xs] assms by simp
qed

text \<open>The number of ASP keys that a transaction adds.\<close>

definition asp_add :: "parsedOpcode list \<Rightarrow> bool" where
  "asp_add out = (case ExtractAdminOpData out of Inr (a, t, _, _) \<Rightarrow> a \<and> t = ASPKeySet | Inl _ \<Rightarrow> False)"

definition asp_count :: "MsgTx \<Rightarrow> nat" where
  "asp_count tx =
     (case GetAdminDetailsMsgTx tx of (threadInt, outs) \<Rightarrow>
        if threadInt < 0 \<or> (word_of_int threadInt :: byte) = IssueThread then 0 else length (filter asp_add outs))"

text \<open>
  The state of affairs in which a transaction is connected: an admin transaction spends the tip
  of its thread, its operations have passed the sanity check, and its outputs the check against
  the view.
\<close>

definition tx_connectable :: "Params \<Rightarrow> MsgTx \<Rightarrow> KeyViewpoint \<Rightarrow> bool" where
  "tx_connectable p tx v \<longleftrightarrow>
     (case GetAdminDetailsMsgTx tx of (threadInt, outs) \<Rightarrow>
        0 \<le> threadInt \<longrightarrow>
        CheckTransactionOutputs tx v p = Inr () \<and> TxIn tx \<noteq> [] \<and>
        threadTips v (word_of_int threadInt) = Some (PreviousOutPoint (TxIn tx ! 0)) \<and>
        ((word_of_int threadInt :: byte) \<noteq> IssueThread \<longrightarrow>
           list_all (\<lambda>out. IsValidAdminOp out (word_of_int threadInt)) outs))"

definition same_view :: "bool \<Rightarrow> KeyViewpoint \<Rightarrow> KeyViewpoint \<Rightarrow> bool" where
  "same_view exact v w \<longleftrightarrow>
     threadTips w = threadTips v \<and> totalSupply w = totalSupply v \<and> ids_of w = ids_of v \<and> members w = members v \<and>
     (exact \<longrightarrow> lastKeyID w = lastKeyID v)"

lemma asp_count_ops:
  assumes "map ExtractAdminOpData outs = map (\<lambda>x. Inr (op_of x)) xs"
  shows "length (filter asp_add outs) = length (asp_adds xs)"
proof -
  let ?p = "\<lambda>r. case r of Inr (a, t, _, _) \<Rightarrow> a \<and> t = ASPKeySet | Inl _ \<Rightarrow> False"
  have "length (filter asp_add outs) = length (filter ?p (map ExtractAdminOpData outs))"
    by (simp add: filter_map asp_add_def [abs_def] comp_def)
  also have "\<dots> = length (asp_adds xs)"
    unfolding assms by (simp add: filter_map comp_def op_of_def case_prod_unfold conj_commute)
  finally show ?thesis .
qed

lemma connect_disconnect:
  assumes "tx_connectable p tx v" and "view_inv v"
  shows "\<exists>v' w. Key_connectTransaction c tx v = Inr v' \<and> view_inv v' \<and> disconnect_tx tx v' = Inr w \<and> view_inv w \<and>
    same_view False v w \<and>
    lastKeyID w = (if asp_count tx = 0 then lastKeyID v else lastKeyID v + of_nat (asp_count tx) - 1)"
proof -
  obtain threadInt outs where d: "GetAdminDetailsMsgTx tx = (threadInt, outs)" by fastforce
  consider "threadInt < 0" | "0 \<le> threadInt" "(word_of_int threadInt :: byte) = IssueThread"
    | "0 \<le> threadInt" "(word_of_int threadInt :: byte) \<noteq> IssueThread" by linarith
  then show ?thesis
  proof cases
    case 1
    then show ?thesis using assms(2) d
      by (simp add: Key_connectTransaction_def ProcessAdminOuts_def disconnect_tx_def same_view_def asp_count_def)
  next
    case 2
    then have "TxIn tx \<noteq> []" "threadTips v IssueThread = Some (PreviousOutPoint (TxIn tx ! 0))"
      using assms(1) d by (auto simp: tx_connectable_def)
    with 2 show ?thesis using assms(2) d
      by (auto simp: Key_connectTransaction_def ProcessAdminOuts_def disconnect_tx_def same_view_def asp_count_def
          supply_undo view_inv_def members_def Let_def fun_upd_idem)
  next
    case 3
    let ?t = "word_of_int threadInt :: byte"
    have ok: "CheckTransactionOutputs tx v p = Inr ()" "TxIn tx \<noteq> []"
        "threadTips v ?t = Some (PreviousOutPoint (TxIn tx ! 0))" "list_all (\<lambda>out. IsValidAdminOp out ?t) outs"
      using assms(1) 3 d by (auto simp: tx_connectable_def)
    obtain xs where xs: "map ExtractAdminOpData outs = map (\<lambda>x. Inr (op_of x)) xs"
      using IsValidAdminOp_ops [OF ok(4)] by blast
    obtain l' r' where "foldE (\<lambda>st out. bindE (lowerE (ExtractAdminOpData out)) (check_admin_op p v st))
        (lastKeyID v, []) outs = Inr (l', r')"
      using ok(1) d 3 by (auto simp: CheckTransactionOutputs_def)
    then have chk: "foldE (check_admin_op p v) (lastKeyID v, []) (map op_of xs) = Inr (l', r')"
      using foldE_map [of "\<lambda>st r. bindE (lowerE r) (check_admin_op p v st)" "(lastKeyID v, [])" ExtractAdminOpData outs]
        foldE_map [of "\<lambda>st r. bindE (lowerE r) (check_admin_op p v st)" "(lastKeyID v, [])" "\<lambda>x. Inr (op_of x)" xs]
      by (simp add: xs foldE_map)
    note ck = check_admin_ops_ok [OF chk]
    let ?v = "(foldl apply_op v xs)\<lparr>threadTips := (threadTips v)(?t \<mapsto> NewOutPoint (TxHash (DoubleHashB c) tx) 0)\<rparr>"
    have run: "Key_connectTransaction c tx v = Inr ?v"
      using 3 d foldE_total [of xs "\<lambda>v x. applyAdminOp (op_of x) v" apply_op v]
      by (simp add: Key_connectTransaction_def ProcessAdminOuts_def foldE_extract(1) [OF xs] applyAdminOp_eq foldl_frame)
    let ?w = "(foldl undo_op (foldl apply_op v xs) xs)\<lparr>threadTips := threadTips v\<rparr>"
    have undo: "disconnect_tx tx ?v = Inr ?w"
      using 3 d ok(2,3) foldE_total [of xs "\<lambda>v x. undoAdminOp (op_of x) v" undo_op ?v]
      by (simp add: disconnect_tx_def foldE_extract(1) [OF xs] undoAdminOp_eq foldl_undo_tips fun_upd_idem)
    note u = undo_ops [OF assms(2) ck(1)]
    have "asp_count tx = length (asp_adds xs)" using 3 d by (simp add: asp_count_def asp_count_ops [OF xs])
    then have "lastKeyID ?w = (if asp_count tx = 0 then lastKeyID v else lastKeyID v + of_nat (asp_count tx) - 1)"
      using u(6) ck(2,3) by auto
    moreover have "view_inv ?v" using foldl_inv(1) [OF assms(2), of xs] by (simp add: view_inv_def)
    moreover have "view_inv ?w \<and> same_view False v ?w"
      using u by (simp add: same_view_def view_inv_def members_def)
    ultimately show ?thesis using run undo by blast
  qed
qed

lemma same_members: "members v = members w \<longleftrightarrow> (\<forall>t. set (keys_at v t) = set (keys_at w t))"
  by (auto simp: members_def fun_eq_iff)

lemma undoAdminOp_sim:
  assumes "view_inv s" "view_inv t" "same_view e s t" "undoAdminOp op s = Inr s'"
  shows "\<exists>t'. undoAdminOp op t = Inr t' \<and> view_inv s' \<and> view_inv t' \<and> same_view e s' t'"
proof -
  obtain a ty key i where op: "op = (a, ty, key, i)" by (cases op)
  show ?thesis
  proof (cases "ty = ASPKeySet")
    case True
    then show ?thesis using assms
      by (auto simp: op undoAdminOp_def view_inv_def same_view_def same_members)
  next
    case False
    have eq: "undoAdminOp op v = applyAdminOp (\<not> a, ty, key, i) v" for v
      using False by (simp add: undoAdminOp_def op)
    show ?thesis
    proof (cases key)
      case None
      have "set (keys_at t ty) = set (keys_at s ty)" using assms(3) by (auto simp: same_view_def same_members)
      then have "keys_at t ty = [] \<longleftrightarrow> keys_at s ty = []" by (metis set_empty)
      then show ?thesis using assms False None
        by (auto simp: eq applyAdminOp_def Add_def Pos_def view_inv_def same_view_def same_members Remove_def split: if_splits)
    next
      case (Some k)
      let ?x = "(\<not> a, ty, k, i)"
      have run: "undoAdminOp op v = Inr (apply_op v ?x)" for v
        using applyAdminOp_eq [of ?x v] by (simp add: eq op_of_def Some)
      have "same_view e (apply_op s ?x) (apply_op t ?x)"
        using assms(1-3) False
        by (simp add: same_view_def op_frame op_lastKeyID apply_op_ids apply_op_members)
      then show ?thesis using assms run by (auto simp: apply_op_inv)
    qed
  qed
qed

lemma disconnect_tx_sim:
  assumes "view_inv s" "view_inv t" "same_view e s t" "disconnect_tx tx s = Inr s'"
  shows "\<exists>t'. disconnect_tx tx t = Inr t' \<and> view_inv s' \<and> view_inv t' \<and> same_view e s' t'"
proof -
  have loop: "\<exists>t'. foldE (\<lambda>view out. bindE (ExtractAdminOpData out) (\<lambda>op. undoAdminOp op view)) t outs = Inr t' \<and>
      view_inv s' \<and> view_inv t' \<and> same_view e s' t'"
    if "foldE (\<lambda>view out. bindE (ExtractAdminOpData out) (\<lambda>op. undoAdminOp op view)) s outs = Inr s'"
      "view_inv s" "view_inv t" "same_view e s t" for s t s' outs
    using that
  proof (induction outs arbitrary: s t)
    case (Cons out outs)
    then obtain op s1 where 1: "ExtractAdminOpData out = Inr op" "undoAdminOp op s = Inr s1"
        "foldE (\<lambda>view out. bindE (ExtractAdminOpData out) (\<lambda>op. undoAdminOp op view)) s1 outs = Inr s'" by auto
    then obtain t1 where "undoAdminOp op t = Inr t1" "view_inv s1" "view_inv t1" "same_view e s1 t1"
      using undoAdminOp_sim Cons.prems by blast
    then show ?case using Cons.IH [OF 1(3)] 1(1) by simp
  qed simp
  have tips: "view_inv (v\<lparr>threadTips := tt\<rparr>) = view_inv v" "members (v\<lparr>threadTips := tt\<rparr>) = members v"
    "view_inv (v\<lparr>totalSupply := n\<rparr>) = view_inv v" "members (v\<lparr>totalSupply := n\<rparr>) = members v" for v tt n
    by (simp_all add: view_inv_def members_def)
  obtain threadInt outs where d: "GetAdminDetailsMsgTx tx = (threadInt, outs)" by fastforce
  show ?thesis
  proof (cases "0 \<le> threadInt \<and> (word_of_int threadInt :: byte) \<noteq> IssueThread")
    case True
    then obtain s1 txIn where 1: "foldE (\<lambda>view out. bindE (ExtractAdminOpData out) (\<lambda>op. undoAdminOp op view)) s outs = Inr s1"
        "idxE (TxIn tx) 0 = Inr txIn" "s' = s1\<lparr>threadTips := (threadTips s1)(word_of_int threadInt \<mapsto> PreviousOutPoint txIn)\<rparr>"
      using assms(4) d by (auto simp: disconnect_tx_def)
    obtain t1 where "foldE (\<lambda>view out. bindE (ExtractAdminOpData out) (\<lambda>op. undoAdminOp op view)) t outs = Inr t1"
        "view_inv s1" "view_inv t1" "same_view e s1 t1"
      using loop [OF 1(1) assms(1-3)] by blast
    with True 1 show ?thesis using d by (simp add: disconnect_tx_def tips same_view_def)
  next
    case False
    then show ?thesis using assms d
      by (auto simp: disconnect_tx_def Let_def tips same_view_def)
  qed
qed

interpretation key_log: undo_log "Key_connectTransaction c" disconnect_tx
  "\<lambda>tx v. tx_connectable p tx v \<and> (exact \<longrightarrow> asp_count tx \<le> 1)" view_inv "same_view exact"
  for c :: "'x crypto_scheme" and p exact
proof
  fix tx s
  assume "tx_connectable p tx s \<and> (exact \<longrightarrow> asp_count tx \<le> 1)" "view_inv s"
  then obtain v' w where w: "Key_connectTransaction c tx s = Inr v'" "view_inv v'" "disconnect_tx tx v' = Inr w" "view_inv w"
      "same_view False s w" "lastKeyID w = (if asp_count tx = 0 then lastKeyID s else lastKeyID s + of_nat (asp_count tx) - 1)"
      "exact \<longrightarrow> asp_count tx \<le> 1"
    using connect_disconnect by blast
  then have "exact \<longrightarrow> lastKeyID w = lastKeyID s" by (cases "asp_count tx") auto
  then have "same_view exact s w" using w(5) by (simp add: same_view_def)
  with w show "\<exists>s' t. Key_connectTransaction c tx s = Inr s' \<and> view_inv s' \<and> disconnect_tx tx s' = Inr t \<and> view_inv t \<and> same_view exact s t"
    by blast
qed (use disconnect_tx_sim in \<open>auto simp: same_view_def\<close>)

text \<open>
  C27. Disconnecting a block undoes connecting it, as a reorganisation of the chain needs.  If the
  transactions of a block are connected in a state of affairs that validation establishes
  (outputs checked against the view, admin transactions spending the tip of their thread), then
  connecting the block succeeds, disconnecting it succeeds, and afterwards the thread tips, the
  total supply, the key id registry and the members of every key set are what they were.  The last
  key id is what it was too if no transaction of the block adds more than one ASP key.
\<close>

theorem disconnect_undoes_connect:
  assumes "view_inv v"
    and "steps_ok (\<lambda>tx v. tx_connectable p tx v \<and> (exact \<longrightarrow> asp_count tx \<le> 1)) (Key_connectTransaction c) (Transactions block) v"
  shows "\<exists>v' w. Key_connectTransactions c block v = Inr v' \<and> Key_disconnectTransactions block v' = Inr w \<and>
    threadTips w = threadTips v \<and> totalSupply w = totalSupply v \<and> key_at (aspKeyIdMap w) = key_at (aspKeyIdMap v) \<and>
    (\<forall>t. set (keys_at w t) = set (keys_at v t)) \<and> (exact \<longrightarrow> lastKeyID w = lastKeyID v)"
  using key_log.undo_all [OF assms]
  by (auto simp: Key_connectTransactions_def Key_disconnectTransactions_def same_view_def same_members)

text \<open>
  C28. The last key id is not restored by disconnecting a transaction that adds several ASP keys: after
  connecting and disconnecting a transaction that adds \<open>n\<close> of them, it is \<open>n - 1\<close> too high, because
  the additions are undone in the order in which they were made.
\<close>

theorem disconnect_lastKeyID:
  assumes "view_inv v" and "tx_connectable p tx v" and "0 < asp_count tx"
  shows "\<exists>v' w. Key_connectTransaction c tx v = Inr v' \<and> disconnect_tx tx v' = Inr w \<and>
    lastKeyID w = lastKeyID v + (of_nat (asp_count tx) - 1)"
  using connect_disconnect [OF assms(2,1), of c] assms(3) by auto

section \<open>Instances\<close>

text \<open>A transaction of the provision thread that adds ASP keys under the key ids given.\<close>

definition asp_op :: "byte \<Rightarrow> bytes" where
  "asp_op i = AdminOpASPKeyAdd # unit_y_key @ [i, 0, 0, 0]"

definition provision_tx :: "byte list \<Rightarrow> MsgTx" where
  "provision_tx ids =
     \<lparr>Version = 1, TxIn = [\<lparr>PreviousOutPoint = \<lparr>Hash = replicate 32 7, Index = 0\<rparr>, SignatureScript = [], Sequence = 0\<rparr>],
      TxOut = \<lparr>Value = 0, PkScript = [OP_1, OP_CHECKTHREAD]\<rparr> #
        map (\<lambda>i. \<lparr>Value = 0, PkScript = [OP_RETURN, OP_DATA_38] @ asp_op i\<rparr>) ids, LockTime = 0\<rparr>"

definition provision_view :: KeyViewpoint where
  "provision_view = NewKeyViewpoint\<lparr>threadTips := [1 \<mapsto> \<lparr>Hash = replicate 32 7, Index = 0\<rparr>]\<rparr>"

abbreviation asp_pops :: "byte \<Rightarrow> parsedOpcode list" where
  "asp_pops i \<equiv> [\<lparr>opcode = OP_RETURN, data = []\<rparr>, \<lparr>opcode = OP_DATA_38, data = asp_op i\<rparr>]"

lemma provision_details:
  "GetAdminDetailsMsgTx (provision_tx [1]) = (1, [asp_pops 1])"
  "GetAdminDetailsMsgTx (provision_tx [1, 2]) = (1, [asp_pops 1, asp_pops 2])"
  by code_simp+

lemma provision_in [simp]:
  "TxIn (provision_tx ids) = [\<lparr>PreviousOutPoint = \<lparr>Hash = replicate 32 7, Index = 0\<rparr>, SignatureScript = [], Sequence = 0\<rparr>]"
  by (simp add: provision_tx_def)

lemma asp_op_data:
  "ExtractAdminOpData (asp_pops i) = Inr (True, ASPKeySet, Some \<lparr>X = be_int (tl unit_y_key), Y = 1\<rparr>, word_of_nat (unat i))"
  "IsValidAdminOp (asp_pops i) ProvisionThread"
proof -
  have k: "length unit_y_key = 33" by (simp add: unit_y_key_def)
  have "admin_key_bytes (asp_pops i) = Inr unit_y_key"
    by (simp add: admin_key_bytes_def asp_op_def PubKeyBytesLenCompressed_def k)
  moreover have "drop 34 (AdminOpASPKeyAdd # unit_y_key @ [i, 0, 0, 0]) = [i, 0, 0, 0]" by (simp add: k)
  ultimately show "ExtractAdminOpData (asp_pops i) = Inr (True, ASPKeySet, Some \<lparr>X = be_int (tl unit_y_key), Y = 1\<rparr>, word_of_nat (unat i))"
      "IsValidAdminOp (asp_pops i) ProvisionThread"
    by (simp_all add: ExtractAdminOpData_def IsValidAdminOp_def ExtractAdminData_def unit_y_key_parses asp_op_def k Let_def
        PubKeyBytesLenCompressed_def KeyIDSize_def KeyIDFromAddressBuffer_def)
qed

lemma provision_connectable:
  "tx_connectable p (provision_tx [1]) provision_view" "asp_count (provision_tx [1]) = 1"
  "tx_connectable p (provision_tx [1, 2]) provision_view" "asp_count (provision_tx [1, 2]) = 2" "view_inv provision_view"
  by (simp_all add: tx_connectable_def provision_details CheckTransactionOutputs_def asp_op_data check_admin_op_def
      provision_view_def NewKeyViewpoint_def key_at_def asp_count_def asp_add_def view_inv_def keys_at_def)

theorem disconnect_undoes_connect_witness:
  "\<exists>v' w. Key_connectTransactions example_crypto \<lparr>Header = example_header, Transactions = [provision_tx [1]]\<rparr> provision_view = Inr v' \<and>
     Key_disconnectTransactions \<lparr>Header = example_header, Transactions = [provision_tx [1]]\<rparr> v' = Inr w \<and>
     lastKeyID w = lastKeyID provision_view"
proof -
  obtain v' where "Key_connectTransaction example_crypto (provision_tx [1]) provision_view = Inr v'"
    using connect_disconnect [OF provision_connectable(1,5)] by blast
  then have "steps_ok (\<lambda>tx v. tx_connectable (MainNetParams []) tx v \<and> (True \<longrightarrow> asp_count tx \<le> 1))
      (Key_connectTransaction example_crypto) (Transactions \<lparr>Header = example_header, Transactions = [provision_tx [1]]\<rparr>) provision_view"
    using provision_connectable by simp
  from disconnect_undoes_connect [OF provision_connectable(5) this] show ?thesis by blast
qed

theorem disconnect_lastKeyID_witness:
  "\<exists>v' w. Key_connectTransaction example_crypto (provision_tx [1, 2]) provision_view = Inr v' \<and>
     disconnect_tx (provision_tx [1, 2]) v' = Inr w \<and> lastKeyID w = lastKeyID provision_view + 1"
  using disconnect_lastKeyID [OF provision_connectable(5,3), of example_crypto] provision_connectable(4) by auto

end
