(* ===== verification/Admin_Store.thy ===== *)
theory Admin_Store
  imports Key_View
begin

text \<open>
  How the block index, the admin state (thread tips, key sets, key ids, supply) and the best state
  are stored, \<open>src/blockchain/chainio.go\<close>.  A bucket of the database is a partial function from
  byte strings to byte strings.  The admin state and the best state are shown to be read back.
\<close>

type_synonym bucket = "bytes \<rightharpoonup> bytes"

section \<open>The block index\<close>

definition dbPutBlockIndex :: "bytes \<Rightarrow> 32 word \<Rightarrow> bucket \<times> bucket \<Rightarrow> bucket \<times> bucket" where
  "dbPutBlockIndex h height db =
     (case db of (hashIndex, heightIndex) \<Rightarrow>
        let serializedHeight = put_uint32 height
        in (hashIndex(h \<mapsto> serializedHeight), heightIndex(serializedHeight \<mapsto> h)))"

definition dbRemoveBlockIndex :: "bytes \<Rightarrow> 32 word \<Rightarrow> bucket \<times> bucket \<Rightarrow> bucket \<times> bucket" where
  "dbRemoveBlockIndex h height db =
     (case db of (hashIndex, heightIndex) \<Rightarrow> (hashIndex(h := None), heightIndex(put_uint32 height := None)))"

text \<open>Reading a number from too few bytes panics.\<close>

definition dbFetchHeightByHash :: "bucket \<times> bucket \<Rightarrow> bytes \<Rightarrow> 32 word cres" where
  "dbFetchHeightByHash db h =
     (case fst db h of
        None \<Rightarrow> Inl ErrNotInMainChain
      | Some serializedHeight \<Rightarrow>
          if length serializedHeight < 4 then Inl (Lower Panic) else Inr (word_of_nat (le_nat (take 4 serializedHeight))))"

definition dbFetchHashByHeight :: "bucket \<times> bucket \<Rightarrow> 32 word \<Rightarrow> bytes cres" where
  "dbFetchHashByHeight db height =
     (case snd db (put_uint32 height) of
        None \<Rightarrow> Inl ErrNotInMainChain
      | Some hashBytes \<Rightarrow> Inr (copy_at (replicate HashSize 0) 0 hashBytes))"

section \<open>The admin state\<close>

definition adminKeysOrder :: "KeySetType list" where
  "adminKeysOrder = [RootKeySet, ProvisionKeySet, IssueKeySet, ValidateKeySet]"

definition threadOrder :: "byte list" where
  "threadOrder = [RootThread, ProvisionThread, IssueThread]"

definition put_tip :: "(byte \<rightharpoonup> OutPoint) \<Rightarrow> byte \<Rightarrow> bytes" where
  "put_tip tips threadId =
     (case tips threadId of None \<Rightarrow> replicate 36 0 | Some tip \<Rightarrow> Hash tip @ put_uint32 (Index tip))"

definition put_key_set :: "PublicKeySet \<Rightarrow> bytes" where
  "put_key_set keySet = putUint 4 (length keySet mod 2 ^ 32) @ concat (map SerializeCompressed keySet)"

text \<open>Serializing a nil key panics.\<close>

definition put_key_id :: "KeyIdMap \<Rightarrow> bytes \<Rightarrow> nat \<Rightarrow> bytes res" where
  "put_key_id m acc keyID =
     (case key_at m (word_of_nat keyID) of
        None \<Rightarrow> Inl Panic
      | Some pubKey \<Rightarrow> Inr (acc @ putUint 4 keyID @ SerializeCompressed pubKey))"

definition serializeKeySet :: "KeyViewpoint \<Rightarrow> bytes res" where
  "serializeKeySet view =
     bindE (foldE (put_key_id (aspKeyIdMap view)) [] (sort (map (unat \<circ> fst) (aspKeyIdMap view)))) (\<lambda>keyIDs.
       Inr (concat (map (put_tip (threadTips view)) threadOrder) @
            put_uint32 (lastKeyID view) @ putUint 8 (unat (totalSupply view)) @
            concat (map (\<lambda>t. put_key_set (keys_at view t)) adminKeysOrder) @
            putUint 4 (length (aspKeyIdMap view) mod 2 ^ 32) @ keyIDs))"

text \<open>The slice \<open>b[offset:offset+n]\<close>.\<close>

definition slice :: "bytes \<Rightarrow> nat \<Rightarrow> nat \<Rightarrow> bytes res" where
  "slice b offset n = (if offset + n \<le> length b then Inr (take n (drop offset b)) else Inl Panic)"

definition read_tip :: "bytes \<Rightarrow> nat \<times> (byte \<rightharpoonup> OutPoint) \<Rightarrow> byte \<Rightarrow> (nat \<times> (byte \<rightharpoonup> OutPoint)) cres" where
  "read_tip b st threadId =
     (case st of (offset, tips) \<Rightarrow>
        bindE (lowerE (slice b offset HashSize)) (\<lambda>h.
        bindE (lowerE (slice b (offset + HashSize) 4)) (\<lambda>i.
          Inr (offset + HashSize + 4, tips(threadId \<mapsto> \<lparr>Hash = h, Index = word_of_nat (le_nat i)\<rparr>)))))"

text \<open>
  A key that does not parse is nil; it is dereferenced when it goes into a key set, but stored as
  it is in the map of key ids.
\<close>

definition read_keys :: "bytes \<Rightarrow> nat \<Rightarrow> nat \<Rightarrow> (nat \<times> PublicKeySet) cres" where
  "read_keys b offset n =
     foldE (\<lambda>(offset, keySet) _.
       bindE (lowerE (slice b offset 33)) (\<lambda>s.
         case ParsePubKey s of
           Inl _ \<Rightarrow> Inl (Lower Panic)
         | Inr pubKey \<Rightarrow> Inr (offset + 33, keySet @ [pubKey]))) (offset, []) [0..<n]"

definition read_key_set ::
  "bytes \<Rightarrow> nat \<times> (KeySetType \<rightharpoonup> PublicKeySet) \<Rightarrow> KeySetType \<Rightarrow> (nat \<times> (KeySetType \<rightharpoonup> PublicKeySet)) cres" where
  "read_key_set b st t =
     (case st of (offset, adminKeys) \<Rightarrow>
        if length (drop offset b) < 4 then Inl ErrCorruption
        else
          bindE (lowerE (slice b offset 4)) (\<lambda>l.
          let keySetLength = le_nat l; offset = offset + 4
          in if length (drop offset b) mod 2 ^ 32 < keySetLength * 33 mod 2 ^ 32 then Inl ErrCorruption
             else bindE (read_keys b offset keySetLength) (\<lambda>(offset, keySet). Inr (offset, adminKeys(t \<mapsto> keySet)))))"

definition read_key_ids :: "bytes \<Rightarrow> nat \<Rightarrow> nat \<Rightarrow> (nat \<times> KeyIdMap) cres" where
  "read_key_ids b offset n =
     foldE (\<lambda>(offset, m) _.
       bindE (lowerE (slice b offset 4)) (\<lambda>k.
       bindE (lowerE (slice b (offset + 4) 33)) (\<lambda>s.
         let pubKey = (case ParsePubKey s of Inl _ \<Rightarrow> None | Inr pubKey \<Rightarrow> Some pubKey)
         in Inr (offset + 4 + 33, AList.update (word_of_nat (le_nat k)) pubKey m)))) (offset, []) [0..<n]"

definition deserializeKeySet :: "bytes \<Rightarrow> KeyViewpoint cres" where
  "deserializeKeySet b =
     (if length b < 3 * (HashSize + 4) + 4 + 8 then Inl ErrCorruption
      else
        bindE (foldE (read_tip b) (0, Map.empty) threadOrder) (\<lambda>(offset, tips).
        bindE (lowerE (slice b offset 4)) (\<lambda>k. let offset = offset + 4 in
        bindE (lowerE (slice b offset 8)) (\<lambda>supply. let offset = offset + 8 in
        bindE (foldE (read_key_set b) (offset, Map.empty) adminKeysOrder) (\<lambda>(offset, adminKeys).
          if length (drop offset b) < 4 then Inl ErrCorruption
          else
            bindE (lowerE (slice b offset 4)) (\<lambda>l.
            let keyIdMapLen = le_nat l; offset = offset + 4
            in if length (drop offset b) mod 2 ^ 32 < keyIdMapLen * 37 mod 2 ^ 32 then Inl ErrCorruption
               else bindE (read_key_ids b offset keyIdMapLen) (\<lambda>(_, m).
                 Inr \<lparr>threadTips = tips, lastKeyID = word_of_nat (le_nat k), totalSupply = word_of_nat (le_nat supply),
                      adminKeySets = adminKeys, aspKeyIdMap = m\<rparr>)))))))"

section \<open>The best state\<close>

record bestChainState =
  bs_hash :: bytes
  bs_height :: "32 word"
  bs_totalTxns :: "64 word"
  bs_workSum :: int

definition serializeBestChainState :: "bestChainState \<Rightarrow> bytes" where
  "serializeBestChainState state =
     (let workSumBytes = be_bytes (bs_workSum state)
      in bs_hash state @ put_uint32 (bs_height state) @ putUint 8 (unat (bs_totalTxns state)) @
         putUint 4 (length workSumBytes) @ workSumBytes)"

definition deserializeBestChainState :: "bytes \<Rightarrow> bestChainState cres" where
  "deserializeBestChainState b =
     (if length b < HashSize + 16 then Inl ErrCorruption
      else
        bindE (lowerE (slice b HashSize 4)) (\<lambda>height.
        bindE (lowerE (slice b (HashSize + 4) 8)) (\<lambda>totalTxns.
        bindE (lowerE (slice b (HashSize + 12) 4)) (\<lambda>l.
        let workSumBytesLen = le_nat l; offset = HashSize + 16
        in if length (drop offset b) mod 2 ^ 32 < workSumBytesLen then Inl ErrCorruption
           else bindE (lowerE (slice b offset workSumBytesLen)) (\<lambda>workSumBytes.
             Inr \<lparr>bs_hash = take HashSize b, bs_height = word_of_nat (le_nat height), bs_totalTxns = word_of_nat (le_nat totalTxns),
                  bs_workSum = be_int workSumBytes\<rparr>)))))"


section \<open>Reading back\<close>

lemma slice_mid: "b = pre @ m @ post \<Longrightarrow> offset = length pre \<Longrightarrow> n = length m \<Longrightarrow> slice b offset n = Inr m"
  by (simp add: slice_def)

lemma put_uint_read:
  "v < 256 ^ n \<Longrightarrow> le_nat (putUint n v) = v" "length (putUint n v) = n"
  by (simp_all add: putUint_def le_nat_le_bytes_id)

lemma put_uint32_read: "le_nat (put_uint32 w) = unat w" "length (put_uint32 w) = 4"
  using unsigned_less [of w, where 'a = nat] by (simp_all add: put_uint32_def put_uint_read)

definition key_ok :: "PublicKey \<Rightarrow> bool" where
  "key_ok k \<longleftrightarrow> length (SerializeCompressed k) = 33 \<and> ParsePubKey (SerializeCompressed k) = Inr k"

lemma read_keys_put:
  assumes "list_all key_ok ks" and "b = pre @ concat (map SerializeCompressed ks) @ post"
  shows "read_keys b (length pre) (length ks) = Inr (length pre + 33 * length ks, ks)"
proof -
  let ?f = "\<lambda>(offset, keySet) _. bindE (lowerE (slice b offset 33)) (\<lambda>s.
         case ParsePubKey s of Inl _ \<Rightarrow> Inl (Lower Panic) | Inr pubKey \<Rightarrow> Inr (offset + 33, keySet @ [pubKey]))"
  have "foldE ?f (length p, acc) [m..<m + length xs] = Inr (length p + 33 * length xs, acc @ xs)"
    if "list_all key_ok xs" "b = p @ concat (map SerializeCompressed xs) @ post" for xs p m acc
    using that
  proof (induction xs arbitrary: p m acc)
    case (Cons k xs)
    have k: "length (SerializeCompressed k) = 33" "ParsePubKey (SerializeCompressed k) = Inr k" using Cons.prems(1) by (auto simp: key_ok_def)
    have "slice b (length p) 33 = Inr (SerializeCompressed k)"
      using k(1) Cons.prems(2) by (intro slice_mid [of b p _ "concat (map SerializeCompressed xs) @ post"]) auto
    moreover have "[m..<m + length (k # xs)] = m # [Suc m..<Suc m + length xs]" by (simp add: upt_conv_Cons del: upt_Suc)
    ultimately show ?case
      using Cons.IH [of "p @ SerializeCompressed k" "acc @ [k]" "Suc m"] Cons.prems k by simp
  qed simp
  from this [OF assms, of "[]" 0] show ?thesis by (simp add: read_keys_def)
qed

lemma read_key_set_put:
  assumes "list_all key_ok ks" and "length ks < 2 ^ 26" and "b = pre @ put_key_set ks @ post" and "length b < 2 ^ 32"
  shows "read_key_set b (length pre, m) t = Inr (length pre + length (put_key_set ks), m(t \<mapsto> ks))"
proof -
  let ?s = "concat (map SerializeCompressed ks)" and ?l = "putUint 4 (length ks mod 2 ^ 32)"
  have s: "length ?s = 33 * length ks" using assms(1) by (induction ks) (auto simp: key_ok_def)
  have b: "b = (pre @ ?l) @ ?s @ post" using assms(3) by (simp add: put_key_set_def)
  have l: "le_nat ?l = length ks" "length ?l = 4" using assms(2) by (simp_all add: put_uint_read)
  have "slice b (length pre) 4 = Inr ?l" using l(2) by (intro slice_mid [of b pre _ "?s @ post"]) (simp_all add: b)
  moreover have "read_keys b (length (pre @ ?l)) (length ks) = Inr (length (pre @ ?l) + 33 * length ks, ks)"
    by (rule read_keys_put [OF assms(1) b])
  moreover have "length (drop (length (pre @ ?l)) b) = 33 * length ks + length post" by (simp add: b s)
  moreover have "33 * length ks + length post < 2 ^ 32" using assms(4) by (simp add: b s)
  moreover have "\<not> length (drop (length pre) b) < 4" using l(2) by (simp add: b)
  ultimately show ?thesis using l s assms(2)
    by (simp add: read_key_set_def put_key_set_def)
qed

lemma AList_update_new: "k \<notin> fst ` set xs \<Longrightarrow> AList.update k v xs = xs @ [(k, v)]"
  by (induction xs) auto

text \<open>Fields that are written one after the other are read one after the other.\<close>

lemma foldE_parse:
  assumes "\<And>pre post x s. x \<in> set xs \<Longrightarrow> b = pre @ put x @ post \<Longrightarrow> rd (length pre, s) x = Inr (length pre + length (put x), upd x s)"
    and "b = pre @ concat (map put xs) @ post"
  shows "foldE rd (length pre, s) xs = Inr (length pre + length (concat (map put xs)), fold upd xs s)"
proof -
  have "foldE rd (length p, s) ys = Inr (length p + length (concat (map put ys)), fold upd ys s)"
    if "set ys \<subseteq> set xs" "b = p @ concat (map put ys) @ post" for ys p s
    using that
  proof (induction ys arbitrary: p s)
    case (Cons y ys)
    then have "rd (length p, s) y = Inr (length (p @ put y), upd y s)"
      using assms(1) [of y p "concat (map put ys) @ post"] by simp
    with Cons.IH [of "p @ put y"] Cons.prems show ?case by (simp add: add.assoc)
  qed simp
  from this [OF subset_refl assms(2)] show ?thesis .
qed

definition stored_tip :: "(byte \<rightharpoonup> OutPoint) \<Rightarrow> byte \<Rightarrow> OutPoint" where
  "stored_tip tips t = (case tips t of None \<Rightarrow> \<lparr>Hash = replicate 32 0, Index = 0\<rparr> | Some tip \<Rightarrow> tip)"

lemma read_tip_put:
  assumes "length (Hash (stored_tip tips t)) = 32" and "b = pre @ put_tip tips t @ post"
  shows "read_tip b (length pre, m) t = Inr (length pre + length (put_tip tips t), m(t \<mapsto> stored_tip tips t))"
proof -
  let ?tip = "stored_tip tips t"
  have "put_uint32 0 = replicate 4 0"
  proof -
    have "(4::nat) = Suc (Suc (Suc (Suc 0)))" by simp
    then show ?thesis unfolding put_uint32_def putUint_def by (simp only: le_bytes.simps) simp
  qed
  moreover have "replicate 36 (0 :: byte) = replicate 32 0 @ replicate 4 0" using replicate_add [of 32 4 "0 :: byte"] by simp
  ultimately have p: "put_tip tips t = Hash ?tip @ put_uint32 (Index ?tip)"
    by (simp add: put_tip_def stored_tip_def split: option.splits)
  have "slice b (length pre) HashSize = Inr (Hash ?tip)"
    using assms by (intro slice_mid [of b pre _ "put_uint32 (Index ?tip) @ post"]) (simp_all add: p HashSize_def)
  moreover have "slice b (length pre + HashSize) 4 = Inr (put_uint32 (Index ?tip))"
    using assms by (intro slice_mid [of b "pre @ Hash ?tip" _ post]) (simp_all add: p HashSize_def put_uint32_read)
  ultimately show ?thesis using assms(1) by (cases ?tip) (simp add: read_tip_def put_uint32_read p HashSize_def)
qed

subsection \<open>Key ids\<close>

abbreviation put_id :: "KeyIdMap \<Rightarrow> nat \<Rightarrow> bytes" where
  "put_id m k \<equiv> putUint 4 k @ SerializeCompressed (the (key_at m (word_of_nat k)))"

lemma put_key_ids:
  "(\<And>k. k \<in> set ids \<Longrightarrow> key_at m (word_of_nat k) \<noteq> None) \<Longrightarrow> foldE (put_key_id m) acc ids = Inr (acc @ concat (map (put_id m) ids))"
proof (induction ids arbitrary: acc)
  case (Cons k ids)
  then obtain pk where "key_at m (word_of_nat k) = Some pk" by fastforce
  with Cons show ?case by (simp add: put_key_id_def)
qed simp

lemma read_key_ids_put:
  assumes "\<And>k. k \<in> set ids \<Longrightarrow> k < 2 ^ 32 \<and> (\<exists>pk. key_at m (word_of_nat k) = Some pk \<and> key_ok pk)" and "distinct ids"
    and "b = pre @ concat (map (put_id m) ids) @ post"
  shows "\<exists>n. read_key_ids b (length pre) (length ids) = Inr (n, map (\<lambda>k. (word_of_nat k :: KeyID, key_at m (word_of_nat k))) ids)"
proof -
  let ?f = "\<lambda>(offset, m) _. bindE (lowerE (slice b offset 4)) (\<lambda>k.
       bindE (lowerE (slice b (offset + 4) 33)) (\<lambda>s.
         let pubKey = (case ParsePubKey s of Inl _ \<Rightarrow> None | Inr pubKey \<Rightarrow> Some pubKey)
         in Inr (offset + 4 + 33, AList.update (word_of_nat (le_nat k) :: KeyID) pubKey m)))"
  have "foldE ?f (length p, map (\<lambda>k. (word_of_nat k :: KeyID, key_at m (word_of_nat k))) done) [i..<i + length xs] =
      Inr (length p + 37 * length xs, map (\<lambda>k. (word_of_nat k :: KeyID, key_at m (word_of_nat k))) (done @ xs))"
    if "set (done @ xs) \<subseteq> set ids" "distinct (done @ xs)" "b = p @ concat (map (put_id m) xs) @ post" for xs p i "done"
    using that
  proof (induction xs arbitrary: p i "done")
    case (Cons k xs)
    obtain pk where pk: "key_at m (word_of_nat k) = Some pk" "key_ok pk" "k < 2 ^ 32" using assms(1) [of k] Cons.prems(1) by auto
    have "slice b (length p) 4 = Inr (putUint 4 k)"
      using Cons.prems(3) by (intro slice_mid [of b p _ "SerializeCompressed pk @ concat (map (put_id m) xs) @ post"]) (simp_all add: pk put_uint_read)
    moreover have "slice b (length p + 4) 33 = Inr (SerializeCompressed pk)"
      using Cons.prems(3) pk(2) by (intro slice_mid [of b "p @ putUint 4 k" _ "concat (map (put_id m) xs) @ post"]) (simp_all add: pk key_ok_def put_uint_read)
    moreover have new: "(word_of_nat k :: KeyID) \<notin> fst ` set (map (\<lambda>k. (word_of_nat k :: KeyID, key_at m (word_of_nat k))) done)"
    proof
      assume "(word_of_nat k :: KeyID) \<in> fst ` set (map (\<lambda>k. (word_of_nat k :: KeyID, key_at m (word_of_nat k))) done)"
      then obtain j where "j \<in> set done" "(word_of_nat k :: 32 word) = word_of_nat j" by auto
      moreover from this have "j < 2 ^ 32" using assms(1) [of j] Cons.prems(1) by auto
      then have "unat (word_of_nat j :: 32 word) = j" "unat (word_of_nat k :: 32 word) = k" using pk(3) by (simp_all add: unat_of_nat)
      ultimately have "j = k" by metis
      with \<open>j \<in> set done\<close> Cons.prems(2) show False by simp
    qed
    moreover have "[i..<i + length (k # xs)] = i # [Suc i..<Suc i + length xs]" by (simp add: upt_conv_Cons del: upt_Suc)
    ultimately have "foldE ?f (length p, map (\<lambda>k. (word_of_nat k :: KeyID, key_at m (word_of_nat k))) done) [i..<i + length (k # xs)] =
        foldE ?f (length (p @ put_id m k), map (\<lambda>k. (word_of_nat k :: KeyID, key_at m (word_of_nat k))) (done @ [k])) [Suc i..<Suc i + length xs]"
      using pk AList_update_new [OF new, of "Some pk"] by (simp add: key_ok_def put_uint_read add.commute del: upt_Suc)
    with Cons.IH [of "done @ [k]" "p @ put_id m k" "Suc i"] Cons.prems pk show ?case by (simp add: key_ok_def put_uint_read)
  qed simp
  from this [of "[]" ids pre 0] assms(2,3) show ?thesis by (simp add: read_key_ids_def)
qed

subsection \<open>The admin state\<close>

text \<open>
  A key view that can be stored: the hashes of the thread tips have 32 bytes, all keys can be
  parsed from their serialization, every key id in the map has a key and occurs once, and there
  are less than \<open>2^20\<close> keys in each set.
\<close>

definition admin_storable :: "KeyViewpoint \<Rightarrow> bool" where
  "admin_storable v \<longleftrightarrow>
     list_all (\<lambda>t. length (Hash (stored_tip (threadTips v) t)) = 32) threadOrder \<and>
     list_all (\<lambda>t. length (keys_at v t) < 2 ^ 20 \<and> list_all key_ok (keys_at v t)) adminKeysOrder \<and>
     length (aspKeyIdMap v) < 2 ^ 20 \<and> distinct (map fst (aspKeyIdMap v)) \<and>
     list_all (\<lambda>(_, k). case k of None \<Rightarrow> False | Some pk \<Rightarrow> key_ok pk) (aspKeyIdMap v)"

abbreviation id_order :: "KeyIdMap \<Rightarrow> nat list" where
  "id_order m \<equiv> sort (map (unat \<circ> fst) m)"

lemma id_order_ok:
  assumes "distinct (map fst m)" and "list_all (\<lambda>(_, k). case k of None \<Rightarrow> False | Some pk \<Rightarrow> key_ok pk) m"
  shows "\<And>k. k \<in> set (id_order m) \<Longrightarrow> k < 2 ^ 32 \<and> (\<exists>pk. key_at m (word_of_nat k) = Some pk \<and> key_ok pk)"
    and "distinct (id_order m)"
    and "key_at (map (\<lambda>k. (word_of_nat k, key_at m (word_of_nat k))) (id_order m)) = key_at m"
proof -
  have at: "\<exists>pk. key_at m i = Some pk \<and> key_ok pk" if *: "i \<in> fst ` set m" for i
  proof -
    obtain k where k: "(i, k) \<in> set m" using * by auto
    then have "map_of m i = Some k" using assms(1) by simp
    then show ?thesis using k assms(2) by (auto simp: key_at_def list_all_iff split: option.splits)
  qed
  have set: "set (id_order m) = unat ` fst ` set m" by (simp add: image_comp)
  show "k < 2 ^ 32 \<and> (\<exists>pk. key_at m (word_of_nat k) = Some pk \<and> key_ok pk)" if *: "k \<in> set (id_order m)" for k
  proof -
    obtain i where "i \<in> fst ` set m" "k = unat i" using * unfolding set by blast
    then show ?thesis using at [of i] unsigned_less [of i, where 'a = nat] by simp
  qed
  have "distinct (map unat (map fst m))" using assms(1) by (simp add: distinct_map inj_on_def word_unat_eq_iff)
  then show "distinct (id_order m)" by simp
  have "map (\<lambda>k. (word_of_nat k :: KeyID, key_at m (word_of_nat k))) (id_order m) = map (\<lambda>i. (i, key_at m i)) (map word_of_nat (id_order m))" by simp
  moreover have "set (map (word_of_nat :: nat \<Rightarrow> KeyID) (id_order m)) = fst ` set m" unfolding set_map set image_image by simp
  ultimately have "map_of (map (\<lambda>k. (word_of_nat k, key_at m (word_of_nat k))) (id_order m)) i =
      (if i \<in> fst ` set m then Some (key_at m i) else None)" for i
    by (simp only: map_of_map_restrict restrict_map_def comp_def)
  moreover have "key_at m i = None" if "i \<notin> fst ` set m" for i
    using that map_of_eq_None_iff [of m i] by (simp add: key_at_def)
  ultimately show "key_at (map (\<lambda>k. (word_of_nat k, key_at m (word_of_nat k))) (id_order m)) = key_at m"
    by (simp add: key_at_def [of "map _ _"] fun_eq_iff)
qed

text \<open>
  C34. The admin state survives the database: what is written for a key view is read back, without an
  error, as a view with the same last key id, supply, key sets and keys of the key ids, and the same
  thread tips, where a missing tip is read as the zero outpoint.
\<close>

theorem admin_state_roundtrip:
  assumes "admin_storable v"
  shows "\<exists>b w. serializeKeySet v = Inr b \<and> deserializeKeySet b = Inr w \<and>
    list_all (\<lambda>t. threadTips w t = Some (stored_tip (threadTips v) t)) threadOrder \<and>
    lastKeyID w = lastKeyID v \<and> totalSupply w = totalSupply v \<and>
    list_all (\<lambda>t. keys_at w t = keys_at v t) adminKeysOrder \<and> key_at (aspKeyIdMap w) = key_at (aspKeyIdMap v)"
proof -
  let ?m = "aspKeyIdMap v" and ?sets = "concat (map (\<lambda>t. put_key_set (keys_at v t)) adminKeysOrder)"
    and ?tips = "concat (map (put_tip (threadTips v)) threadOrder)"
  note a = assms [unfolded admin_storable_def]
  note ids = id_order_ok [OF a [THEN conjunct2, THEN conjunct2, THEN conjunct2, THEN conjunct1] a [THEN conjunct2, THEN conjunct2, THEN conjunct2, THEN conjunct2]]
  define ids where "ids = concat (map (put_id ?m) (id_order ?m))"
  define L where "L = putUint 4 (length ?m mod 2 ^ 32)"
  define b where "b = ?tips @ put_uint32 (lastKeyID v) @ putUint 8 (unat (totalSupply v)) @ ?sets @ L @ ids"
  have ser: "serializeKeySet v = Inr b"
  proof -
    have "foldE (put_key_id ?m) [] (id_order ?m) = Inr ids"
      unfolding ids_def using put_key_ids [of "id_order ?m" ?m "[]"] ids(1) by force
    then show ?thesis by (simp add: serializeKeySet_def b_def L_def)
  qed
  have len_ids: "length ids = 37 * length ?m"
  proof -
    have "length (SerializeCompressed (the (key_at ?m (word_of_nat k)))) = 33" if "k \<in> set (id_order ?m)" for k
      using ids(1) [OF that] by (auto simp: key_ok_def)
    then have "length (concat (map (put_id ?m) ks)) = 37 * length ks" if "set ks \<subseteq> set (id_order ?m)" for ks
      using that by (induction ks) (simp_all add: put_uint_read del: set_sort)
    then show ?thesis by (simp add: ids_def)
  qed
  have len_set: "length (put_key_set ks) = 4 + 33 * length ks" if "list_all key_ok ks" for ks
    using that by (induction ks) (auto simp: put_key_set_def key_ok_def put_uint_read)
  have tips: "length (put_tip (threadTips v) t) = 36" if "t \<in> set threadOrder" for t
    using that a [THEN conjunct1] by (auto simp: list_all_iff put_tip_def stored_tip_def put_uint32_read split: option.splits)
  have len_tips: "length ?tips = 108" using tips by (simp add: threadOrder_def)
  have len_L: "length L = 4" "le_nat L = length ?m" using a by (simp_all add: L_def put_uint_read)
  have len_b: "length b < 2 ^ 32"
    using a len_set by (simp add: b_def len_tips len_ids len_L adminKeysOrder_def put_uint32_read put_uint_read)
  have r_tips: "foldE (read_tip b) (0, Map.empty) threadOrder = Inr (108, fold (\<lambda>t m. m(t \<mapsto> stored_tip (threadTips v) t)) threadOrder Map.empty)"
    using foldE_parse [of threadOrder b "put_tip (threadTips v)" "read_tip b" "\<lambda>t m. m(t \<mapsto> stored_tip (threadTips v) t)" "[]"]
      read_tip_put a [THEN conjunct1] by (simp add: list_all_iff b_def len_tips)
  have r_sets: "foldE (read_key_set b) (length (?tips @ put_uint32 (lastKeyID v) @ putUint 8 (unat (totalSupply v))), Map.empty) adminKeysOrder =
      Inr (length (?tips @ put_uint32 (lastKeyID v) @ putUint 8 (unat (totalSupply v))) + length ?sets,
           fold (\<lambda>t m. m(t \<mapsto> keys_at v t)) adminKeysOrder Map.empty)"
    using a [THEN conjunct2, THEN conjunct1] len_b
    by (intro foldE_parse [where post = "L @ ids"] read_key_set_put) (auto simp: list_all_iff b_def)
  have len_pre: "length (?tips @ put_uint32 (lastKeyID v) @ putUint 8 (unat (totalSupply v))) = 120"
    by (simp add: len_tips put_uint32_read put_uint_read)
  have "slice b 108 4 = Inr (put_uint32 (lastKeyID v))"
    by (rule slice_mid [of b ?tips _ "putUint 8 (unat (totalSupply v)) @ ?sets @ L @ ids"]) (simp_all add: b_def len_tips put_uint32_read)
  moreover have "slice b 112 8 = Inr (putUint 8 (unat (totalSupply v)))"
    by (rule slice_mid [of b "?tips @ put_uint32 (lastKeyID v)" _ "?sets @ L @ ids"]) (simp_all add: b_def len_tips put_uint32_read put_uint_read)
  moreover have "slice b (120 + length ?sets) 4 = Inr L"
    by (rule slice_mid [of b "?tips @ put_uint32 (lastKeyID v) @ putUint 8 (unat (totalSupply v)) @ ?sets" _ ids])
      (simp_all add: b_def len_tips len_L put_uint32_read put_uint_read)
  moreover obtain n where "read_key_ids b (120 + length ?sets + 4) (length ?m) = Inr (n, map (\<lambda>k. (word_of_nat k, key_at ?m (word_of_nat k))) (id_order ?m))"
    using read_key_ids_put [OF ids(1,2), of b "?tips @ put_uint32 (lastKeyID v) @ putUint 8 (unat (totalSupply v)) @ ?sets @ L" "[]"]
    by (auto simp: b_def ids_def len_tips len_L put_uint32_read put_uint_read add.assoc)
  moreover have "length b = 124 + length ?sets + 37 * length ?m"
    by (simp add: b_def len_tips len_L len_ids put_uint32_read put_uint_read)
  moreover have "le_nat (putUint 8 (unat (totalSupply v))) = unat (totalSupply v)"
    using unsigned_less [of "totalSupply v", where 'a = nat] by (simp add: put_uint_read)
  ultimately have "deserializeKeySet b = Inr \<lparr>threadTips = fold (\<lambda>t m. m(t \<mapsto> stored_tip (threadTips v) t)) threadOrder Map.empty,
      lastKeyID = lastKeyID v, totalSupply = totalSupply v, adminKeySets = fold (\<lambda>t m. m(t \<mapsto> keys_at v t)) adminKeysOrder Map.empty,
      aspKeyIdMap = map (\<lambda>k. (word_of_nat k, key_at ?m (word_of_nat k))) (id_order ?m)\<rparr>"
    using r_tips r_sets a len_L unfolding len_pre
    by (simp add: deserializeKeySet_def HashSize_def put_uint32_read Let_def)
  with ser ids(3) show ?thesis by (simp add: threadOrder_def adminKeysOrder_def keys_at_def)
qed

lemma parsed_key_ok: "ParsePubKey b = Inr k \<Longrightarrow> length b = 33 \<Longrightarrow> key_ok k"
  using ParsePubKey_compressed [of b k] by (simp add: key_ok_def)

definition example_key :: PublicKey where
  "example_key = \<lparr>X = be_int (tl unit_y_key), Y = 1\<rparr>"

definition example_admin :: KeyViewpoint where
  "example_admin = \<lparr>threadTips = [1 \<mapsto> \<lparr>Hash = replicate 32 7, Index = 4\<rparr>], lastKeyID = 3, totalSupply = 1000,
     adminKeySets = [RootKeySet \<mapsto> [example_key]], aspKeyIdMap = [(3, Some example_key), (1, Some example_key)]\<rparr>"

theorem admin_state_roundtrip_witness:
  "\<exists>b w. serializeKeySet example_admin = Inr b \<and> deserializeKeySet b = Inr w \<and>
    threadTips w 1 = Some \<lparr>Hash = replicate 32 7, Index = 4\<rparr> \<and> totalSupply w = 1000 \<and> keys_at w RootKeySet = [example_key] \<and>
    key_at (aspKeyIdMap w) 3 = Some example_key"
proof -
  have "key_ok example_key"
    using parsed_key_ok [OF unit_y_key_parses] by (simp add: example_key_def unit_y_key_def)
  then have "admin_storable example_admin"
    by (simp add: admin_storable_def example_admin_def threadOrder_def adminKeysOrder_def stored_tip_def keys_at_def)
  from admin_state_roundtrip [OF this] obtain b w where "serializeKeySet example_admin = Inr b" "deserializeKeySet b = Inr w"
      "list_all (\<lambda>t. threadTips w t = Some (stored_tip (threadTips example_admin) t)) threadOrder"
      "totalSupply w = totalSupply example_admin" "list_all (\<lambda>t. keys_at w t = keys_at example_admin t) adminKeysOrder"
      "key_at (aspKeyIdMap w) = key_at (aspKeyIdMap example_admin)" by blast
  then show ?thesis
    by (simp add: threadOrder_def adminKeysOrder_def stored_tip_def keys_at_def key_at_def example_admin_def fun_eq_iff)
qed

subsection \<open>The best state and the block index\<close>

lemma best_state_roundtrip:
  assumes "length (bs_hash s) = 32" and "0 \<le> bs_workSum s" and "bs_workSum s < 256 ^ 1000"
  shows "deserializeBestChainState (serializeBestChainState s) = Inr s"
proof -
  let ?w = "be_bytes (bs_workSum s)" and ?n = "putUint 8 (unat (bs_totalTxns s))"
  define b where "b = serializeBestChainState s"
  have w: "length ?w \<le> 1000" using assms(2,3) by (rule length_be_bytes)
  have b: "b = bs_hash s @ put_uint32 (bs_height s) @ ?n @ putUint 4 (length ?w) @ ?w"
    by (simp add: b_def serializeBestChainState_def Let_def)
  have "slice b 32 4 = Inr (put_uint32 (bs_height s))"
    by (rule slice_mid [of b "bs_hash s" _ "?n @ putUint 4 (length ?w) @ ?w"]) (simp_all add: b assms(1) put_uint32_read)
  moreover have "slice b 36 8 = Inr ?n"
    by (rule slice_mid [of b "bs_hash s @ put_uint32 (bs_height s)" _ "putUint 4 (length ?w) @ ?w"]) (simp_all add: b assms(1) put_uint32_read put_uint_read)
  moreover have "slice b 44 4 = Inr (putUint 4 (length ?w))"
    by (rule slice_mid [of b "bs_hash s @ put_uint32 (bs_height s) @ ?n" _ ?w]) (simp_all add: b assms(1) put_uint32_read put_uint_read)
  moreover have "slice b 48 (length ?w) = Inr ?w"
    by (rule slice_mid [of b "bs_hash s @ put_uint32 (bs_height s) @ ?n @ putUint 4 (length ?w)" _ "[]"]) (simp_all add: b assms(1) put_uint32_read put_uint_read)
  moreover have "length b = 48 + length ?w" "take 32 b = bs_hash s" by (simp_all add: b assms(1) put_uint32_read put_uint_read)
  moreover have "le_nat (putUint 4 (length ?w)) = length ?w" "le_nat ?n = unat (bs_totalTxns s)"
    using w unsigned_less [of "bs_totalTxns s", where 'a = nat] by (simp_all add: put_uint_read)
  ultimately have "deserializeBestChainState b = Inr s"
    using w assms(2) by (cases s) (simp add: deserializeBestChainState_def HashSize_def put_uint32_read Let_def)
  then show ?thesis by (simp only: b_def)
qed

lemma block_index_put:
  assumes "length h = 32"
  shows "dbFetchHeightByHash (dbPutBlockIndex h height db) h = Inr height" "dbFetchHashByHeight (dbPutBlockIndex h height db) height = Inr h"
    "dbFetchHeightByHash (dbRemoveBlockIndex h height db) h = Inl ErrNotInMainChain"
    "dbFetchHashByHeight (dbRemoveBlockIndex h height db) height = Inl ErrNotInMainChain"
  using assms
  by (simp_all add: dbFetchHeightByHash_def dbFetchHashByHeight_def dbPutBlockIndex_def dbRemoveBlockIndex_def put_uint32_read
      copy_at_def HashSize_def Let_def split: prod.splits)

end
