(* ===== verification/Chain_Store.thy ===== *)
theory Chain_Store
  imports Utxo_View Admin_Store
begin

text \<open>
  How the outputs are stored, \<open>src/blockchain/chainio.go\<close>: the journal of spent outputs and the set
  of unspent outputs, and loading views from them (\<open>src/blockchain/utxoviewpoint.go\<close>).  Where the
  code iterates over a map, the order is an argument.  What is written is shown to be read back:
  the journal, except for records at height 0, and the entries of a view.
\<close>

text \<open>
  An error is replaced by another one, a panic is not.
\<close>

definition wrapE :: "chain_err \<Rightarrow> 'a cres \<Rightarrow> 'a cres" where
  "wrapE e r = (case r of Inl (Lower Panic) \<Rightarrow> Inl (Lower Panic) | Inl _ \<Rightarrow> Inl e | Inr x \<Rightarrow> Inr x)"

section \<open>The spend journal\<close>

definition spentTxOutHeaderCode :: "spentTxOut \<Rightarrow> nat" where
  "spentTxOutHeaderCode stxo =
     (if st_height stxo = 0 then 0
      else
        let headerCode = push_bit 1 (unat (st_height stxo))
        in if st_isCoinBase stxo then headerCode OR 0x01 else headerCode)"

definition spentTxOutSerializeSize :: "spentTxOut \<Rightarrow> nat" where
  "spentTxOutSerializeSize stxo =
     (let headerCode = spentTxOutHeaderCode stxo;
          sz = serializeSizeVLQ headerCode;
          sz = (if headerCode \<noteq> 0 then sz + serializeSizeVLQ (uint64 (st_version stxo)) else sz)
      in sz + compressedTxOutSize (uint64 (st_amount stxo)) (st_pkScript stxo) (st_compressed stxo))"

definition putSpentTxOut :: "spentTxOut \<Rightarrow> bytes" where
  "putSpentTxOut stxo =
     (let headerCode = spentTxOutHeaderCode stxo
      in putVLQ headerCode @
         (if headerCode \<noteq> 0 then putVLQ (uint64 (st_version stxo)) else []) @
         putCompressedTxOut (uint64 (st_amount stxo)) (st_pkScript stxo) (st_compressed stxo))"

text \<open>The version, height and coinbase flag of a spent output, with the offset after them.\<close>

definition decode_stxo_header :: "bytes \<Rightarrow> int \<Rightarrow> (nat \<times> int \<times> bool \<times> 32 word) cres" where
  "decode_stxo_header serialized txVersion =
     (if length serialized = 0 then Inl ErrDeserialize
      else
        let (code, offset) = deserializeVLQ serialized
        in if offset \<ge> length serialized then Inl ErrDeserialize
           else if code \<noteq> 0 then
             let (version, bytesRead) = deserializeVLQ (drop offset serialized); offset = offset + bytesRead
             in if offset \<ge> length serialized then Inl ErrDeserialize
                else Inr (offset, to_int32 (int version), code AND 0x01 \<noteq> 0, word_of_nat (drop_bit 1 code))
           else if txVersion = 0 then Inl AssertErr
           else Inr (offset, txVersion, False, 0))"

definition decodeSpentTxOut :: "bytes \<Rightarrow> int \<Rightarrow> (spentTxOut \<times> nat) cres" where
  "decodeSpentTxOut serialized txVersion =
     bindE (decode_stxo_header serialized txVersion) (\<lambda>(offset, version, isCoinBase, height).
     bindE (wrapE ErrDeserialize (lowerE (decodeCompressedTxOut (drop offset serialized))))
       (\<lambda>(compAmount, compScript, bytesRead).
     Inr (\<lparr>st_compressed = True, st_version = version, st_amount = to_int64 (int compAmount), st_pkScript = compScript,
           st_height = height, st_isCoinBase = isCoinBase\<rparr>, offset + bytesRead)))"

text \<open>
  Reading one spent output.  The state has the number of spent outputs that are still to be read,
  the index of the first one read for a transaction that is not in the view, the offset, and the
  outputs.
\<close>

definition read_stxo ::
  "bytes \<Rightarrow> UtxoViewpoint \<Rightarrow> nat \<times> (bytes \<rightharpoonup> nat) \<times> nat \<times> spentTxOut list \<Rightarrow> TxIn \<Rightarrow>
   (nat \<times> (bytes \<rightharpoonup> nat) \<times> nat \<times> spentTxOut list) cres" where
  "read_stxo serialized view st txIn =
     (case st of (n, stxoInFlight, offset, stxos) \<Rightarrow>
        let stxoIdx = n - 1; originHash = Hash (PreviousOutPoint txIn);
            (txVersion, stxoInFlight) =
              (case LookupEntry view originHash of
                 Some entry \<Rightarrow> (ue_version entry, stxoInFlight)
               | None \<Rightarrow>
                   (case stxoInFlight originHash of
                      Some idx \<Rightarrow> (st_version (stxos ! idx), stxoInFlight)
                    | None \<Rightarrow> (0, stxoInFlight(originHash \<mapsto> stxoIdx))))
        in bindE (wrapE ErrDeserialize (decodeSpentTxOut (drop offset serialized) txVersion)) (\<lambda>(stxo, bytesRead).
             Inr (stxoIdx, stxoInFlight, offset + bytesRead, stxos[stxoIdx := stxo])))"

definition zero_stxo :: spentTxOut where
  "zero_stxo = \<lparr>st_compressed = False, st_version = 0, st_amount = 0, st_pkScript = [], st_height = 0, st_isCoinBase = False\<rparr>"

definition deserializeSpendJournalEntry :: "bytes \<Rightarrow> MsgTx list \<Rightarrow> UtxoViewpoint \<Rightarrow> spentTxOut list cres" where
  "deserializeSpendJournalEntry serialized txns view =
     (let numStxos = sum_list (map (\<lambda>tx. length (TxIn tx)) txns)
      in if length serialized = 0 then (if numStxos \<noteq> 0 then Inl AssertErr else Inr [])
         else
           bindE (foldE (read_stxo serialized view) (numStxos, Map.empty, 0, replicate numStxos zero_stxo)
                    (concat (map (\<lambda>tx. rev (TxIn tx)) (rev txns))))
             (\<lambda>(_, _, _, stxos). Inr stxos))"

definition serializeSpendJournalEntry :: "spentTxOut list \<Rightarrow> bytes" where
  "serializeSpendJournalEntry stxos = concat (map putSpentTxOut (rev stxos))"

text \<open>A slice of the transactions from index 1 panics when there are none.\<close>

definition dbFetchSpendJournalEntry :: "'x crypto_scheme \<Rightarrow> bucket \<Rightarrow> MsgBlock \<Rightarrow> UtxoViewpoint \<Rightarrow> spentTxOut list cres" where
  "dbFetchSpendJournalEntry c spendBucket block view =
     (let serialized = (case spendBucket (BlockHash c (Header block)) of None \<Rightarrow> [] | Some b \<Rightarrow> b)
      in if Transactions block = [] then Inl (Lower Panic)
         else case deserializeSpendJournalEntry serialized (drop 1 (Transactions block)) view of
                Inl ErrDeserialize \<Rightarrow> Inl ErrCorruption
              | r \<Rightarrow> r)"

definition dbPutSpendJournalEntry :: "bytes \<Rightarrow> spentTxOut list \<Rightarrow> bucket \<Rightarrow> bucket" where
  "dbPutSpendJournalEntry blockHash stxos spendBucket = spendBucket(blockHash \<mapsto> serializeSpendJournalEntry stxos)"

definition dbRemoveSpendJournalEntry :: "bytes \<Rightarrow> bucket \<Rightarrow> bucket" where
  "dbRemoveSpendJournalEntry blockHash spendBucket = spendBucket(blockHash := None)"

section \<open>The unspent outputs\<close>

definition utxoEntryHeaderCode :: "UtxoEntry \<Rightarrow> 32 word \<Rightarrow> (nat \<times> nat) cres" where
  "utxoEntryHeaderCode entry highestOutputIndex =
     (let numBitmapBytes = unat ((highestOutputIndex + 6) div 8);
          output0Unspent = (\<not> IsOutputSpent entry 0);
          output1Unspent = (\<not> IsOutputSpent entry 1)
      in if \<not> output0Unspent \<and> \<not> output1Unspent \<and> numBitmapBytes = 0 then Inl AssertErr
         else
           let numBitmapBytesAdjustment = (if \<not> output0Unspent \<and> \<not> output1Unspent then 1 else 0);
               headerCode = push_bit 3 (numBitmapBytes - numBitmapBytesAdjustment);
               headerCode = (if ue_isCoinBase entry then headerCode OR 0x01 else headerCode);
               headerCode = (if output0Unspent then headerCode OR 0x02 else headerCode);
               headerCode = (if output1Unspent then headerCode OR 0x04 else headerCode)
           in Inr (headerCode, numBitmapBytes))"

definition unspentness_byte :: "UtxoEntry \<Rightarrow> nat \<Rightarrow> byte" where
  "unspentness_byte entry i =
     foldl (\<lambda>unspentBits j. if \<not> IsOutputSpent entry (2 + word_of_nat i * 8 + word_of_nat j)
                            then unspentBits OR push_bit j 1 else unspentBits) 0 [0..<8]"

definition put_utxo :: "UtxoEntry \<Rightarrow> nat \<Rightarrow> bytes" where
  "put_utxo entry outputIndex =
     (case map_of (sparseOutputs entry) (word_of_nat outputIndex) of
        None \<Rightarrow> []
      | Some out \<Rightarrow>
          if uo_spent out then [] else putCompressedTxOut (uint64 (uo_amount out)) (uo_pkScript out) (uo_compressed out))"

text \<open>The result is \<open>None\<close> for the nil slice of a fully spent entry.\<close>

definition serializeUtxoEntry :: "UtxoEntry \<Rightarrow> bytes option cres" where
  "serializeUtxoEntry entry =
     (if IsFullySpent entry then Inr None
      else
        let outputOrder = sort (map (\<lambda>(outputIndex, _). unat outputIndex) (sparseOutputs entry));
            highIndex = word_of_nat (last outputOrder)
        in bindE (utxoEntryHeaderCode entry highIndex) (\<lambda>(headerCode, numBitmapBytes).
             Inr (Some (putVLQ (uint64 (ue_version entry)) @ putVLQ (unat (ue_blockHeight entry)) @ putVLQ headerCode @
                        map (unspentness_byte entry) [0..<numBitmapBytes] @
                        concat (map (put_utxo entry) outputOrder)))))"

definition bitmap_indexes :: "nat \<Rightarrow> byte \<Rightarrow> 32 word list" where
  "bitmap_indexes i unspentBits =
     map (\<lambda>j. 2 + word_of_nat i * 8 + word_of_nat j) (filter (\<lambda>j. drop_bit j unspentBits AND 0x01 \<noteq> 0) [0..<8])"

definition read_utxo :: "bytes \<Rightarrow> nat \<times> UtxoEntry \<Rightarrow> 32 word \<Rightarrow> (nat \<times> UtxoEntry) cres" where
  "read_utxo serialized st outputIndex =
     (case st of (offset, entry) \<Rightarrow>
        bindE (wrapE ErrDeserialize (lowerE (decodeCompressedTxOut (drop offset serialized)))) (\<lambda>(compAmount, compScript, bytesRead).
          Inr (offset + bytesRead,
               entry\<lparr>sparseOutputs := AList.update outputIndex
                 \<lparr>uo_spent = False, uo_compressed = True, uo_amount = to_int64 (int compAmount), uo_pkScript = compScript\<rparr>
                 (sparseOutputs entry)\<rparr>)))"

definition deserializeUtxoEntry :: "bytes \<Rightarrow> UtxoEntry cres" where
  "deserializeUtxoEntry serialized =
     (let (version, bytesRead) = deserializeVLQ serialized; offset = bytesRead
      in if offset \<ge> length serialized then Inl ErrDeserialize
         else
           let (blockHeight, bytesRead) = deserializeVLQ (drop offset serialized); offset = offset + bytesRead
           in if offset \<ge> length serialized then Inl ErrDeserialize
              else
                let (code, bytesRead) = deserializeVLQ (drop offset serialized); offset = offset + bytesRead
                in if offset \<ge> length serialized then Inl ErrDeserialize
                   else
                     let isCoinBase = (code AND 0x01 \<noteq> 0);
                         output0Unspent = (code AND 0x02 \<noteq> 0);
                         output1Unspent = (code AND 0x04 \<noteq> 0);
                         numBitmapBytes = drop_bit 3 code;
                         numBitmapBytes = (if \<not> output0Unspent \<and> \<not> output1Unspent then numBitmapBytes + 1 else numBitmapBytes)
                     in if length (drop offset serialized) < numBitmapBytes then Inl ErrDeserialize
                        else
                          let entry = newUtxoEntry (to_int32 (int version)) isCoinBase (word_of_nat blockHeight);
                              numBitmapBytes = numBitmapBytes mod 2 ^ 32;
                              outputIndexes = (if output0Unspent then [0] else []) @ (if output1Unspent then [1] else []) @
                                concat (map (\<lambda>i. bitmap_indexes i (serialized ! (offset + i))) [0..<numBitmapBytes])
                          in bindE (foldE (read_utxo serialized) (offset + numBitmapBytes, entry) outputIndexes) (\<lambda>(_, entry). Inr entry))"

definition dbFetchUtxoEntry :: "bucket \<Rightarrow> bytes \<Rightarrow> UtxoEntry option cres" where
  "dbFetchUtxoEntry utxoBucket h =
     (case utxoBucket h of
        None \<Rightarrow> Inr None
      | Some serializedUtxo \<Rightarrow>
          if length serializedUtxo = 0 then Inl AssertErr
          else case deserializeUtxoEntry serializedUtxo of
                 Inl ErrDeserialize \<Rightarrow> Inl ErrCorruption
               | Inl e \<Rightarrow> Inl e
               | Inr entry \<Rightarrow> Inr (Some entry))"

definition dbPutUtxoEntry :: "UtxoViewpoint \<Rightarrow> bucket \<Rightarrow> bytes \<Rightarrow> bucket cres" where
  "dbPutUtxoEntry view utxoBucket txHash =
     (case LookupEntry view txHash of
        None \<Rightarrow> Inr utxoBucket
      | Some entry \<Rightarrow>
          if \<not> ue_modified entry then Inr utxoBucket
          else bindE (serializeUtxoEntry entry) (\<lambda>serialized. Inr (utxoBucket(txHash := serialized))))"

definition dbPutUtxoView :: "bytes list \<Rightarrow> UtxoViewpoint \<Rightarrow> bucket \<Rightarrow> bucket cres" where
  "dbPutUtxoView order view utxoBucket = foldE (dbPutUtxoEntry view) utxoBucket order"

section \<open>Loading views\<close>

definition fetchUtxosMain :: "bucket \<Rightarrow> bytes list \<Rightarrow> UtxoViewpoint \<Rightarrow> UtxoViewpoint cres" where
  "fetchUtxosMain utxoBucket txSet view =
     foldE (\<lambda>view h. bindE (dbFetchUtxoEntry utxoBucket h) (\<lambda>entry.
       Inr (view\<lparr>entries := (entries view)(h \<mapsto> entry)\<rparr>))) view txSet"

definition fetchUtxos :: "bucket \<Rightarrow> bytes list \<Rightarrow> UtxoViewpoint \<Rightarrow> UtxoViewpoint cres" where
  "fetchUtxos utxoBucket txSet view =
     fetchUtxosMain utxoBucket (filter (\<lambda>h. entries view h = None) txSet) view"

text \<open>
  One input of a transaction at position \<open>i\<close> after the coinbase.  The set of needed transactions is
  a list without repetitions.
\<close>

definition fetch_input ::
  "'x crypto_scheme \<Rightarrow> MsgBlock \<Rightarrow> nat \<Rightarrow> UtxoViewpoint \<times> bytes list \<Rightarrow> TxIn \<Rightarrow> UtxoViewpoint \<times> bytes list" where
  "fetch_input c block i st txIn =
     (case st of (view, txNeededSet) \<Rightarrow>
        let transactions = Transactions block;
            txInFlight = map_of (rev (map (\<lambda>(i, tx). (txid c tx, i)) (enumerate 0 transactions)));
            originHash = Hash (PreviousOutPoint txIn);
            need = (if entries view originHash \<noteq> None then (view, txNeededSet) else (view, List.insert originHash txNeededSet))
        in case txInFlight originHash of
             None \<Rightarrow> need
           | Some inFlightIndex \<Rightarrow>
               if i \<ge> inFlightIndex
               then (AddTxOuts c (transactions ! inFlightIndex) (Height (Header block)) view, txNeededSet)
               else need)"

definition fetch_tx_inputs ::
  "'x crypto_scheme \<Rightarrow> MsgBlock \<Rightarrow> UtxoViewpoint \<times> bytes list \<Rightarrow> nat \<times> MsgTx \<Rightarrow> UtxoViewpoint \<times> bytes list" where
  "fetch_tx_inputs c block st x = (case x of (i, tx) \<Rightarrow> foldl (fetch_input c block i) st (TxIn tx))"

definition fetchInputUtxos :: "'x crypto_scheme \<Rightarrow> bucket \<Rightarrow> MsgBlock \<Rightarrow> UtxoViewpoint \<Rightarrow> UtxoViewpoint cres" where
  "fetchInputUtxos c utxoBucket block view =
     (if Transactions block = [] then Inl (Lower Panic)
      else
        let (view, txNeededSet) = foldl (fetch_tx_inputs c block) (view, []) (enumerate 0 (drop 1 (Transactions block)))
        in fetchUtxosMain utxoBucket txNeededSet view)"

definition FetchUtxoView :: "'x crypto_scheme \<Rightarrow> bucket \<Rightarrow> MsgTx \<Rightarrow> UtxoViewpoint cres" where
  "FetchUtxoView c utxoBucket tx =
     (let txNeededSet = [txid c tx];
          txNeededSet = (if \<not> IsCoinBaseTx tx then foldl (\<lambda>s txIn. List.insert (Hash (PreviousOutPoint txIn)) s) txNeededSet (TxIn tx)
                         else txNeededSet)
      in fetchUtxosMain utxoBucket txNeededSet NewUtxoViewpoint)"

section \<open>Reading outputs back\<close>

text \<open>
  An output that can be stored: the amount is in the range of supplies, and the script is not a
  pay-to-pubkey script with an uncompressed key; if it is compressed already, then from such an
  output.
\<close>

definition plain_ok :: "int \<Rightarrow> bytes \<Rightarrow> bool" where
  "plain_ok a s \<longleftrightarrow> 0 \<le> a \<and> a < 2 ^ 60 \<and> length s < 2 ^ 32 \<and> (length s = 67 \<longrightarrow> isPubKey s = None)"

definition storable :: "utxoOutput \<Rightarrow> bool" where
  "storable out \<longleftrightarrow>
     (if uo_compressed out
      then \<exists>a s. plain_ok a s \<and> uo_amount out = to_int64 (int (compressTxOutAmount (nat a))) \<and> uo_pkScript out = putCompressedScript s
      else plain_ok (uo_amount out) (uo_pkScript out))"

abbreviation put_out :: "utxoOutput \<Rightarrow> bytes" where
  "put_out out \<equiv> putCompressedTxOut (uint64 (uo_amount out)) (uo_pkScript out) (uo_compressed out)"

lemma uint64_to_int64: "n < 2 ^ 64 \<Longrightarrow> uint64 (to_int64 (int n)) = n"
proof -
  assume "n < 2 ^ 64"
  then have "int n mod 2 ^ 64 = int n" by simp
  moreover have "to_int64 (int n) mod 2 ^ 64 = int n mod 2 ^ 64" by (simp add: to_int64_def mod_simps)
  ultimately show ?thesis by (simp add: uint64_def)
qed

lemma int32_uint64:
  assumes "in_int32 v"
  shows "uint64 v < 2 ^ 64" "to_int32 (int (uint64 v)) = v"
proof -
  show "uint64 v < 2 ^ 64" by (simp add: nat_less_iff uint64_def)
  have "(v mod 2 ^ 64 + 2 ^ 31) mod 2 ^ 32 = (v + 2 ^ 31) mod (2 ^ 32 :: int)"
    by (metis (no_types, opaque_lifting) mod_add_left_eq mod_mod_cancel le_imp_power_dvd numeral_le_iff semiring_norm(68,71,72))
  then show "to_int32 (int (uint64 v)) = v" using assms by (simp add: to_int32_def in_int32_def uint64_def)
qed

lemma put_out_read:
  assumes "storable out"
  shows "out_ok out" and "put_out out \<noteq> []" and "\<exists>out'. storable out' \<and> \<not> uo_spent out' \<and> uo_compressed out' \<and> read_out out' = read_out out \<and>
    (\<forall>t. \<exists>ca. decodeCompressedTxOut (put_out out @ t) = Inr (ca, uo_pkScript out', length (put_out out)) \<and> to_int64 (int ca) = uo_amount out')"
proof -
  obtain a s where as: "plain_ok a s" "put_out out = putVLQ (compressTxOutAmount (nat a)) @ putCompressedScript s"
      "out_ok out" "read_out out = (a, s)"
  proof (cases "uo_compressed out")
    case True
    then obtain a s where as: "plain_ok a s" "uo_amount out = to_int64 (int (compressTxOutAmount (nat a)))" "uo_pkScript out = putCompressedScript s"
      using assms by (auto simp: storable_def)
    then have "nat a < 2 ^ 60" "length s < 2 ^ 32" "length s = 67 \<longrightarrow> isPubKey s = None" by (auto simp: plain_ok_def)
    note d = decompress_amount [OF this(1)] decompress_script [OF this(2,3)]
    have "maybeDecompress out = Inr (out\<lparr>uo_amount := a, uo_pkScript := s, uo_compressed := False\<rparr>)"
      using True as(1) d by (simp add: maybeDecompress_def as(2,3) uint64_to_int64 plain_ok_def in_int64_def)
    then show ?thesis using that [of a s] as d True by (simp add: putCompressedTxOut_def uint64_to_int64 out_ok_def read_out_def)
  next
    case False
    then have "plain_ok (uo_amount out) (uo_pkScript out)" using assms by (simp add: storable_def)
    moreover from this have "uint64 (uo_amount out) = nat (uo_amount out)" by (simp add: plain_ok_def uint64_def)
    ultimately show ?thesis using that [of "uo_amount out" "uo_pkScript out"] False
      by (simp add: putCompressedTxOut_def maybeDecompress_def out_ok_def read_out_def)
  qed
  then have l: "nat a < 2 ^ 60" "length s < 2 ^ 32" "length s = 67 \<longrightarrow> isPubKey s = None" by (auto simp: plain_ok_def)
  note d = decompress_amount [OF l(1)] decompress_script [OF l(2,3)]
  show "out_ok out" by (rule as(3))
  show "put_out out \<noteq> []" by (simp add: as(2) putVLQ_nonempty)
  let ?o = "\<lparr>uo_spent = False, uo_compressed = True, uo_amount = to_int64 (int (compressTxOutAmount (nat a))), uo_pkScript = putCompressedScript s\<rparr>"
  have "storable ?o" using as(1) by (auto simp: storable_def)
  moreover have "read_out ?o = read_out out"
    using as(1,4) d by (simp add: read_out_def maybeDecompress_def uint64_to_int64 plain_ok_def in_int64_def)
  moreover have "decodeCompressedTxOut (put_out out @ t) = Inr (compressTxOutAmount (nat a), putCompressedScript s, length (put_out out))" for t
    using putCompressedTxOut_read [OF d(2) l(2), of t] by (simp add: as(2))
  ultimately show "\<exists>out'. storable out' \<and> \<not> uo_spent out' \<and> uo_compressed out' \<and> read_out out' = read_out out \<and>
    (\<forall>t. \<exists>ca. decodeCompressedTxOut (put_out out @ t) = Inr (ca, uo_pkScript out', length (put_out out)) \<and> to_int64 (int ca) = uo_amount out')"
    by (intro exI [of _ ?o]) simp
qed

subsection \<open>Spent outputs\<close>

lemma header_code:
  "spentTxOutHeaderCode s < 2 ^ 64" "spentTxOutHeaderCode s = 0 \<longleftrightarrow> st_height s = 0"
  "st_height s \<noteq> 0 \<Longrightarrow> (spentTxOutHeaderCode s AND 0x01 \<noteq> 0) = st_isCoinBase s"
  "st_height s \<noteq> 0 \<Longrightarrow> word_of_nat (drop_bit 1 (spentTxOutHeaderCode s)) = st_height s"
proof -
  define h where "h = unat (st_height s)"
  have h: "h < 2 ^ 32" "h = 0 \<longleftrightarrow> st_height s = 0" "word_of_nat h = st_height s"
    using unsigned_less [of "st_height s"] by (auto simp: h_def unat_eq_0)
  have code: "spentTxOutHeaderCode s = (if h = 0 then 0 else 2 * h + (if st_isCoinBase s then 1 else 0))"
    using h(2) by (simp add: spentTxOutHeaderCode_def h_def [symmetric] push_bit_eq_mult or_Suc_0_eq)
  show "spentTxOutHeaderCode s < 2 ^ 64" "spentTxOutHeaderCode s = 0 \<longleftrightarrow> st_height s = 0" using h by (simp_all add: code)
  assume "st_height s \<noteq> 0"
  then show "(spentTxOutHeaderCode s AND 0x01 \<noteq> 0) = st_isCoinBase s" "word_of_nat (drop_bit 1 (spentTxOutHeaderCode s)) = st_height s"
    using h by (simp_all add: code and_Suc_0_eq drop_bit_Suc)
qed

text \<open>
  Reading a stored spent output: the version, height and coinbase flag come from the record when
  it has a height, and otherwise the version from the caller.
\<close>

lemma decodeSpentTxOut_put:
  assumes "storable (stxo_out s)" and "in_int32 (st_version s)"
  shows "\<exists>s'. storable (stxo_out s') \<and> read_out (stxo_out s') = read_out (stxo_out s) \<and>
    stxo_meta s' = (if st_height s = 0 then (txVersion, False, 0) else stxo_meta s) \<and>
    (\<forall>t. decodeSpentTxOut (putSpentTxOut s @ t) txVersion =
       (if st_height s = 0 \<and> txVersion = 0 then Inl AssertErr else Inr (s', length (putSpentTxOut s))))"
proof -
  obtain out where out: "storable out" "\<not> uo_spent out" "uo_compressed out" "read_out out = read_out (stxo_out s)"
      "\<And>t. \<exists>ca. decodeCompressedTxOut (put_out (stxo_out s) @ t) = Inr (ca, uo_pkScript out, length (put_out (stxo_out s))) \<and>
        to_int64 (int ca) = uo_amount out"
    using put_out_read(3) [OF assms(1)] by auto
  have ne: "put_out (stxo_out s) \<noteq> []" by (rule put_out_read(2) [OF assms(1)])
  have v: "uint64 (st_version s) < 2 ^ 64" and v32: "to_int32 (int (uint64 (st_version s))) = st_version s"
    using int32_uint64 [OF assms(2)] by auto
  define s' where "s' = \<lparr>st_compressed = True, st_version = (if st_height s = 0 then txVersion else st_version s),
      st_amount = uo_amount out, st_pkScript = uo_pkScript out, st_height = st_height s,
      st_isCoinBase = (if st_height s = 0 then False else st_isCoinBase s)\<rparr>"
  have "stxo_out s' = out" using out(2,3) by (simp add: s'_def stxo_out_def)
  moreover have "decodeSpentTxOut (putSpentTxOut s @ t) txVersion =
      (if st_height s = 0 \<and> txVersion = 0 then Inl AssertErr else Inr (s', length (putSpentTxOut s)))" for t
  proof -
    let ?p = "put_out (stxo_out s)" and ?c = "spentTxOutHeaderCode s"
    have put: "putSpentTxOut s = putVLQ ?c @ (if ?c \<noteq> 0 then putVLQ (uint64 (st_version s)) else []) @ ?p"
      by (simp add: putSpentTxOut_def stxo_out_def Let_def)
    obtain ca where ca: "decodeCompressedTxOut (?p @ t) = Inr (ca, uo_pkScript out, length ?p)" "to_int64 (int ca) = uo_amount out"
      using out(5) [of t] by blast
    have "decode_stxo_header (putSpentTxOut s @ t) txVersion =
        (if st_height s = 0 \<and> txVersion = 0 then Inl AssertErr
         else Inr (length (putSpentTxOut s) - length ?p, st_version s', st_isCoinBase s', st_height s'))"
      using putVLQ_read [OF header_code(1), of s "putVLQ (uint64 (st_version s)) @ ?p @ t"]
        putVLQ_read [OF header_code(1), of s "?p @ t"] putVLQ_read [OF v, of "?p @ t"] ne v32
        header_code(2-4) [of s] putVLQ_nonempty [of ?c]
      by (simp add: decode_stxo_header_def put s'_def)
    moreover have "drop (length (putSpentTxOut s) - length ?p) (putSpentTxOut s @ t) = ?p @ t" by (simp add: put)
    moreover have "length ?p \<le> length (putSpentTxOut s)" by (simp add: put)
    ultimately show ?thesis using ca by (simp add: decodeSpentTxOut_def wrapE_def s'_def)
  qed
  ultimately show ?thesis using out(1,4) by (intro exI [of _ s']) (simp add: s'_def)
qed

text \<open>
  A journal that can be read back with the help of a view: \<open>ver\<close> is the version of the
  transactions spent from, and a record without a height needs the transaction in the view or a
  later record for the same transaction.
\<close>

abbreviation origin :: "TxIn \<Rightarrow> bytes" where "origin txIn \<equiv> Hash (PreviousOutPoint txIn)"

fun readable :: "UtxoViewpoint \<Rightarrow> (bytes \<Rightarrow> int) \<Rightarrow> TxIn list \<Rightarrow> spentTxOut list \<Rightarrow> bool" where
  "readable view ver [] [] \<longleftrightarrow> True"
| "readable view ver (txIn # ins) (s # ss) \<longleftrightarrow>
     storable (stxo_out s) \<and> in_int32 (st_version s) \<and> st_version s = ver (origin txIn) \<and> st_version s \<noteq> 0 \<and>
     (case LookupEntry view (origin txIn) of None \<Rightarrow> True | Some e \<Rightarrow> ue_version e = ver (origin txIn)) \<and>
     (st_height s = 0 \<longrightarrow> \<not> st_isCoinBase s \<and> (LookupEntry view (origin txIn) \<noteq> None \<or> origin txIn \<in> origin ` set ins)) \<and>
     readable view ver ins ss"
| "readable view ver _ _ \<longleftrightarrow> False"

lemma readable_length: "readable view ver ins ss \<Longrightarrow> length ss = length ins"
  by (induction view ver ins ss rule: readable.induct) auto

text \<open>The state of the reader when the records of the inputs \<open>ins\<close> are read and \<open>n\<close> are left.\<close>

definition reader_inv ::
  "UtxoViewpoint \<Rightarrow> (bytes \<Rightarrow> int) \<Rightarrow> nat \<Rightarrow> TxIn list \<Rightarrow> spentTxOut list \<Rightarrow> nat \<times> (bytes \<rightharpoonup> nat) \<times> nat \<times> spentTxOut list \<Rightarrow> bool" where
  "reader_inv view ver n ins ss st \<longleftrightarrow>
     (\<exists>infl ss'. st = (n, infl, length (concat (map putSpentTxOut (rev ss))), replicate n zero_stxo @ ss') \<and> list_all2 same_stxo ss ss' \<and>
        (\<forall>h idx. infl h = Some idx \<longrightarrow> n \<le> idx \<and> idx < n + length ss' \<and> st_version (ss' ! (idx - n)) = ver h) \<and>
        (\<forall>h \<in> origin ` set ins. LookupEntry view h \<noteq> None \<or> infl h \<noteq> None))"

lemma read_stxo_step:
  assumes "readable view ver (txIn # ins) (s # ss)" and "reader_inv view ver (Suc n) ins ss st"
    and "serialized = concat (map putSpentTxOut (rev ss)) @ putSpentTxOut s @ rest"
  shows "\<exists>st'. read_stxo serialized view st txIn = Inr st' \<and> reader_inv view ver n (txIn # ins) (s # ss) st'"
proof -
  define h where "h = origin txIn"
  obtain infl ss' where st0: "st = (Suc n, infl, length (concat (map putSpentTxOut (rev ss))), replicate (Suc n) zero_stxo @ ss') \<and>
      list_all2 same_stxo ss ss' \<and>
      (\<forall>h idx. infl h = Some idx \<longrightarrow> Suc n \<le> idx \<and> idx < Suc n + length ss' \<and> st_version (ss' ! (idx - Suc n)) = ver h) \<and>
      (\<forall>h \<in> origin ` set ins. LookupEntry view h \<noteq> None \<or> infl h \<noteq> None)"
    using assms(2) unfolding reader_inv_def by (elim exE)
  note st = st0 [THEN conjunct1] st0 [THEN conjunct2, THEN conjunct1] st0 [THEN conjunct2, THEN conjunct2, THEN conjunct1, rule_format]
    st0 [THEN conjunct2, THEN conjunct2, THEN conjunct2, rule_format]
  define tv where "tv = (case LookupEntry view h of Some e \<Rightarrow> ue_version e | None \<Rightarrow> (case infl h of Some _ \<Rightarrow> ver h | None \<Rightarrow> 0))"
  define infl' where "infl' = (if LookupEntry view h = None \<and> infl h = None then infl(h \<mapsto> n) else infl)"
  have s: "storable (stxo_out s)" "in_int32 (st_version s)" "st_version s = ver h" "st_version s \<noteq> 0"
      "case LookupEntry view h of None \<Rightarrow> True | Some e \<Rightarrow> ue_version e = ver h"
      "st_height s = 0 \<Longrightarrow> \<not> st_isCoinBase s \<and> (LookupEntry view h \<noteq> None \<or> h \<in> origin ` set ins)"
    using assms(1) unfolding h_def readable.simps by blast+
  have tv: "st_height s = 0 \<Longrightarrow> tv = ver h \<and> tv \<noteq> 0"
    using s(3-6) st(4) [of h] by (auto simp: tv_def split: option.splits)
  obtain s' where s': "storable (stxo_out s')" "read_out (stxo_out s') = read_out (stxo_out s)"
      "stxo_meta s' = (if st_height s = 0 then (tv, False, 0) else stxo_meta s)"
      "\<And>t. decodeSpentTxOut (putSpentTxOut s @ t) tv = (if st_height s = 0 \<and> tv = 0 then Inl AssertErr else Inr (s', length (putSpentTxOut s)))"
    using decodeSpentTxOut_put [OF s(1,2), of tv] by blast
  have "stxo_meta s' = stxo_meta s" using s'(3) tv s(3,6) by (cases "st_height s = 0") simp_all
  then have same: "same_stxo s s'" "st_version s' = ver h"
    using s'(2) s(3) put_out_read(1) [OF s'(1)] by (simp_all add: same_stxo_def)
  have idx: "infl h = Some i \<Longrightarrow> st_version ((replicate (Suc n) zero_stxo @ ss') ! i) = ver h" for i
    using st(3) [of h i] by (simp add: nth_append del: replicate_Suc)
  let ?a = "replicate (Suc n) zero_stxo @ ss'"
  have "(case LookupEntry view h of Some entry \<Rightarrow> (ue_version entry, infl)
      | None \<Rightarrow> (case infl h of Some idx \<Rightarrow> (st_version (?a ! idx), infl) | None \<Rightarrow> (0, infl(h \<mapsto> n)))) = (tv, infl')"
    using idx by (cases "LookupEntry view h"; cases "infl h") (simp_all add: tv_def infl'_def)
  moreover have "decodeSpentTxOut (drop (length (concat (map putSpentTxOut (rev ss)))) serialized) tv = Inr (s', length (putSpentTxOut s))"
    using s'(4) [of rest] tv by (auto simp: assms(3))
  ultimately have "read_stxo serialized view st txIn =
      Inr (n, infl', length (concat (map putSpentTxOut (rev ss))) + length (putSpentTxOut s), ?a[n := s'])"
    by (simp add: read_stxo_def st(1) h_def [symmetric] wrapE_def del: replicate_Suc)
  moreover have "(replicate (Suc n) zero_stxo @ ss')[n := s'] = replicate n zero_stxo @ s' # ss'"
  proof -
    have "replicate (Suc n) zero_stxo = replicate n zero_stxo @ [zero_stxo]" by (simp add: replicate_append_same)
    then show ?thesis by (simp only: list_update_append) simp
  qed
  moreover have "reader_inv view ver n (txIn # ins) (s # ss)
      (n, infl', length (concat (map putSpentTxOut (rev (s # ss)))), replicate n zero_stxo @ s' # ss')"
    unfolding reader_inv_def
  proof (rule exI [of _ infl'], rule exI [of _ "s' # ss'"], intro conjI allI impI ballI)
    show "list_all2 same_stxo (s # ss) (s' # ss')" using st(2) same by simp
    fix h' idx assume "infl' h' = Some idx"
    then have "h' = h \<and> idx = n \<or> infl h' = Some idx" by (auto simp: infl'_def split: if_splits)
    then have *: "n \<le> idx \<and> idx < n + length (s' # ss') \<and> st_version ((s' # ss') ! (idx - n)) = ver h'"
    proof
      assume "infl h' = Some idx"
      with st(3) [of h' idx] obtain k where "idx = Suc n + k" "k < length ss'" "st_version (ss' ! k) = ver h'"
        by (metis add_diff_cancel_left' le_Suc_ex nat_add_left_cancel_less)
      then show ?thesis by simp
    qed (use same(2) in simp)
    show "n \<le> idx" "idx < n + length (s' # ss')" "st_version ((s' # ss') ! (idx - n)) = ver h'" using * by blast+
  next
    fix h' assume "h' \<in> origin ` set (txIn # ins)"
    then show "LookupEntry view h' \<noteq> None \<or> infl' h' \<noteq> None"
      using st(4) [of h'] by (cases "h' = h") (auto simp: infl'_def h_def)
  qed simp_all
  ultimately show ?thesis by simp
qed

lemma read_stxos:
  assumes "readable view ver ins ss" and "serialized = concat (map putSpentTxOut (rev ss)) @ rest"
  shows "\<exists>st. foldE (read_stxo serialized view) (n + length ins, Map.empty, 0, replicate (n + length ins) zero_stxo) (rev ins) = Inr st \<and>
    reader_inv view ver n ins ss st"
  using assms
proof (induction ins arbitrary: ss n rest)
  case Nil
  then show ?case by (cases ss) (auto simp: reader_inv_def)
next
  case (Cons txIn ins)
  then obtain s ss' where ss: "ss = s # ss'" by (cases ss) auto
  have r: "readable view ver ins ss'" using Cons.prems(1) by (simp add: ss)
  have ser: "serialized = concat (map putSpentTxOut (rev ss')) @ putSpentTxOut s @ rest" using Cons.prems(2) by (simp add: ss)
  obtain st where st: "foldE (read_stxo serialized view) (Suc n + length ins, Map.empty, 0, replicate (Suc n + length ins) zero_stxo) (rev ins) = Inr st"
      "reader_inv view ver (Suc n) ins ss' st"
    using Cons.IH [OF r ser, of "Suc n"] by blast
  from read_stxo_step [OF Cons.prems(1) [unfolded ss] st(2) ser] st(1) show ?case
    by (auto simp: foldE_append ss)
qed

lemma rev_inputs: "concat (map (\<lambda>tx. rev (TxIn tx)) (rev txns)) = rev (concat (map TxIn txns))"
  by (induction txns) auto

text \<open>
  C32. The journal of spent outputs survives the database: what is written for a block is read back
  as a journal that has the same amounts, scripts, versions, heights and coinbase flags, if every
  output can be stored, the versions of the transactions spent from are not 0 and agree with the
  view, and every record without a height is for a transaction that is in the view or has a later
  record.
\<close>

theorem spend_journal_roundtrip:
  assumes "readable view ver (concat (map TxIn txns)) stxos"
  shows "\<exists>stxos'. deserializeSpendJournalEntry (serializeSpendJournalEntry stxos) txns view = Inr stxos' \<and> list_all2 same_stxo stxos stxos'"
proof (cases "stxos = []")
  case True
  then have "concat (map TxIn txns) = []" using assms by (cases "concat (map TxIn txns)") auto
  then have "sum_list (map (\<lambda>tx. length (TxIn tx)) txns) = 0" by simp
  then show ?thesis using True by (simp add: deserializeSpendJournalEntry_def serializeSpendJournalEntry_def Let_def)
next
  case False
  then obtain s ss where s: "stxos = ss @ [s]" by (cases stxos rule: rev_cases) auto
  have n: "sum_list (map (\<lambda>tx. length (TxIn tx)) txns) = length (concat (map TxIn txns))" by (simp add: length_concat comp_def)
  have "serializeSpendJournalEntry stxos \<noteq> []"
    by (simp add: serializeSpendJournalEntry_def s putSpentTxOut_def Let_def putVLQ_nonempty)
  moreover obtain st where "foldE (read_stxo (serializeSpendJournalEntry stxos) view)
      (length (concat (map TxIn txns)), Map.empty, 0, replicate (length (concat (map TxIn txns))) zero_stxo) (rev (concat (map TxIn txns))) = Inr st"
      "reader_inv view ver 0 (concat (map TxIn txns)) stxos st"
    using read_stxos [OF assms, of "serializeSpendJournalEntry stxos" "[]" 0] by (auto simp: serializeSpendJournalEntry_def)
  ultimately show ?thesis
    by (auto simp: deserializeSpendJournalEntry_def Let_def rev_inputs n reader_inv_def)
qed

definition example_stxo :: "32 word \<Rightarrow> spentTxOut" where
  "example_stxo h = \<lparr>st_compressed = False, st_version = 1, st_amount = 9, st_pkScript = [0x51], st_height = h, st_isCoinBase = True\<rparr>"

theorem spend_journal_roundtrip_witness:
  "\<exists>stxos'. deserializeSpendJournalEntry (serializeSpendJournalEntry [example_stxo 3]) [example_tx] NewUtxoViewpoint = Inr stxos' \<and>
     list_all2 same_stxo [example_stxo 3] stxos'"
proof (rule spend_journal_roundtrip [of _ "\<lambda>_. 1"])
  show "readable NewUtxoViewpoint (\<lambda>_. 1) (concat (map TxIn [example_tx])) [example_stxo 3]"
    by (simp add: example_tx_def example_stxo_def stxo_out_def storable_def plain_ok_def in_int32_def LookupEntry_def NewUtxoViewpoint_def)
qed

lemma read_stxo_in_flight:
  "read_stxo serialized view (n, infl, off, ss) txIn = Inr (n', infl', off', ss') \<Longrightarrow> dom infl' \<subseteq> dom infl \<union> {origin txIn}"
  by (auto simp: read_stxo_def Let_def bindE_eq_Inr split: option.splits if_splits)

lemma read_stxos_in_flight:
  "foldE (read_stxo serialized view) (n, infl, off, ss) ins = Inr (n', infl', off', ss') \<Longrightarrow> dom infl' \<subseteq> dom infl \<union> origin ` set ins"
proof (induction ins arbitrary: n infl off ss)
  case (Cons txIn ins)
  then obtain n1 infl1 off1 ss1 where 1: "read_stxo serialized view (n, infl, off, ss) txIn = Inr (n1, infl1, off1, ss1)"
      "foldE (read_stxo serialized view) (n1, infl1, off1, ss1) ins = Inr (n', infl', off', ss')"
    by (auto simp: bindE_eq_Inr)
  show ?case using read_stxo_in_flight [OF 1(1)] Cons.IH [OF 1(2)] by simp blast
qed simp

text \<open>A record of height 0 has header code 0, and cannot be read without a version.\<close>

lemma decode_height_zero:
  assumes "st_height s = 0"
  shows "wrapE ErrDeserialize (decodeSpentTxOut (putSpentTxOut s @ rest) 0) = Inl ErrDeserialize"
proof -
  have "putSpentTxOut s @ rest \<noteq> []" "deserializeVLQ (putSpentTxOut s @ rest) = (0, 1)"
    using putVLQ_read [of 0] header_code(2) [of s] assms putVLQ_nonempty [of 0] by (simp_all add: putSpentTxOut_def Let_def putVLQ_step)
  then show ?thesis by (simp add: decodeSpentTxOut_def decode_stxo_header_def wrapE_def)
qed

text \<open>
  C33. A block that spends the last output of a transaction at height 0 cannot be disconnected: the
  record that spending makes has height 0, which the journal takes to mean that there is no
  height, so that reading the journal back for a view without the transaction fails.  The input may
  be anywhere in the block; the inputs after it spend from other transactions, since none of
  its outputs is left, and their records can be read.  The outputs of the coinbase of the genesis
  block, the tips of the admin threads, are at height 0 and are spendable.
\<close>

theorem spent_at_height_zero:
  assumes "LookupEntry v (origin txIn) = Some e" and "ue_blockHeight e = 0" and "LookupEntry w (origin txIn) = None"
    and "spend_input (v, Some stxos) txIn = Inr (v', Some stxos')"
    and "concat (map TxIn txns) = ins @ txIn # later" and "origin txIn \<notin> origin ` set later" and "readable w ver later ss"
  shows "deserializeSpendJournalEntry (serializeSpendJournalEntry (stxos' @ ss)) txns w = Inl ErrDeserialize"
proof -
  have "ue_blockHeight (SpendOutput i e) = 0" for i using assms(2) by (simp add: SpendOutput_def split: option.splits)
  with assms(1,4) obtain s where s: "stxos' = stxos @ [s]" "st_height s = 0"
    by (auto simp: spend_input_def Let_def bindE_eq_Inr)
  let ?b = "serializeSpendJournalEntry (stxos' @ ss)" and ?n = "Suc (length ins)"
  define rest where "rest = concat (map putSpentTxOut (rev stxos))"
  have b: "?b = concat (map putSpentTxOut (rev ss)) @ putSpentTxOut s @ rest" by (simp add: serializeSpendJournalEntry_def s(1) rest_def)
  have ne: "?b \<noteq> []" by (simp add: b putSpentTxOut_def Let_def putVLQ_nonempty)
  obtain infl ss' where run: "foldE (read_stxo ?b w) (?n + length later, Map.empty, 0, replicate (?n + length later) zero_stxo) (rev later) =
      Inr (?n, infl, length (concat (map putSpentTxOut (rev ss))), ss')"
    using read_stxos [OF assms(7) b, of ?n] by (auto simp: reader_inv_def)
  have "infl (origin txIn) = None" using read_stxos_in_flight [OF run] assms(6) by auto
  then have "read_stxo ?b w (?n, infl, length (concat (map putSpentTxOut (rev ss))), ss') txIn = Inl ErrDeserialize"
    using assms(3) decode_height_zero [OF s(2), of rest] by (simp add: read_stxo_def b)
  moreover have "sum_list (map (\<lambda>tx. length (TxIn tx)) txns) = ?n + length later"
    using arg_cong [OF assms(5), of length] by (simp add: length_concat comp_def)
  moreover have "rev (concat (map TxIn txns)) = rev later @ txIn # rev ins" by (simp add: assms(5))
  ultimately show ?thesis
    using ne run by (simp only: deserializeSpendJournalEntry_def Let_def rev_inputs) (simp add: foldE_append)
qed

definition genesis_utxos :: UtxoViewpoint where
  "genesis_utxos = set_entry (replicate 32 5) ((newUtxoEntry 1 True 0)\<lparr>sparseOutputs := [(0, stxo_out (example_stxo 0))]\<rparr>) NewUtxoViewpoint"

lemma genesis_utxos_lookup:
  "LookupEntry genesis_utxos (replicate 32 5) = Some ((newUtxoEntry 1 True 0)\<lparr>sparseOutputs := [(0, stxo_out (example_stxo 0))]\<rparr>)"
  by (simp add: genesis_utxos_def)

theorem spent_at_height_zero_witness:
  "\<exists>v' stxos'. spend_input (genesis_utxos, Some []) (TxIn example_tx ! 0) = Inr (v', Some stxos') \<and>
    deserializeSpendJournalEntry (serializeSpendJournalEntry stxos') [example_tx] NewUtxoViewpoint = Inl ErrDeserialize"
proof -
  have o: "PreviousOutPoint (TxIn example_tx ! 0) = \<lparr>Hash = replicate 32 5, Index = 0\<rparr>" "TxIn example_tx = [] @ [TxIn example_tx ! 0]"
    by (simp_all add: example_tx_def)
  have l: "LookupEntry genesis_utxos (origin (TxIn example_tx ! 0)) = Some ((newUtxoEntry 1 True 0)\<lparr>sparseOutputs := [(0, stxo_out (example_stxo 0))]\<rparr>)"
    using genesis_utxos_lookup by (simp only: o(1) OutPoint.simps)
  have ok: "view_ok genesis_utxos"
    by (simp add: genesis_utxos_def view_ok_def LookupEntry_def NewUtxoViewpoint_def entry_ok_def stxo_out_def out_ok_def maybeDecompress_def example_stxo_def)
  have "led_coin (utxo_ledger genesis_utxos) (PreviousOutPoint (TxIn example_tx ! 0)) = Some (9, [0x51])"
    by (simp add: led_coin_def utxo_ledger_def o(1) genesis_utxos_lookup with_coins_def entry_coins_def stxo_out_def read_out_def
        maybeDecompress_def example_stxo_def fun_eq_iff)
  from spend_input_ledger [OF ok this, of "[]"] obtain v' s where run: "spend_input (genesis_utxos, Some []) (TxIn example_tx ! 0) = Inr (v', Some [s])"
    by auto
  have "ue_blockHeight ((newUtxoEntry 1 True 0)\<lparr>sparseOutputs := [(0, stxo_out (example_stxo 0))]\<rparr>) = 0" by (simp add: newUtxoEntry_def)
  moreover have "LookupEntry NewUtxoViewpoint h = None" for h by (simp add: LookupEntry_def NewUtxoViewpoint_def)
  ultimately have "deserializeSpendJournalEntry (serializeSpendJournalEntry ([s] @ [])) [example_tx] NewUtxoViewpoint = Inl ErrDeserialize"
    by (rule spent_at_height_zero [OF l _ _ run, where ins = "[]" and later = "[]"]) (use o(2) in simp_all)
  with run show ?thesis by auto
qed

subsection \<open>Entries\<close>

text \<open>The outputs are read back one after the other.\<close>

lemma read_utxos:
  assumes "serialized = pre @ concat (map (\<lambda>(_, out). put_out out) xs) @ rest"
    and "list_all (\<lambda>(_, out). storable out) xs" and "distinct (map fst (sparseOutputs e) @ map fst xs)"
  shows "\<exists>outs n. foldE (read_utxo serialized) (length pre, e) (map fst xs) =
      Inr (n, e\<lparr>sparseOutputs := sparseOutputs e @ zip (map fst xs) outs\<rparr>) \<and>
    list_all2 (\<lambda>(_, out) out'. storable out' \<and> \<not> uo_spent out' \<and> read_out out' = read_out out) xs outs"
  using assms
proof (induction xs arbitrary: pre e)
  case Nil
  then show ?case by (intro exI [of _ "[]"]) simp
next
  case (Cons x xs)
  obtain i out where x: "x = (i, out)" by fastforce
  obtain out' where out': "storable out'" "\<not> uo_spent out'" "uo_compressed out'" "read_out out' = read_out out"
      "\<And>t. \<exists>ca. decodeCompressedTxOut (put_out out @ t) = Inr (ca, uo_pkScript out', length (put_out out)) \<and> to_int64 (int ca) = uo_amount out'"
    using put_out_read(3) [of out] Cons.prems(2) by (auto simp: x)
  obtain ca where ca: "decodeCompressedTxOut (put_out out @ concat (map (\<lambda>(_, out). put_out out) xs) @ rest) = Inr (ca, uo_pkScript out', length (put_out out))"
      "to_int64 (int ca) = uo_amount out'"
    using out'(5) by blast
  have o: "\<lparr>uo_spent = False, uo_compressed = True, uo_amount = uo_amount out', uo_pkScript = uo_pkScript out'\<rparr> = out'"
    using out'(2,3) by (cases out') simp
  let ?e = "e\<lparr>sparseOutputs := sparseOutputs e @ [(i, out')]\<rparr>"
  have step: "read_utxo serialized (length pre, e) i = Inr (length (pre @ put_out out), ?e)"
    using ca Cons.prems(1,3) by (simp add: read_utxo_def x wrapE_def o AList_update_new)
  obtain outs n where "foldE (read_utxo serialized) (length (pre @ put_out out), ?e) (map fst xs) =
      Inr (n, ?e\<lparr>sparseOutputs := sparseOutputs ?e @ zip (map fst xs) outs\<rparr>)"
    "list_all2 (\<lambda>(_, out) out'. storable out' \<and> \<not> uo_spent out' \<and> read_out out' = read_out out) xs outs"
    using Cons.IH [of "pre @ put_out out" ?e] Cons.prems by (auto simp: x)
  then show ?case using step out' by (intro exI [of _ "out' # outs"] exI [of _ n]) (simp add: x)
qed

text \<open>The bitmap has the bits of the unspent outputs from the third on.\<close>

lemma unspentness_bit:
  assumes "j < 8"
  shows "bit (unspentness_byte e i) j \<longleftrightarrow> \<not> IsOutputSpent e (word_of_nat (2 + 8 * i + j))"
proof -
  have "bit (foldl (\<lambda>b j. if P j then b OR push_bit j 1 else b) b0 xs) j \<longleftrightarrow> bit b0 j \<or> P j \<and> j \<in> set xs"
    for P xs and b0 :: byte
    using assms by (induction xs arbitrary: b0) (auto simp: bit_simps bit_push_bit_iff)
  from this [of "\<lambda>j. \<not> IsOutputSpent e (2 + word_of_nat i * 8 + word_of_nat j)" 0 "[0..<8]"] assms
  show ?thesis by (simp add: unspentness_byte_def ac_simps)
qed

lemma bitmap_indexes_unspent:
  "bitmap_indexes i (unspentness_byte e i) =
     map word_of_nat (filter (\<lambda>k. \<not> IsOutputSpent e (word_of_nat k)) [2 + 8 * i..<2 + 8 * Suc i])"
proof -
  have "filter (\<lambda>j. drop_bit j (unspentness_byte e i) AND 0x01 \<noteq> 0) [0..<8] =
      filter (\<lambda>j. \<not> IsOutputSpent e (word_of_nat (2 + 8 * i + j))) [0..<8]"
  proof (rule filter_cong [OF refl])
    fix j assume "j \<in> set [0..<8]"
    then have "bit (unspentness_byte e i) j \<longleftrightarrow> \<not> IsOutputSpent e (word_of_nat (2 + 8 * i + j))" by (intro unspentness_bit) simp
    then show "drop_bit j (unspentness_byte e i) AND 0x01 \<noteq> 0 \<longleftrightarrow> \<not> IsOutputSpent e (word_of_nat (2 + 8 * i + j))"
      unfolding bit_iff_odd_drop_bit by (simp only: and_one_eq odd_iff_mod_2_eq_one) simp
  qed
  moreover have "[2 + 8 * i..<2 + 8 * Suc i] = map (\<lambda>j. 2 + 8 * i + j) [0..<8]"
    using map_add_upt [of "2 + 8 * i" 8] by (simp add: add.commute)
  ultimately show ?thesis by (simp add: bitmap_indexes_def filter_map comp_def mult.commute)
qed

lemma all_indexes:
  "(if \<not> IsOutputSpent e 0 then [0] else []) @ (if \<not> IsOutputSpent e 1 then [1] else []) @
     concat (map (\<lambda>i. bitmap_indexes i (unspentness_byte e i)) [0..<n]) =
   map word_of_nat (filter (\<lambda>k. \<not> IsOutputSpent e (word_of_nat k)) [0..<2 + 8 * n])"
proof (induction n)
  case (Suc n)
  have "[0..<2 + 8 * Suc n] = [0..<2 + 8 * n] @ [2 + 8 * n..<2 + 8 * Suc n]"
    using upt_add_eq_append [of 0 "2 + 8 * n" 8] by (simp add: ac_simps del: upt_Suc)
  then have "map word_of_nat (filter (\<lambda>k. \<not> IsOutputSpent e (word_of_nat k)) [0..<2 + 8 * Suc n]) =
      map word_of_nat (filter (\<lambda>k. \<not> IsOutputSpent e (word_of_nat k)) [0..<2 + 8 * n]) @ bitmap_indexes n (unspentness_byte e n)"
    by (simp only: bitmap_indexes_unspent filter_append map_append)
  also have "\<dots> = (if \<not> IsOutputSpent e 0 then [0] else []) @ (if \<not> IsOutputSpent e 1 then [1] else []) @
     concat (map (\<lambda>i. bitmap_indexes i (unspentness_byte e i)) [0..<Suc n])"
    unfolding Suc [symmetric] by simp
  finally show ?case by (rule sym)
qed (simp add: upt_rec)

text \<open>The header code.\<close>

lemma header_code_bits:
  fixes k :: nat
  assumes "code = (let code = push_bit 3 k; code = (if a then code OR 0x01 else code); code = (if b then code OR 0x02 else code)
                   in if c then code OR 0x04 else code)"
  shows "(code AND 0x01 \<noteq> 0) = a" "(code AND 0x02 \<noteq> 0) = b" "(code AND 0x04 \<noteq> 0) = c" "drop_bit 3 code = k"
proof -
  have e: "code = push_bit 3 k OR (if a then 1 else 0) OR (if b then 2 else 0) OR (if c then 4 else 0)"
    by (simp add: assms Let_def or.assoc)
  have *: "n AND 1 \<noteq> 0 \<longleftrightarrow> bit n 0" "n AND 2 \<noteq> 0 \<longleftrightarrow> bit n 1" "n AND 4 \<noteq> 0 \<longleftrightarrow> bit n 2" for n :: nat
    using and_exp_eq_0_iff_not_bit [of n 0] and_exp_eq_0_iff_not_bit [of n 1] and_exp_eq_0_iff_not_bit [of n 2] by auto
  show "(code AND 0x01 \<noteq> 0) = a" "(code AND 0x02 \<noteq> 0) = b" "(code AND 0x04 \<noteq> 0) = c"
    unfolding * by (simp_all add: e bit_simps bit_numeral_rec)
  show "drop_bit 3 code = k" by (simp add: e drop_bit_or drop_bit_push_bit)
qed

text \<open>The unspent outputs of an entry, in the order of their indexes.\<close>

definition unspent_of :: "UtxoEntry \<Rightarrow> nat \<Rightarrow> nat list" where
  "unspent_of e n = filter (\<lambda>k. \<not> IsOutputSpent e (word_of_nat k)) [0..<2 + 8 * n]"

lemma set_unspent_of: "k \<in> set (unspent_of e n) \<longleftrightarrow> \<not> IsOutputSpent e (word_of_nat k) \<and> k < 2 + 8 * n"
  unfolding unspent_of_def set_filter set_upt by auto

lemma sorted_unspent_of: "sorted (unspent_of e n)" "distinct (unspent_of e n)"
  unfolding unspent_of_def by (intro sorted_wrt_filter sorted_upt distinct_filter distinct_upt)+

lemma put_utxos_unspent:
  assumes "entry_ok e" and "order = sort (map (\<lambda>(i, _). unat i) (sparseOutputs e))" and "\<And>k. k \<in> set order \<Longrightarrow> k < 2 + 8 * n"
    and "2 + 8 * n \<le> 2 ^ 32"
  shows "concat (map (put_utxo e) order) =
    concat (map (\<lambda>(_, out). put_out out) (map (\<lambda>k. (word_of_nat k :: 32 word, the (map_of (sparseOutputs e) (word_of_nat k)))) (unspent_of e n)))"
proof -
  let ?U = "\<lambda>k. \<not> IsOutputSpent e (word_of_nat k)"
  have in_order: "k \<in> set order \<longleftrightarrow> word_of_nat k \<in> fst ` set (sparseOutputs e)" if "k < 2 ^ 32" for k
    using that by (force simp: assms(2) image_iff case_prod_unfold unat_of_nat)
  have "distinct order"
  proof -
    have "distinct (map (\<lambda>(i, _). unat i) (sparseOutputs e))"
      using assms(1) by (auto simp: entry_ok_def distinct_map inj_on_def case_prod_unfold word_unat_eq_iff)
    then show ?thesis by (simp add: assms(2))
  qed
  moreover have "sorted order" by (simp add: assms(2))
  moreover have "set (filter ?U order) = set (unspent_of e n)"
  proof -
    have "k \<in> set order" if "?U k" "k < 2 + 8 * n" for k
      using that assms(4) in_order [of k] by (force simp: IsOutputSpent_def split: option.splits dest: map_of_SomeD)
    then show ?thesis using assms(3) by (auto simp: set_unspent_of simp del: add_2_eq_Suc)
  qed
  ultimately have "filter ?U order = unspent_of e n"
    by (intro sorted_distinct_set_unique sorted_unspent_of sorted_wrt_filter distinct_filter)
  moreover have "put_utxo e k = (if ?U k then put_out (the (map_of (sparseOutputs e) (word_of_nat k))) else [])" for k
    by (auto simp: put_utxo_def IsOutputSpent_def split: option.splits)
  then have "concat (map (put_utxo e) order) = concat (map (\<lambda>k. put_out (the (map_of (sparseOutputs e) (word_of_nat k)))) (filter ?U order))"
    by (induction order) auto
  ultimately show ?thesis by (simp add: comp_def)
qed

lemma utxo_unspent:
  assumes "entry_ok e" and "\<not> IsFullySpent e"
  obtains i where "i \<in> fst ` set (sparseOutputs e)" "\<not> IsOutputSpent e i"
proof -
  obtain i out where "(i, out) \<in> set (sparseOutputs e)" "\<not> uo_spent out"
    using assms(2) by (auto simp: IsFullySpent_def list_all_iff)
  moreover from this assms(1) have "map_of (sparseOutputs e) i = Some out" by (simp add: entry_ok_def)
  ultimately show thesis by (intro that [of i]) (force simp: IsOutputSpent_def)+
qed

lemma sorted_last: "sorted xs \<Longrightarrow> xs \<noteq> [] \<Longrightarrow> last xs \<in> set xs \<and> (\<forall>x \<in> set xs. x \<le> last xs)"
  by (cases xs rule: rev_cases) (auto simp: sorted_append)

lemma serialize_shape:
  assumes "entry_ok e" and "\<not> IsFullySpent e" and "\<And>i out. (i, out) \<in> set (sparseOutputs e) \<Longrightarrow> unat i < 2 ^ 32 - 16"
  shows "\<exists>n k code. k + (if IsOutputSpent e 0 \<and> IsOutputSpent e 1 then 1 else 0) = n \<and> unspent_of e n \<noteq> [] \<and> 2 + 8 * n \<le> 2 ^ 32 \<and>
    (\<forall>i. \<not> IsOutputSpent e i \<longrightarrow> unat i < 2 + 8 * n) \<and>
    code = (let code = push_bit 3 k; code = (if ue_isCoinBase e then code OR 0x01 else code);
                code = (if \<not> IsOutputSpent e 0 then code OR 0x02 else code)
            in if \<not> IsOutputSpent e 1 then code OR 0x04 else code) \<and>
    serializeUtxoEntry e = Inr (Some (putVLQ (uint64 (ue_version e)) @ putVLQ (unat (ue_blockHeight e)) @ putVLQ code @
      map (unspentness_byte e) [0..<n] @
      concat (map (\<lambda>(_, out). put_out out) (map (\<lambda>k. (word_of_nat k :: 32 word, the (map_of (sparseOutputs e) (word_of_nat k)))) (unspent_of e n)))))"
proof -
  define order where "order = sort (map (\<lambda>(i, _). unat i) (sparseOutputs e))"
  define m where "m = last order"
  define n where "n = (m + 6) div 8"
  obtain i where i: "i \<in> fst ` set (sparseOutputs e)" "\<not> IsOutputSpent e i" by (rule utxo_unspent [OF assms(1,2)])
  have set: "set order = unat ` fst ` set (sparseOutputs e)" by (auto simp: order_def image_iff case_prod_unfold)
  then have "order \<noteq> []" using i(1) by auto
  then have m: "m \<in> set order" "\<And>k. k \<in> set order \<Longrightarrow> k \<le> m"
    using sorted_last [of order] by (auto simp: m_def order_def)
  have m32: "m < 2 ^ 32 - 16" using m(1) assms(3) by (auto simp: set)
  have n: "m < 2 + 8 * n" "2 + 8 * n \<le> 2 ^ 32" using m32 by (simp_all add: n_def)
  have un: "unat j \<in> set order" if "\<not> IsOutputSpent e j" for j
    using that by (auto simp: set IsOutputSpent_def image_iff split: option.splits dest!: map_of_SomeD) (metis fst_conv)
  have less: "unat j < 2 + 8 * n" if "\<not> IsOutputSpent e j" for j
    using m(2) [OF un [OF that]] n(1) by linarith
  have pos: "0 < n" if "IsOutputSpent e 0" "IsOutputSpent e 1"
  proof -
    have "i \<noteq> 0" "i \<noteq> 1" using i(2) that by auto
    then have "unat i \<noteq> 0" "unat i \<noteq> 1" by (auto simp: word_unat_eq_iff)
    then have "2 \<le> unat i" by linarith
    then show ?thesis using m(2) [OF un [OF i(2)]] by (simp add: n_def)
  qed
  have w: "unat ((word_of_nat m + 6 :: 32 word) div 8) = n"
  proof -
    have "unat (word_of_nat m + 6 :: 32 word) = m + 6"
      using m32 by (simp add: unat_word_ariths unat_of_nat)
    then show ?thesis by (simp add: n_def unat_div)
  qed
  define k where "k = n - (if IsOutputSpent e 0 \<and> IsOutputSpent e 1 then 1 else 0)"
  have "unspent_of e n \<noteq> []"
    using less [OF i(2)] i(2) set_unspent_of [of "unat i" e n] by auto
  moreover have "concat (map (put_utxo e) order) =
      concat (map (\<lambda>(_, out). put_out out) (map (\<lambda>k. (word_of_nat k :: 32 word, the (map_of (sparseOutputs e) (word_of_nat k)))) (unspent_of e n)))"
    using m(2) n by (intro put_utxos_unspent [OF assms(1) order_def]) fastforce+
  moreover have "utxoEntryHeaderCode e (word_of_nat m) = Inr (let code = push_bit 3 k; code = (if ue_isCoinBase e then code OR 0x01 else code);
        code = (if \<not> IsOutputSpent e 0 then code OR 0x02 else code)
      in if \<not> IsOutputSpent e 1 then code OR 0x04 else code, n)"
    using pos by (simp add: utxoEntryHeaderCode_def w k_def Let_def)
  ultimately show ?thesis
    using assms(2) n(2) less pos
    by (intro exI [of _ n] exI [of _ k] exI conjI refl) (auto simp: serializeUtxoEntry_def order_def [symmetric] m_def [symmetric] k_def)
qed

lemma deserialize_shape:
  assumes "v < 2 ^ 64" and "h < 2 ^ 64" and "code < 2 ^ 64" and "rest \<noteq> []" and "drop_bit 3 code = k"
    and "pre = putVLQ v @ putVLQ h @ putVLQ code"
    and "length bm = k + (if code AND 0x02 = 0 \<and> code AND 0x04 = 0 then 1 else 0)" and "length bm < 2 ^ 32"
  shows "deserializeUtxoEntry (pre @ bm @ rest) =
    bindE (foldE (read_utxo (pre @ bm @ rest)) (length (pre @ bm), newUtxoEntry (to_int32 (int v)) (code AND 0x01 \<noteq> 0) (word_of_nat h))
      ((if code AND 0x02 \<noteq> 0 then [0] else []) @ (if code AND 0x04 \<noteq> 0 then [1] else []) @
       concat (map (\<lambda>i. bitmap_indexes i (bm ! i)) [0..<length bm]))) (\<lambda>(_, entry). Inr entry)"
proof -
  define X where "X = pre @ bm @ rest"
  have r: "deserializeVLQ X = (v, length (putVLQ v))"
      "deserializeVLQ (drop (length (putVLQ v)) X) = (h, length (putVLQ h))"
      "deserializeVLQ (drop (length (putVLQ v) + length (putVLQ h)) X) = (code, length (putVLQ code))"
    using putVLQ_read [OF assms(1)] putVLQ_read [OF assms(2)] putVLQ_read [OF assms(3)] by (simp_all add: X_def assms(6))
  have l: "\<not> length (putVLQ v) \<ge> length X" "\<not> length (putVLQ v) + length (putVLQ h) \<ge> length X" "\<not> length pre \<ge> length X"
      "\<not> length (drop (length pre) X) < length bm"
      "length (putVLQ v) + length (putVLQ h) + length (putVLQ code) = length pre" "length (pre @ bm) = length pre + length bm"
    using assms(4) by (simp_all add: X_def assms(6))
  have m: "map (\<lambda>i. bitmap_indexes i (X ! (length pre + i))) [0..<length bm] = map (\<lambda>i. bitmap_indexes i (bm ! i)) [0..<length bm]"
    by (simp add: X_def nth_append)
  have n: "(if \<not> (code AND 0x02 \<noteq> 0) \<and> \<not> (code AND 0x04 \<noteq> 0) then drop_bit 3 code + 1 else drop_bit 3 code) = length bm"
    using assms(5,7) by simp
  show ?thesis
    unfolding X_def [symmetric] deserializeUtxoEntry_def r(1) Let_def split_def fst_conv snd_conv r(2,3) n l(5,6) mod_less [OF assms(8)] m if_not_P [OF l(1)]
      if_not_P [OF l(2)] if_not_P [OF l(3)] if_not_P [OF l(4)] by (rule refl)
qed

lemma map_of_zip_all2:
  "list_all2 (\<lambda>(_, a) b. Q a b) xs ys \<Longrightarrow> rel_option Q (map_of xs i) (map_of (zip (map fst xs) ys) i)"
  by (induction xs ys rule: list_all2_induct) auto

lemma unspent_outputs:
  assumes "entry_ok e" and "2 + 8 * n \<le> 2 ^ 32" and "\<And>i. \<not> IsOutputSpent e i \<Longrightarrow> unat i < 2 + 8 * n"
    and "list_all (\<lambda>(i, out). \<not> uo_spent out \<longrightarrow> storable out) (sparseOutputs e)"
    and "xs = map (\<lambda>k. (word_of_nat k :: 32 word, the (map_of (sparseOutputs e) (word_of_nat k)))) (unspent_of e n)"
  shows "list_all (\<lambda>(_, out). storable out) xs" and "distinct (map fst xs)" and "map fst xs = map word_of_nat (unspent_of e n)"
    and "map_of xs i = (if IsOutputSpent e i then None else map_of (sparseOutputs e) i)"
proof -
  have un: "\<exists>out. map_of (sparseOutputs e) i = Some out \<and> \<not> uo_spent out" if "\<not> IsOutputSpent e i" for i
    using that by (auto simp: IsOutputSpent_def split: option.splits)
  have "storable (the (map_of (sparseOutputs e) (word_of_nat k)))" if "k \<in> set (unspent_of e n)" for k
    using un [of "word_of_nat k"] that assms(4) by (fastforce simp: set_unspent_of list_all_iff dest: map_of_SomeD)
  then show "list_all (\<lambda>(_, out). storable out) xs" by (simp add: assms(5) list_all_iff)
  show fst: "map fst xs = map word_of_nat (unspent_of e n)" by (simp add: assms(5))
  have "inj_on (word_of_nat :: nat \<Rightarrow> 32 word) (set (unspent_of e n))"
  proof (rule inj_onI)
    fix a b assume "a \<in> set (unspent_of e n)" "b \<in> set (unspent_of e n)" "(word_of_nat a :: 32 word) = word_of_nat b"
    moreover from this have "a < 2 ^ 32" "b < 2 ^ 32" using assms(2) by (auto simp: set_unspent_of)
    then have "unat (word_of_nat a :: 32 word) = a" "unat (word_of_nat b :: 32 word) = b" by (simp_all add: unat_of_nat)
    ultimately show "a = b" by metis
  qed
  then show "distinct (map fst xs)" unfolding fst by (simp add: distinct_map sorted_unspent_of)
  have "xs = map (\<lambda>i. (i, the (map_of (sparseOutputs e) i))) (map word_of_nat (unspent_of e n))" by (simp add: assms(5))
  then have "map_of xs i = (if i \<in> word_of_nat ` set (unspent_of e n) then Some (the (map_of (sparseOutputs e) i)) else None)"
    by (simp only: map_of_map_restrict) (simp add: restrict_map_def)
  moreover have "i \<in> word_of_nat ` set (unspent_of e n) \<longleftrightarrow> \<not> IsOutputSpent e i"
  proof
    assume "\<not> IsOutputSpent e i"
    then have "unat i \<in> set (unspent_of e n)" using assms(3) [of i] by (simp add: set_unspent_of del: add_2_eq_Suc)
    then show "i \<in> word_of_nat ` set (unspent_of e n)" by (rule rev_image_eqI) simp
  qed (auto simp: set_unspent_of)
  ultimately show "map_of xs i = (if IsOutputSpent e i then None else map_of (sparseOutputs e) i)" using un [of i] by auto
qed

definition entry_storable :: "UtxoEntry \<Rightarrow> bool" where
  "entry_storable e \<longleftrightarrow> entry_ok e \<and> in_int32 (ue_version e) \<and>
     list_all (\<lambda>(i, out). unat i < 2 ^ 32 - 16 \<and> (\<not> uo_spent out \<longrightarrow> storable out)) (sparseOutputs e)"

text \<open>
  An entry with an unspent output is serialized to a non-empty string, and reading that back gives
  an entry with the same version, coinbase flag, height and unspent outputs, and no spent ones.
\<close>

lemma utxo_entry_roundtrip:
  assumes "entry_ok e" and "\<not> IsFullySpent e" and "in_int32 (ue_version e)"
    and "list_all (\<lambda>(i, out). unat i < 2 ^ 32 - 16 \<and> (\<not> uo_spent out \<longrightarrow> storable out)) (sparseOutputs e)"
  shows "\<exists>b e'. serializeUtxoEntry e = Inr (Some b) \<and> b \<noteq> [] \<and> deserializeUtxoEntry b = Inr e' \<and>
    entry_ok e' \<and> entry_meta e' = entry_meta e \<and> entry_coins e' = entry_coins e \<and> list_all (\<lambda>(_, out). \<not> uo_spent out) (sparseOutputs e')"
proof -
  obtain n k code b where s: "k + (if IsOutputSpent e 0 \<and> IsOutputSpent e 1 then 1 else 0) = n" "unspent_of e n \<noteq> []" "2 + 8 * n \<le> 2 ^ 32"
      "\<And>i. \<not> IsOutputSpent e i \<Longrightarrow> unat i < 2 + 8 * n"
      "code = (let code = push_bit 3 k; code = (if ue_isCoinBase e then code OR 0x01 else code);
                code = (if \<not> IsOutputSpent e 0 then code OR 0x02 else code)
            in if \<not> IsOutputSpent e 1 then code OR 0x04 else code)"
    and ser: "serializeUtxoEntry e = Inr (Some (putVLQ (uint64 (ue_version e)) @ putVLQ (unat (ue_blockHeight e)) @ putVLQ code @
      map (unspentness_byte e) [0..<n] @
      concat (map (\<lambda>(_, out). put_out out) (map (\<lambda>k. (word_of_nat k :: 32 word, the (map_of (sparseOutputs e) (word_of_nat k)))) (unspent_of e n)))))"
    using serialize_shape [OF assms(1,2)] assms(4) by (fastforce simp: list_all_iff)
  define xs where "xs = map (\<lambda>k. (word_of_nat k :: 32 word, the (map_of (sparseOutputs e) (word_of_nat k)))) (unspent_of e n)"
  define pre where "pre = putVLQ (uint64 (ue_version e)) @ putVLQ (unat (ue_blockHeight e)) @ putVLQ code"
  define bm where "bm = map (unspentness_byte e) [0..<n]"
  define rest where "rest = concat (map (\<lambda>(_, out). put_out out) xs)"
  have st: "list_all (\<lambda>(i, out). \<not> uo_spent out \<longrightarrow> storable out) (sparseOutputs e)" using assms(4) by (auto simp: list_all_iff)
  note xs = unspent_outputs [OF assms(1) s(3,4) st xs_def]
  note bits = header_code_bits [OF s(5)]
  have "code < 2 ^ 64" using bits(4) s(1,3) by (simp add: drop_bit_eq_div split: if_splits)
  moreover have "rest \<noteq> []"
    using s(2) xs(1) put_out_read(2) by (cases "unspent_of e n") (auto simp: rest_def xs_def)
  moreover have "unat (ue_blockHeight e) < 2 ^ 64" using unsigned_less [where 'b = 32 and 'a = nat, of "ue_blockHeight e"] by simp
  moreover have "length bm = k + (if code AND 0x02 = 0 \<and> code AND 0x04 = 0 then 1 else 0)"
    using bits(2,3) s(1) by (auto simp: bm_def)
  moreover have "length bm < 2 ^ 32" using s(3) by (simp add: bm_def)
  ultimately have "deserializeUtxoEntry (pre @ bm @ rest) =
    bindE (foldE (read_utxo (pre @ bm @ rest)) (length (pre @ bm), newUtxoEntry (ue_version e) (ue_isCoinBase e) (ue_blockHeight e))
      ((if \<not> IsOutputSpent e 0 then [0] else []) @ (if \<not> IsOutputSpent e 1 then [1] else []) @
       concat (map (\<lambda>i. bitmap_indexes i (bm ! i)) [0..<length bm]))) (\<lambda>(_, entry). Inr entry)"
    using deserialize_shape [OF int32_uint64(1) [OF assms(3)] _ _ _ bits(4) pre_def] int32_uint64(2) [OF assms(3)] bits(1-3) by simp
  also have "(if \<not> IsOutputSpent e 0 then [0] else []) @ (if \<not> IsOutputSpent e 1 then [1] else []) @
       concat (map (\<lambda>i. bitmap_indexes i (bm ! i)) [0..<length bm]) = map fst xs"
  proof -
    have "map (\<lambda>i. bitmap_indexes i (bm ! i)) [0..<length bm] = map (\<lambda>i. bitmap_indexes i (unspentness_byte e i)) [0..<n]"
      by (simp add: bm_def)
    moreover have "map fst xs = map word_of_nat (filter (\<lambda>k. \<not> IsOutputSpent e (word_of_nat k)) [0..<2 + 8 * n])"
      using xs(3) unfolding unspent_of_def .
    ultimately show ?thesis using all_indexes [of e n] by (simp only:)
  qed
  finally have des: "deserializeUtxoEntry (pre @ bm @ rest) = bindE (foldE (read_utxo (pre @ bm @ rest))
      (length (pre @ bm), newUtxoEntry (ue_version e) (ue_isCoinBase e) (ue_blockHeight e)) (map fst xs)) (\<lambda>(_, entry). Inr entry)" .
  define e0 where "e0 = newUtxoEntry (ue_version e) (ue_isCoinBase e) (ue_blockHeight e)"
  obtain outs m where r: "foldE (read_utxo (pre @ bm @ rest)) (length (pre @ bm), e0) (map fst xs) = Inr (m, e0\<lparr>sparseOutputs := zip (map fst xs) outs\<rparr>)"
      "list_all2 (\<lambda>(_, out) out'. storable out' \<and> \<not> uo_spent out' \<and> read_out out' = read_out out) xs outs"
    using read_utxos [of "pre @ bm @ rest" "pre @ bm" xs "[]" e0] xs(1,2) by (auto simp: rest_def e0_def newUtxoEntry_def)
  let ?e = "e0\<lparr>sparseOutputs := zip (map fst xs) outs\<rparr>"
  have len: "length xs = length outs" by (rule list_all2_lengthD [OF r(2)])
  have outs: "storable out \<and> \<not> uo_spent out" if "out \<in> set outs" for out
    using r(2) that by (auto simp: list_all2_conv_all_nth in_set_conv_nth)
  have "entry_coins ?e = entry_coins e"
  proof
    fix i
    from map_of_zip_all2 [OF r(2), of i] xs(4) [of i] show "entry_coins ?e i = entry_coins e i"
      by (auto simp: entry_coins_def IsOutputSpent_def option_rel_Some1 option_rel_Some2 split: option.splits if_splits)
  qed
  moreover have "entry_ok ?e"
    using xs(2) len outs put_out_read(1) by (auto simp: entry_ok_def list_all_iff dest!: set_zip_rightD)
  moreover have "list_all (\<lambda>(_, out). \<not> uo_spent out) (sparseOutputs ?e)"
    using outs by (auto simp: list_all_iff dest!: set_zip_rightD)
  moreover have "serializeUtxoEntry e = Inr (Some (pre @ bm @ rest))" using ser by (simp add: pre_def bm_def rest_def xs_def)
  moreover have "pre @ bm @ rest \<noteq> []" by (simp add: pre_def putVLQ_nonempty)
  moreover have "entry_meta ?e = entry_meta e" by (simp add: e0_def newUtxoEntry_def)
  ultimately show ?thesis using des r(1) unfolding e0_def [symmetric]
    by (intro exI [of _ "pre @ bm @ rest"] exI [of _ ?e]) simp
qed

text \<open>What the database has for a transaction.\<close>

definition loads :: "bucket \<Rightarrow> bytes \<Rightarrow> (tx_meta \<times> (32 word \<rightharpoonup> coin)) option \<Rightarrow> bool" where
  "loads db h x \<longleftrightarrow>
     (case dbFetchUtxoEntry db h of
        Inl _ \<Rightarrow> False
      | Inr None \<Rightarrow> x = None
      | Inr (Some e) \<Rightarrow> x = Some (entry_meta e, entry_coins e) \<and> entry_ok e \<and> list_all (\<lambda>(_, out). \<not> uo_spent out) (sparseOutputs e))"

lemma dbPutUtxoEntry_loads:
  assumes "LookupEntry view h = Some e" and "ue_modified e" and "entry_storable e"
  shows "\<exists>b. dbPutUtxoEntry view db h = Inr (db(h := b)) \<and> (\<forall>db'. db' h = b \<longrightarrow> loads db' h (utxo_ledger view h))"
proof (cases "IsFullySpent e")
  case True
  then have "entry_coins e = Map.empty" using assms(3) by (simp add: entry_storable_def IsFullySpent_iff)
  then show ?thesis using True assms(1,2)
    by (intro exI [of _ None]) (simp add: dbPutUtxoEntry_def serializeUtxoEntry_def loads_def dbFetchUtxoEntry_def utxo_ledger_def with_coins_def)
next
  case False
  obtain b e' where b: "serializeUtxoEntry e = Inr (Some b)" "b \<noteq> []" "deserializeUtxoEntry b = Inr e'"
      "entry_ok e'" "entry_meta e' = entry_meta e" "entry_coins e' = entry_coins e" "list_all (\<lambda>(_, out). \<not> uo_spent out) (sparseOutputs e')"
    using utxo_entry_roundtrip [of e] assms(3) False unfolding entry_storable_def by blast
  have "entry_coins e \<noteq> Map.empty" using False assms(3) by (simp add: entry_storable_def IsFullySpent_iff)
  then have "utxo_ledger view h = Some (entry_meta e', entry_coins e')" using assms(1) b(5,6) by (simp add: utxo_ledger_def with_coins_def)
  then show ?thesis using b assms(1,2)
    by (intro exI [of _ "Some b"]) (simp add: dbPutUtxoEntry_def loads_def dbFetchUtxoEntry_def)
qed

text \<open>
  C31. Writing a view to the database makes the set of unspent outputs there the one of the view.
  For every transaction with a modified entry the database then loads, without an error, the
  version, coinbase flag, height and unspent outputs that the view has for it, or nothing if all
  are spent, whatever the order in which the entries are written; what it has for the other
  transactions is as before.
\<close>

theorem stored_view_refines:
  assumes "\<And>h e. LookupEntry view h = Some e \<Longrightarrow> ue_modified e \<Longrightarrow> entry_storable e \<and> h \<in> set order"
  shows "\<exists>db'. dbPutUtxoView order view db = Inr db' \<and>
    (\<forall>h. (case LookupEntry view h of
            Some e \<Rightarrow> if ue_modified e then loads db' h (utxo_ledger view h) else db' h = db h
          | None \<Rightarrow> db' h = db h))"
proof -
  let ?mod = "\<lambda>h. \<exists>e. LookupEntry view h = Some e \<and> ue_modified e"
  have "\<exists>db'. foldE (dbPutUtxoEntry view) db xs = Inr db' \<and>
      (\<forall>h. if ?mod h \<and> h \<in> set xs then \<forall>db''. db'' h = db' h \<longrightarrow> loads db'' h (utxo_ledger view h) else db' h = db h)" for xs db
  proof (induction xs arbitrary: db)
    case (Cons h xs)
    show ?case
    proof (cases "?mod h")
      case True
      then obtain e where "LookupEntry view h = Some e" "ue_modified e" "entry_storable e" using assms by blast
      from dbPutUtxoEntry_loads [OF this, of db] obtain b where b: "dbPutUtxoEntry view db h = Inr (db(h := b))"
          "\<And>db'. db' h = b \<Longrightarrow> loads db' h (utxo_ledger view h)" by blast
      obtain db' where "foldE (dbPutUtxoEntry view) (db(h := b)) xs = Inr db'"
          "\<forall>k. if ?mod k \<and> k \<in> set xs then \<forall>db''. db'' k = db' k \<longrightarrow> loads db'' k (utxo_ledger view k) else db' k = (db(h := b)) k"
        using Cons.IH by blast
      with b True show ?thesis by (intro exI [of _ db']) (auto split: if_splits)
    next
      case False
      then have "dbPutUtxoEntry view db h = Inr db" by (auto simp: dbPutUtxoEntry_def split: option.splits)
      with Cons.IH [of db] False show ?thesis by auto
    qed
  qed simp
  from this [of db order] obtain db' where "foldE (dbPutUtxoEntry view) db order = Inr db'"
      "\<And>h. if ?mod h \<and> h \<in> set order then \<forall>db''. db'' h = db' h \<longrightarrow> loads db'' h (utxo_ledger view h) else db' h = db h" by blast
  then show ?thesis using assms by (intro exI [of _ db']) (auto simp: dbPutUtxoView_def split: option.splits)
qed

definition example_entry :: UtxoEntry where
  "example_entry = \<lparr>ue_modified = True, ue_version = 1, ue_isCoinBase = True, ue_blockHeight = 7,
     sparseOutputs = [(3, stxo_out (example_stxo 0)), (0, (stxo_out (example_stxo 0))\<lparr>uo_spent := True\<rparr>)]\<rparr>"

theorem stored_view_refines_witness:
  "\<exists>db'. dbPutUtxoView [[7]] (set_entry [7] example_entry NewUtxoViewpoint) Map.empty = Inr db' \<and>
     loads db' [7] (Some ((1, True, 7), [3 \<mapsto> (9, [0x51])])) \<and> db' [8] = None"
proof -
  let ?v = "set_entry [7] example_entry NewUtxoViewpoint"
  have l: "LookupEntry ?v h = (if h = [7] then Some example_entry else None)" for h by (simp add: LookupEntry_def NewUtxoViewpoint_def)
  have "entry_storable example_entry"
    by (simp add: entry_storable_def entry_ok_def example_entry_def in_int32_def storable_def plain_ok_def stxo_out_def example_stxo_def out_ok_def maybeDecompress_def)
  then have "\<And>h e. LookupEntry ?v h = Some e \<Longrightarrow> ue_modified e \<Longrightarrow> entry_storable e \<and> h \<in> set [[7]]"
    unfolding l by (simp split: if_splits)
  from stored_view_refines [OF this, where db = Map.empty] obtain db' where db': "dbPutUtxoView [[7]] ?v Map.empty = Inr db'"
      "\<And>h. (case LookupEntry ?v h of
            Some e \<Rightarrow> if ue_modified e then loads db' h (utxo_ledger ?v h) else db' h = Map.empty h
          | None \<Rightarrow> db' h = Map.empty h)"
    by blast
  have "entry_coins example_entry = [3 \<mapsto> (9, [0x51])]"
    by (auto simp: fun_eq_iff entry_coins_def example_entry_def stxo_out_def example_stxo_def read_out_def maybeDecompress_def)
  moreover have "entry_meta example_entry = (1, True, 7)" by (simp add: example_entry_def)
  ultimately have "utxo_ledger ?v [7] = Some ((1, True, 7), [3 \<mapsto> (9, [0x51])])" by (simp add: utxo_ledger_def with_coins_def)
  then have "loads db' [7] (Some ((1, True, 7), [3 \<mapsto> (9, [0x51])]))"
    using db'(2) [of "[7]"] l [of "[7]"] by (simp add: example_entry_def)
  moreover have "db' [8] = None" using db'(2) [of "[8]"] unfolding l by simp
  ultimately show ?thesis using db'(1) by blast
qed

end
