(* ===== verification/Chain_Work.thy ===== *)
theory Chain_Work
  imports Chain_Base Wire_Block Script_Opcode
begin

text \<open>
  Difficulty and work, \<open>src/blockchain/difficulty.go\<close>: the compact form of a target, the work that a
  target stands for, and the target that follows from the time that the last blocks took.
  Rounding to the compact form is shown to lose less than a part in \<open>2 ^ 15\<close>.
\<close>

definition HashToBig :: "bytes \<Rightarrow> int" where
  "HashToBig h = be_int (rev h)"

definition CompactToBig :: "32 word \<Rightarrow> int" where
  "CompactToBig compact =
     (let mantissa = compact AND 0x007fffff;
          isNegative = (compact AND 0x00800000 \<noteq> 0);
          exponent = unat (drop_bit 24 compact);
          bn = (if exponent \<le> 3 then int (unat (drop_bit (8 * (3 - exponent)) mantissa))
                else push_bit (8 * (exponent - 3)) (int (unat mantissa)))
      in if isNegative then - bn else bn)"

text \<open>The bytes of a big integer are those of its absolute value; shifting right rounds down.\<close>

definition BigToCompact :: "int \<Rightarrow> 32 word" where
  "BigToCompact n =
     (if n = 0 then 0
      else
        let exponent = length (be_bytes \<bar>n\<bar>);
            mantissa = (if exponent \<le> 3 then push_bit (8 * (3 - exponent)) (word_of_int \<bar>n\<bar> :: 32 word)
                        else word_of_int \<bar>drop_bit (8 * (exponent - 3)) n\<bar>);
            (mantissa, exponent) = (if mantissa AND 0x00800000 \<noteq> 0 then (drop_bit 8 mantissa, exponent + 1) else (mantissa, exponent));
            compact = push_bit 24 (word_of_nat exponent) OR mantissa
        in if n < 0 then compact OR 0x00800000 else compact)"

definition CalcWork :: "32 word \<Rightarrow> int" where
  "CalcWork bits =
     (let difficultyNum = CompactToBig bits
      in if difficultyNum \<le> 0 then 0 else 2 ^ 256 div (difficultyNum + 1))"

text \<open>
  The times are in seconds, the durations in nanoseconds.  Dividing by a window of less than a
  millisecond panics.
\<close>

definition nextRequiredDifficulty :: "Params \<Rightarrow> int \<Rightarrow> int \<Rightarrow> int \<Rightarrow> 32 word res" where
  "nextRequiredDifficulty chainParams firstNodeTime lastNodeTime avgDifficulty =
     (let timespan = to_int64 (to_int64 (lastNodeTime * 1000000000) - to_int64 (firstNodeTime * 1000000000));
          window = AveragingWindowTimespan chainParams;
          timespan = to_int64 (window + to_int64 (timespan - window) sdiv 4);
          timespan = (if timespan < MinActualTimespan chainParams then MinActualTimespan chainParams
                      else if timespan > MaxActualTimespan chainParams then MaxActualTimespan chainParams
                      else timespan);
          avgWindowTimespan = window sdiv 1000000
      in if avgWindowTimespan = 0 then Inl Panic
         else
           let avgDifficulty = avgDifficulty div avgWindowTimespan;
               avgDifficulty = avgDifficulty * (timespan sdiv 1000000);
               avgDifficulty = (if avgDifficulty > PowLimit chainParams then PowLimit chainParams else avgDifficulty)
           in Inr (BigToCompact avgDifficulty))"

section \<open>The compact form\<close>

text \<open>The number with exponent \<open>e\<close> and mantissa \<open>m\<close>.\<close>

definition compact :: "nat \<Rightarrow> nat \<Rightarrow> 32 word" where
  "compact e m = word_of_nat (e * 2 ^ 24 + m)"

lemma unat_compact: "e < 256 \<Longrightarrow> m < 2 ^ 24 \<Longrightarrow> unat (compact e m) = e * 2 ^ 24 + m"
  unfolding compact_def unat_of_nat by simp

lemma bit_23: "(w :: 32 word) AND 0x00800000 \<noteq> 0 \<longleftrightarrow> odd (unat w div 2 ^ 23)"
proof -
  have "w AND 0x00800000 \<noteq> 0 \<longleftrightarrow> bit w 23"
    unfolding bit_iff_and_push_bit_not_eq_0 by simp
  also have "\<dots> \<longleftrightarrow> bit (unat w) 23" by (simp add: bit_unsigned_iff)
  also have "\<dots> \<longleftrightarrow> odd (unat w div 2 ^ 23)" by (rule bit_iff_odd)
  finally show ?thesis .
qed

lemma CompactToBig_compact:
  assumes "e < 256" and "m < 2 ^ 23"
  shows "CompactToBig (compact e m) = int (if e \<le> 3 then m div 256 ^ (3 - e) else m * 256 ^ (e - 3))"
proof -
  have u: "unat (compact e m) = e * 2 ^ 24 + m" using assms by (intro unat_compact) simp_all
  have "(0x007fffff :: 32 word) = mask 23" by (simp add: mask_eq_exp_minus_1)
  moreover have "(e * 2 ^ 24 + m) mod 2 ^ 23 = m"
  proof -
    have "e * 2 ^ 24 + m = m + (2 * e) * 2 ^ 23" by simp
    then show ?thesis using assms(2) by (simp only: mod_mult_self1) simp
  qed
  ultimately have m: "unat (compact e m AND 0x007fffff) = m"
    by (simp only: take_bit_eq_mask [symmetric] unsigned_take_bit_eq u) (simp add: take_bit_eq_mod)
  have e: "unat (drop_bit 24 (compact e m)) = e"
    using assms by (simp only: unsigned_drop_bit_eq u) (simp add: drop_bit_eq_div take_bit_eq_mod)
  have "(e * 2 ^ 24 + m) div 2 ^ 23 = e * 2" using assms(2) by (simp add: div_add1_eq)
  then have neg: "\<not> compact e m AND 0x00800000 \<noteq> 0" unfolding bit_23 u by simp
  have p: "(2 :: nat) ^ (8 * k) = 256 ^ k" "(2 :: int) ^ (8 * k) = 256 ^ k" for k by (simp_all add: power_mult)
  have d: "unat (drop_bit k (compact e m AND 0x007fffff)) = m div 2 ^ k" for k
    using assms(2) by (simp only: unsigned_drop_bit_eq m) (simp add: drop_bit_eq_div take_bit_eq_mod)
  show ?thesis using neg unfolding CompactToBig_def Let_def e d by (simp add: push_bit_eq_mult m p)
qed

lemma be_bytes_bounds:
  assumes "0 < n"
  shows "256 ^ (length (be_bytes n) - 1) \<le> n" "n < 256 ^ length (be_bytes n)"
proof -
  show "n < 256 ^ length (be_bytes n)" using be_int_bound [of "be_bytes n"] assms by simp
  show "256 ^ (length (be_bytes n) - 1) \<le> n"
  proof (rule ccontr)
    assume "\<not> ?thesis"
    then have "length (be_bytes n) \<le> length (be_bytes n) - 1" using assms by (intro length_be_bytes) simp_all
    moreover have "0 < length (be_bytes n)" using assms unfolding length_greater_0_conv by simp
    ultimately show False by linarith
  qed
qed

text \<open>The mantissa of a number for an exponent.\<close>

definition mant :: "nat \<Rightarrow> nat \<Rightarrow> nat" where "mant n e = n * 256 ^ 3 div 256 ^ e"

lemma mant_eq: "mant n e = (if e \<le> 3 then n * 256 ^ (3 - e) else n div 256 ^ (e - 3))"
proof (cases "e \<le> 3")
  case True
  then have "(256 :: nat) ^ 3 = 256 ^ (3 - e) * 256 ^ e" unfolding power_add [symmetric] by simp
  then have "n * 256 ^ 3 = n * 256 ^ (3 - e) * 256 ^ e" by (simp only: mult.assoc)
  then show ?thesis using True unfolding mant_def by (simp only:) simp
next
  case False
  then have e: "(256 :: nat) ^ e = 256 ^ 3 * 256 ^ (e - 3)" unfolding power_add [symmetric] by simp
  have "n * 256 ^ 3 div 256 ^ e = n * 256 ^ 3 div 256 ^ 3 div 256 ^ (e - 3)" unfolding e by (rule div_mult2_eq)
  then show ?thesis using False by (simp add: mant_def)
qed

lemma mant_Suc: "mant n (Suc e) = mant n e div 256"
  by (simp add: mant_def div_mult2_eq [symmetric] mult.commute)

lemma BigToCompact_bytes:
  assumes "0 < n" and "int n < 256 ^ 254"
  shows "BigToCompact (int n) =
    (let e = length (be_bytes (int n)) in if mant n e < 2 ^ 23 then compact e (mant n e) else compact (Suc e) (mant n (Suc e)))"
    and "2 ^ 16 \<le> mant n (length (be_bytes (int n)))" "mant n (length (be_bytes (int n))) < 2 ^ 24"
    and "length (be_bytes (int n)) \<le> 254"
proof -
  define e where "e = length (be_bytes (int n))"
  have b: "256 ^ (e - 1) \<le> n" "n < 256 ^ e"
    using be_bytes_bounds [of "int n"] assms(1) by (simp_all add: e_def flip: of_nat_power)
  have e0: "0 < e" using assms(1) by (simp add: e_def)
  show e254: "length (be_bytes (int n)) \<le> 254" using assms by (intro length_be_bytes) simp_all
  show m24: "mant n (length (be_bytes (int n))) < 2 ^ 24"
    using b(2) unfolding e_def [symmetric] mant_def by (intro div_less_iff_less_mult [THEN iffD2]) simp_all
  have "256 ^ (e - 1) * 256 ^ 3 div 256 ^ e \<le> mant n e" using b(1) unfolding mant_def by (intro div_le_mono mult_le_mono1)
  moreover have "256 ^ (e - 1) * 256 ^ 3 div 256 ^ e = (2 ^ 16 :: nat)"
  proof -
    have "(256 :: nat) ^ e = 256 ^ (e - 1) * 256" using e0 by (cases e) simp_all
    then show ?thesis by simp
  qed
  ultimately show "2 ^ 16 \<le> mant n (length (be_bytes (int n)))" by (simp add: e_def)
  define w where "w = (if e \<le> 3 then push_bit (8 * (3 - e)) (word_of_int \<bar>int n\<bar> :: 32 word)
      else word_of_int \<bar>drop_bit (8 * (e - 3)) (int n)\<bar>)"
  have p: "(2 :: nat) ^ (8 * k) = 256 ^ k" "(2 :: int) ^ (8 * k) = 256 ^ k" for k by (simp_all add: power_mult)
  have w: "w = word_of_nat (mant n e)"
  proof (cases "e \<le> 3")
    case True
    have "w = word_of_nat (push_bit (8 * (3 - e)) n)" using True by (simp add: w_def of_nat_push_bit)
    then show ?thesis using True unfolding mant_eq by (simp only: push_bit_eq_mult p if_True)
  next
    case False
    have "w = word_of_nat (drop_bit (8 * (e - 3)) n)" using False by (simp add: w_def flip: of_nat_drop_bit)
    then show ?thesis using False unfolding mant_eq by (simp only: drop_bit_eq_div p if_False)
  qed
  then have uw: "unat w = mant n e" using m24 by (simp add: unat_of_nat e_def)
  have pack: "push_bit 24 (word_of_nat k) OR word_of_nat m = compact k m" if "m < 2 ^ 24" for k m
  proof -
    have "push_bit 24 k OR m = k * 2 ^ 24 + m" using or_add_push_nat [OF that, of k] by simp
    then show ?thesis unfolding compact_def by (metis of_nat_or_eq of_nat_push_bit)
  qed
  show "BigToCompact (int n) = (let e = length (be_bytes (int n)) in
      if mant n e < 2 ^ 23 then compact e (mant n e) else compact (Suc e) (mant n (Suc e)))"
  proof (cases "mant n e < 2 ^ 23")
    case True
    then have "\<not> w AND 0x00800000 \<noteq> 0" unfolding bit_23 uw by simp
    then have "BigToCompact (int n) = push_bit 24 (word_of_nat e) OR w"
      using assms(1) by (simp add: BigToCompact_def Let_def e_def [symmetric] w_def [symmetric])
    then show ?thesis using True pack [of "mant n e" e] m24 by (simp add: w e_def Let_def)
  next
    case False
    then have "mant n e div 2 ^ 23 = 1" using m24 unfolding e_def by simp
    then have "w AND 0x00800000 \<noteq> 0" unfolding bit_23 uw by simp
    then have "BigToCompact (int n) = push_bit 24 (word_of_nat (Suc e)) OR drop_bit 8 w"
      using assms(1) by (simp add: BigToCompact_def Let_def e_def [symmetric] w_def [symmetric])
    moreover have "drop_bit 8 w = word_of_nat (mant n (Suc e))"
    proof -
      have "unat (drop_bit 8 w) = mant n (Suc e)" using m24 unfolding mant_Suc e_def [symmetric]
        by (simp only: unsigned_drop_bit_eq uw) (simp add: drop_bit_eq_div take_bit_eq_mod)
      then show ?thesis by (metis word_of_nat_unat)
    qed
    moreover have "mant n (Suc e) < 2 ^ 24" using m24 unfolding mant_Suc e_def by simp
    ultimately show ?thesis using False pack [of "mant n (Suc e)" "Suc e"] by (simp add: e_def Let_def)
  qed
qed

lemma mant_antimono: "e \<le> e' \<Longrightarrow> mant n e' \<le> mant n e"
  unfolding mant_def by (rule div_le_mono2) (simp_all add: power_increasing)

lemma BigToCompact_unique:
  assumes "0 < n" and "int n < 256 ^ 254" and "2 ^ 15 \<le> mant n e" and "mant n e < 2 ^ 23"
  shows "BigToCompact (int n) = compact e (mant n e)" "e \<le> 255"
proof -
  define e0 where "e0 = length (be_bytes (int n))"
  note b = BigToCompact_bytes [OF assms(1,2), folded e0_def, unfolded Let_def]
  have "\<not> e < e0"
  proof
    assume "e < e0"
    then have "mant n (e0 - 1) \<le> mant n e" "Suc (e0 - 1) = e0" by (simp_all add: mant_antimono)
    moreover have "mant n (Suc (e0 - 1)) = mant n (e0 - 1) div 256" by (rule mant_Suc)
    ultimately show False using b(2) assms(4) by simp
  qed
  moreover have "\<not> Suc (Suc e0) \<le> e"
  proof
    assume "Suc (Suc e0) \<le> e"
    then have "mant n e \<le> mant n (Suc (Suc e0))" by (rule mant_antimono)
    also have "\<dots> = mant n e0 div 256 div 256" by (simp only: mant_Suc)
    finally show False using b(3) assms(3) by simp
  qed
  ultimately consider "e = e0" | "e = Suc e0" by linarith
  then have "BigToCompact (int n) = compact e (mant n e) \<and> e \<le> 255"
  proof cases
    case 1
    then show ?thesis using b(1,4) assms(4) by simp
  next
    case 2
    have "\<not> mant n e0 < 2 ^ 23" using assms(3) unfolding 2 mant_Suc by simp
    then show ?thesis using b(1,4) 2 by simp
  qed
  then show "BigToCompact (int n) = compact e (mant n e)" "e \<le> 255" by auto
qed

lemma compact_exists:
  assumes "0 < n" and "int n < 256 ^ 254"
  shows "\<exists>e. 2 ^ 15 \<le> mant n e \<and> mant n e < 2 ^ 23"
proof -
  define e0 where "e0 = length (be_bytes (int n))"
  note b = BigToCompact_bytes(2,3) [OF assms, folded e0_def]
  show ?thesis
  proof (cases "mant n e0 < 2 ^ 23")
    case True
    then show ?thesis using b by (intro exI [of _ e0]) simp
  next
    case False
    then have "2 ^ 15 \<le> mant n e0 div 256" by (simp add: less_eq_div_iff_mult_less_eq)
    then show ?thesis using b by (intro exI [of _ "Suc e0"]) (simp add: mant_Suc)
  qed
qed

section \<open>Properties\<close>

text \<open>
  C37. A positive target is rounded down when it is put in the compact form, and loses less than a
  part in \<open>2 ^ 15\<close>; the rounded target has the same compact form, so that nothing more is lost
  when it is read and written again.
\<close>

theorem compact_rounds:
  assumes "0 < n" and "n < 256 ^ 254"
  shows "let t = CompactToBig (BigToCompact n)
         in 0 < t \<and> t \<le> n \<and> (n - t) * 2 ^ 15 < n \<and> BigToCompact t = BigToCompact n"
proof -
  define k where "k = nat n"
  have n: "n = int k" "0 < k" using assms(1) by (simp_all add: k_def)
  have k: "int k < 256 ^ 254" using assms(2) n(1) by simp
  obtain e where e: "2 ^ 15 \<le> mant k e" "mant k e < 2 ^ 23" using compact_exists [OF n(2) k] by auto
  note c = BigToCompact_unique [OF n(2) k e]
  define t where "t = (if e \<le> 3 then k else mant k e * 256 ^ (e - 3))"
  have t: "CompactToBig (BigToCompact n) = int t"
    using CompactToBig_compact [of e "mant k e"] c e(2) n(1) by (cases "e \<le> 3") (simp_all add: t_def mant_eq)
  have "0 < t \<and> t \<le> k \<and> (k - t) * 2 ^ 15 < k \<and> mant t e = mant k e"
  proof (cases "e \<le> 3")
    case True
    then show ?thesis using n(2) by (simp add: t_def)
  next
    case False
    define q where "q = (256 :: nat) ^ (e - 3)"
    have q: "0 < q" by (simp add: q_def)
    have m: "mant k e = k div q" using False by (simp add: mant_eq q_def)
    have te: "t = k div q * q" using False m by (simp add: t_def q_def)
    have "k - t = k mod q" unfolding te by (simp add: minus_div_mult_eq_mod)
    then have "(k - t) * 2 ^ 15 < q * 2 ^ 15" using q by simp
    also have "\<dots> \<le> t" unfolding te using e(1) m by (simp add: mult.commute)
    finally have "(k - t) * 2 ^ 15 < t" .
    moreover have "t \<le> k" unfolding te by simp
    moreover have "mant t e = t div q" using False by (simp add: mant_eq q_def)
    moreover have "0 < t" using calculation(1) by linarith
    moreover have "t div q = k div q" using q te by simp
    ultimately show ?thesis using m by linarith
  qed
  note tk = this
  then have "BigToCompact (int t) = compact e (mant k e)"
    using BigToCompact_unique(1) [of t e] k e by simp
  moreover have "(int k - int t) * 2 ^ 15 < int k"
  proof -
    have "(int k - int t) * 2 ^ 15 = int ((k - t) * 2 ^ 15)" using tk by (simp add: of_nat_diff)
    also have "\<dots> < int k" using tk unfolding of_nat_less_iff by blast
    finally show ?thesis .
  qed
  ultimately show ?thesis using tk t n(1) c(1) by (simp add: Let_def)
qed

theorem compact_rounds_witness:
  "let t = CompactToBig (BigToCompact 0x12345678) in 0 < t \<and> t \<le> 0x12345678 \<and> BigToCompact t = BigToCompact 0x12345678"
  using compact_rounds [of "0x12345678"] by (simp add: Let_def)

end
