(* ===== verification/Tx_Validate.thy ===== *)
theory Tx_Validate
  imports Utxo_View Key_View Engine_Ops
begin

text \<open>
  The checks of a single transaction, \<open>src/blockchain/validate.go\<close>: whether it is final, the
  context-free checks, the number of signature operations, and the check of its inputs against a
  view of the unspent outputs.  The fee is shown to be the exact difference of what the inputs
  hold and what the outputs pay.
\<close>

section \<open>Constants\<close>

definition MaxSigOpsPerBlock :: int where "MaxSigOpsPerBlock = int (MaxBlockPayload div 50)"
definition MinCoinbaseScriptLen :: nat where "MinCoinbaseScriptLen = 2"
definition MaxCoinbaseScriptLen :: nat where "MaxCoinbaseScriptLen = 100"
definition medianTimeBlocks :: nat where "medianTimeBlocks = 11"
definition baseSubsidy :: int where "baseSubsidy = 0 * AtomsPerGram"

section \<open>Lock times\<close>

record SequenceLock =
  sl_Seconds :: int
  sl_BlockHeight :: int

definition SequenceLockActive :: "SequenceLock \<Rightarrow> int \<Rightarrow> int \<Rightarrow> bool" where
  "SequenceLockActive sequenceLock blockHeight medianTimePast =
     (if sl_Seconds sequenceLock \<ge> medianTimePast \<or> sl_BlockHeight sequenceLock \<ge> blockHeight then False else True)"

definition IsFinalizedTransaction :: "MsgTx \<Rightarrow> 32 word \<Rightarrow> int \<Rightarrow> bool" where
  "IsFinalizedTransaction msgTx blockHeight blockTime =
     (let lockTime = int (unat (LockTime msgTx))
      in if lockTime = 0 then True
         else
           let blockTimeOrHeight = (if lockTime < LockTimeThreshold then int (unat blockHeight) else blockTime)
           in if lockTime < blockTimeOrHeight then True
              else list_all (\<lambda>txIn. \<not> Sequence txIn \<noteq> 0xffffffff) (TxIn msgTx))"

definition CalcBlockSubsidy :: "32 word \<Rightarrow> Params \<Rightarrow> int" where
  "CalcBlockSubsidy height chainParams =
     (if SubsidyReductionInterval chainParams = 0 then baseSubsidy
      else drop_bit (unat (height div SubsidyReductionInterval chainParams)) baseSubsidy)"

section \<open>Context-free checks\<close>

text \<open>One output; \<open>threadInt\<close> is the admin thread of the transaction or negative.\<close>

definition check_output :: "MsgTx \<Rightarrow> int \<Rightarrow> int \<Rightarrow> nat \<times> TxOut \<Rightarrow> int cres" where
  "check_output msgTx threadInt totalAtoms x =
     (case x of (txOutIndex, txOut) \<Rightarrow>
        let atoms = Value txOut; hasAdminOut = (threadInt \<ge> 0)
        in if atoms < 0 then Inl (RuleErr ErrBadTxOutValue)
           else if atoms > MaxAtoms then Inl (RuleErr ErrBadTxOutValue)
           else
             let totalAtoms = to_int64 (totalAtoms + atoms)
             in if totalAtoms < 0 then Inl (RuleErr ErrBadTxOutValue)
                else if totalAtoms > MaxAtoms then Inl (RuleErr ErrBadTxOutValue)
                else
                  let scriptClass = GetScriptClass (PkScript txOut)
                  in if scriptClass = ProvaAdminTy \<and> txOutIndex \<noteq> 0 then Inl (RuleErr ErrInvalidAdminTx)
                     else if hasAdminOut then
                       (if (word_of_int threadInt :: byte) \<noteq> IssueThread then
                          (if Value txOut \<noteq> 0 then Inl (RuleErr ErrInvalidAdminTx) else Inr totalAtoms)
                        else if txOutIndex > 0 then
                          let isDestruction = length (TxIn msgTx) > 1
                          in if scriptClass = NullDataTy then
                               (if \<not> isDestruction then Inl (RuleErr ErrInvalidAdminTx)
                                else if atoms = 0 then Inl (RuleErr ErrInvalidAdminTx)
                                else Inr totalAtoms)
                             else if scriptClass \<noteq> ProvaTy \<and> scriptClass \<noteq> GeneralProvaTy then Inl (RuleErr ErrInvalidAdminTx)
                             else if atoms = 0 then Inl (RuleErr ErrInvalidAdminTx)
                             else Inr totalAtoms
                        else Inr totalAtoms)
                     else Inr totalAtoms)"

definition check_duplicate :: "OutPoint list \<Rightarrow> TxIn \<Rightarrow> OutPoint list cres" where
  "check_duplicate existingTxOut txIn =
     (if PreviousOutPoint txIn \<in> set existingTxOut then Inl (RuleErr ErrDuplicateTxInputs)
      else Inr (PreviousOutPoint txIn # existingTxOut))"

definition check_admin_tx :: "MsgTx \<Rightarrow> int \<Rightarrow> parsedOpcode list list \<Rightarrow> unit cres" where
  "check_admin_tx msgTx threadInt adminOutputs =
     (let threadId = word_of_int threadInt :: byte
      in if threadInt \<ge> 0 \<and> (threadId = RootThread \<or> threadId = ProvisionThread) then
           (if length (TxIn msgTx) > 1 then Inl (RuleErr ErrInvalidAdminTx)
            else if length (TxOut msgTx) < 2 then Inl (RuleErr ErrInvalidAdminTx)
            else if \<not> list_all (\<lambda>adminOpOut. IsValidAdminOp adminOpOut threadId) adminOutputs then Inl (RuleErr ErrInvalidAdminTx)
            else Inr ())
         else Inr ())"

definition CheckTransactionSanity :: "MsgTx \<Rightarrow> unit cres" where
  "CheckTransactionSanity msgTx =
     (if length (TxIn msgTx) = 0 then Inl (RuleErr ErrNoTxInputs)
      else if length (TxOut msgTx) = 0 then Inl (RuleErr ErrNoTxOutputs)
      else if serializeSize False msgTx > MaxBlockPayload then Inl (RuleErr ErrTxTooBig)
      else
        let (threadInt, adminOutputs) = GetAdminDetailsMsgTx msgTx
        in bindE (foldE (check_output msgTx threadInt) 0 (enumerate 0 (TxOut msgTx))) (\<lambda>_.
           bindE (foldE check_duplicate [] (TxIn msgTx)) (\<lambda>_.
           if IsCoinBaseTx msgTx then
             (if \<not> IsProvaTx msgTx then Inl (RuleErr ErrInvalidCoinbase)
              else
                let slen = length (SignatureScript (TxIn msgTx ! 0))
                in if slen < MinCoinbaseScriptLen \<or> slen > MaxCoinbaseScriptLen then Inl (RuleErr ErrBadCoinbaseScriptLen)
                   else Inr ())
           else
             bindE (check_admin_tx msgTx threadInt adminOutputs) (\<lambda>_.
             if \<not> (threadInt \<ge> 0) \<and> \<not> IsProvaTx msgTx then Inl (RuleErr ErrInvalidTx)
             else if list_ex (\<lambda>txIn. isNullOutpoint (PreviousOutPoint txIn)) (TxIn msgTx) then Inl (RuleErr ErrBadTxInput)
             else Inr ()))))"

section \<open>Signature operations\<close>

definition CountSigOps :: "MsgTx \<Rightarrow> int" where
  "CountSigOps msgTx =
     to_int64 (sum_list (map (\<lambda>txIn. GetSigOpCount (SignatureScript txIn)) (TxIn msgTx)) +
               sum_list (map (\<lambda>txOut. GetSigOpCount (PkScript txOut)) (TxOut msgTx)))"

definition p2sh_input :: "UtxoViewpoint \<Rightarrow> int \<Rightarrow> TxIn \<Rightarrow> int cres" where
  "p2sh_input utxoView totalSigOps txIn =
     (let originTxIndex = Index (PreviousOutPoint txIn)
      in case LookupEntry utxoView (Hash (PreviousOutPoint txIn)) of
           None \<Rightarrow> Inl (RuleErr ErrMissingTx)
         | Some txEntry \<Rightarrow>
             if IsOutputSpent txEntry originTxIndex then Inl (RuleErr ErrMissingTx)
             else
               bindE (lowerE (PkScriptByIndex txEntry originTxIndex)) (\<lambda>pkScript.
                 if \<not> IsPayToScriptHash pkScript then Inr totalSigOps
                 else
                   let lastSigOps = totalSigOps;
                       totalSigOps = to_int64 (totalSigOps + GetPreciseSigOpCount (SignatureScript txIn) pkScript True)
                   in if totalSigOps < lastSigOps then Inl (RuleErr ErrTooManySigOps) else Inr totalSigOps))"

definition CountP2SHSigOps :: "MsgTx \<Rightarrow> bool \<Rightarrow> UtxoViewpoint \<Rightarrow> int cres" where
  "CountP2SHSigOps msgTx isCoinBaseTx utxoView =
     (if isCoinBaseTx then Inr 0 else foldE (p2sh_input utxoView) 0 (TxIn msgTx))"

section \<open>Inputs\<close>

text \<open>
  The rules for spending an admin thread at one input; the result says whether a thread has been
  spent so far.
\<close>

definition check_thread :: "MsgTx \<Rightarrow> bool \<Rightarrow> bool \<Rightarrow> nat \<Rightarrow> bytes \<Rightarrow> bool cres" where
  "check_thread tx hasAdminOut hasAdminIn txInIndex originPkScript =
     bindE (lowerE (idxE (TxOut tx) 0)) (\<lambda>thisOut.
     bindE
       (if GetScriptClass originPkScript = ProvaAdminTy then
          (if txInIndex \<noteq> 0 then Inl (RuleErr ErrInvalidAdminTx)
           else if \<not> hasAdminOut then Inl (RuleErr ErrInvalidAdminTx)
           else
             bindE (lowerE (idxE (PkScript thisOut) 0)) (\<lambda>t0. bindE (lowerE (idxE originPkScript 0)) (\<lambda>o0.
             if t0 \<noteq> o0 then Inl (RuleErr ErrInvalidAdminTx)
             else
               bindE (lowerE (idxE (PkScript thisOut) 1)) (\<lambda>t1. bindE (lowerE (idxE originPkScript 1)) (\<lambda>o1.
               if t1 \<noteq> o1 then Inl (RuleErr ErrInvalidAdminTx) else Inr True)))))
        else Inr hasAdminIn)
       (\<lambda>hasAdminIn. if hasAdminOut \<and> \<not> hasAdminIn then Inl (RuleErr ErrInvalidAdminTx) else Inr hasAdminIn))"

definition check_input ::
  "MsgTx \<Rightarrow> 32 word \<Rightarrow> UtxoViewpoint \<Rightarrow> Params \<Rightarrow> bool \<Rightarrow> bool \<times> int \<Rightarrow> nat \<times> TxIn \<Rightarrow> (bool \<times> int) cres" where
  "check_input tx txHeight utxoView chainParams hasAdminOut st x =
     (case (st, x) of ((hasAdminIn, totalAtomsIn), (txInIndex, txIn)) \<Rightarrow>
        let originTxIndex = Index (PreviousOutPoint txIn)
        in case LookupEntry utxoView (Hash (PreviousOutPoint txIn)) of
             None \<Rightarrow> Inl (RuleErr ErrMissingTx)
           | Some utxoEntry \<Rightarrow>
               bindE (lowerE (PkScriptByIndex utxoEntry originTxIndex)) (\<lambda>originPkScript.
               bindE (check_thread tx hasAdminOut hasAdminIn txInIndex originPkScript) (\<lambda>hasAdminIn.
               if ue_isCoinBase utxoEntry \<and> txHeight - ue_blockHeight utxoEntry < ucast (CoinbaseMaturity chainParams)
               then Inl (RuleErr ErrImmatureSpend)
               else if IsOutputSpent utxoEntry originTxIndex then Inl (RuleErr ErrDoubleSpend)
               else
                 bindE (lowerE (AmountByIndex utxoEntry originTxIndex)) (\<lambda>originTxAtoms.
                 if originTxAtoms < 0 then Inl (RuleErr ErrBadTxOutValue)
                 else if originTxAtoms > MaxAtoms then Inl (RuleErr ErrBadTxOutValue)
                 else
                   let lastAtomsIn = totalAtomsIn; totalAtomsIn = to_int64 (totalAtomsIn + originTxAtoms)
                   in if totalAtomsIn < lastAtomsIn \<or> totalAtomsIn > MaxAtoms then Inl (RuleErr ErrBadTxOutValue)
                      else Inr (hasAdminIn, totalAtomsIn)))))"

definition CheckTransactionInputs :: "MsgTx \<Rightarrow> 32 word \<Rightarrow> UtxoViewpoint \<Rightarrow> Params \<Rightarrow> int cres" where
  "CheckTransactionInputs tx txHeight utxoView chainParams =
     (if IsCoinBaseTx tx then Inr 0
      else
        let (threadInt, _) = GetAdminDetailsMsgTx tx; hasAdminOut = (threadInt \<ge> 0)
        in bindE (foldE (check_input tx txHeight utxoView chainParams hasAdminOut) (False, 0) (enumerate 0 (TxIn tx)))
             (\<lambda>(_, totalAtomsIn).
              let totalAtomsOut = foldl (\<lambda>total txOut. to_int64 (total + Value txOut)) 0 (TxOut tx);
                  isIssueThread = (hasAdminOut \<and> (word_of_int threadInt :: byte) = IssueThread);
                  isDestruction = (isIssueThread \<and> length (TxIn tx) > 1)
              in if totalAtomsIn < totalAtomsOut \<and> (\<not> isIssueThread \<or> isDestruction) then Inl (RuleErr ErrSpendTooHigh)
                 else
                   let txFeeInAtoms = to_int64 (totalAtomsIn - totalAtomsOut);
                       txFeeInAtoms = (if isIssueThread \<and> txFeeInAtoms < 0 then 0 else txFeeInAtoms)
                   in if txFeeInAtoms > MaximumFeeAmount chainParams then Inl (RuleErr ErrFeeTooHigh)
                      else Inr txFeeInAtoms))"

section \<open>What the inputs hold\<close>

text \<open>
  The thread of a transaction, negative if it is not an admin transaction; what its inputs hold in
  a ledger, and what its outputs pay.
\<close>

abbreviation thread_of :: "MsgTx \<Rightarrow> int" where "thread_of tx \<equiv> fst (GetAdminDetailsMsgTx tx)"

definition is_issue :: "MsgTx \<Rightarrow> bool" where
  "is_issue tx \<longleftrightarrow> 0 \<le> thread_of tx \<and> (word_of_int (thread_of tx) :: byte) = IssueThread"

abbreviation out_value :: "MsgTx \<Rightarrow> int" where "out_value tx \<equiv> sum_list (map Value (TxOut tx))"

abbreviation coins_value :: "coin list \<Rightarrow> int" where "coins_value coins \<equiv> sum_list (map fst coins)"

abbreviation admin_coin :: "coin \<Rightarrow> bool" where "admin_coin x \<equiv> GetScriptClass (snd x) = ProvaAdminTy"

text \<open>A coinbase output may be spent after \<open>CoinbaseMaturity\<close> blocks; the difference of heights is one of 32 bits.\<close>

definition mature :: "Params \<Rightarrow> 32 word \<Rightarrow> ledger \<Rightarrow> OutPoint \<Rightarrow> bool" where
  "mature params ht L p \<longleftrightarrow>
     (case L (Hash p) of None \<Rightarrow> False | Some ((_, cb, h), _) \<Rightarrow> cb \<longrightarrow> ucast (CoinbaseMaturity params) \<le> ht - h)"

text \<open>
  An admin transaction spends the output of its own thread with its first input, and no other
  input spends an output of a thread.
\<close>

definition thread_rule :: "MsgTx \<Rightarrow> coin list \<Rightarrow> bool" where
  "thread_rule tx coins \<longleftrightarrow>
     (if 0 \<le> thread_of tx
      then coins \<noteq> [] \<and> admin_coin (hd coins) \<and> take 2 (snd (hd coins)) = take 2 (PkScript (TxOut tx ! 0)) \<and>
           list_all (\<lambda>x. \<not> admin_coin x) (tl coins)
      else list_all (\<lambda>x. \<not> admin_coin x) coins)"

lemma out_values_nonneg: "list_all (\<lambda>out. 0 \<le> Value out) outs \<Longrightarrow> 0 \<le> sum_list (map Value outs)"
  by (induction outs) auto

lemma in_int64_atoms: "0 \<le> t \<Longrightarrow> t \<le> MaxAtoms \<Longrightarrow> 0 \<le> a \<Longrightarrow> a \<le> MaxAtoms \<Longrightarrow> in_int64 (t + a)"
  "0 \<le> t \<Longrightarrow> t \<le> MaxAtoms \<Longrightarrow> 0 \<le> a \<Longrightarrow> a \<le> MaxAtoms \<Longrightarrow> in_int64 (t - a)"
  by (simp_all add: MaxAtoms_def AtomsPerGram_def in_int64_def)

lemma led_coin_entry:
  assumes "view_ok v"
  shows "led_coin (utxo_ledger v) p = Some x \<longleftrightarrow>
    (\<exists>e. LookupEntry v (Hash p) = Some e \<and> \<not> IsOutputSpent e (Index p) \<and>
      AmountByIndex e (Index p) = Inr (fst x) \<and> PkScriptByIndex e (Index p) = Inr (snd x))"
proof -
  have "entry_coins e i = Some x \<longleftrightarrow> \<not> IsOutputSpent e i \<and> AmountByIndex e i = Inr (fst x) \<and> PkScriptByIndex e i = Inr (snd x)"
    if "entry_ok e" for e i
    using by_index [OF that, of i]
    by (cases x) (auto simp: entry_coins_def IsOutputSpent_def split: option.splits)
  moreover have "led_coin (utxo_ledger v) p = Some x \<longleftrightarrow> (\<exists>e. LookupEntry v (Hash p) = Some e \<and> entry_coins e (Index p) = Some x)"
    by (auto simp: led_coin_def utxo_ledger_def with_coins_def split: option.splits)
  ultimately show ?thesis using assms unfolding view_ok_def by blast
qed

lemma check_input_iff:
  assumes "view_ok v" and "0 \<le> t" and "t \<le> MaxAtoms"
  shows "check_input tx ht v params adm (a, t) (n, ti) = Inr (a', t') \<longleftrightarrow>
    (\<exists>x. led_coin (utxo_ledger v) (PreviousOutPoint ti) = Some x \<and> check_thread tx adm a n (snd x) = Inr a' \<and>
       mature params ht (utxo_ledger v) (PreviousOutPoint ti) \<and> 0 \<le> fst x \<and> t' = t + fst x \<and> t' \<le> MaxAtoms)"
  (is "?run \<longleftrightarrow> ?spec")
proof
  let ?h = "Hash (PreviousOutPoint ti)" and ?i = "Index (PreviousOutPoint ti)"
  assume ?run
  then obtain e s amt where e: "LookupEntry v ?h = Some e" "PkScriptByIndex e ?i = Inr s"
      "check_thread tx adm a n s = Inr a'" "\<not> (ue_isCoinBase e \<and> ht - ue_blockHeight e < ucast (CoinbaseMaturity params))"
      "\<not> IsOutputSpent e ?i" "AmountByIndex e ?i = Inr amt" "0 \<le> amt" "amt \<le> MaxAtoms"
      "t' = to_int64 (t + amt)" "t' \<le> MaxAtoms"
    by (auto simp: check_input_def Let_def bindE_eq_Inr split: option.splits if_splits)
  have "t' = t + amt" using e(7-9) assms(2,3) in_int64_atoms(1) by simp
  moreover have c: "led_coin (utxo_ledger v) (PreviousOutPoint ti) = Some (amt, s)"
    using led_coin_entry [OF assms(1)] e by auto
  moreover have "mature params ht (utxo_ledger v) (PreviousOutPoint ti)"
    using e(1,4) c by (auto simp: mature_def led_coin_def utxo_ledger_def with_coins_def not_less split: option.splits if_splits)
  ultimately show ?spec using e by auto
next
  let ?h = "Hash (PreviousOutPoint ti)" and ?i = "Index (PreviousOutPoint ti)"
  assume ?spec
  then obtain x where x: "led_coin (utxo_ledger v) (PreviousOutPoint ti) = Some x" "check_thread tx adm a n (snd x) = Inr a'"
      "mature params ht (utxo_ledger v) (PreviousOutPoint ti)" "0 \<le> fst x" "t' = t + fst x" "t' \<le> MaxAtoms" by auto
  from x(1) obtain e where e: "LookupEntry v ?h = Some e" "\<not> IsOutputSpent e ?i"
      "AmountByIndex e ?i = Inr (fst x)" "PkScriptByIndex e ?i = Inr (snd x)" using led_coin_entry [OF assms(1)] by auto
  have "fst x \<le> MaxAtoms" using x(5,6) assms(2) by linarith
  moreover have "\<not> (ue_isCoinBase e \<and> ht - ue_blockHeight e < ucast (CoinbaseMaturity params))"
    using x(3) e(1,2) by (auto simp: mature_def utxo_ledger_def with_coins_def not_less split: option.splits if_splits)
  moreover have "to_int64 (t + fst x) = t'" using in_int64_atoms(1) [OF assms(2,3) x(4)] calculation(1) x(5) by simp
  ultimately show ?run using x e assms(2) by (simp add: check_input_def Let_def)
qed

lemma admin_script_length:
  assumes "GetScriptClass s = ProvaAdminTy"
  shows "2 \<le> length s"
proof -
  obtain pops where p: "parseScript s = Inr pops" "isProvaAdmin pops"
    using assms by (auto simp: GetScriptClass_def typeOfScript_def split: sum.splits if_splits)
  have l: "length pops = 2" using p(2) by (auto simp: isProvaAdmin_def Let_def split: if_splits)
  have "UnparseScript qs = Inr b \<Longrightarrow> length qs \<le> length b" for qs b
  proof (induction qs arbitrary: b)
    case (Cons q qs)
    then obtain b1 b2 where b: "pop_bytes q = Inr b1" "UnparseScript qs = Inr b2" "b = b1 @ b2" by auto
    have "pop_bytes q = Inr b1 \<Longrightarrow> b1 \<noteq> []"
      by (auto simp: pop_bytes_def pop_prefix_def Let_def split: if_splits)
    with b Cons.IH [OF b(2)] show ?case by (cases b1) auto
  qed simp
  then have "length pops \<le> length s"
    using parse_unparse p(1) by (fastforce simp: parseScript_def split: prod.splits option.splits)
  with l show ?thesis by simp
qed

lemma admin_first_output:
  assumes "0 \<le> thread_of tx"
  shows "TxOut tx \<noteq> []" "GetScriptClass (PkScript (TxOut tx ! 0)) = ProvaAdminTy"
  using assms by (auto simp: GetAdminDetailsMsgTx_def GetScriptClass_def split: if_splits sum.splits)

lemma take2_eq: "2 \<le> length xs \<Longrightarrow> 2 \<le> length ys \<Longrightarrow> take 2 xs = take 2 ys \<longleftrightarrow> xs ! 0 = ys ! 0 \<and> xs ! 1 = ys ! 1"
  by (cases xs; cases "tl xs"; cases ys; cases "tl ys") (auto simp: take_Cons numeral_2_eq_2)

lemma check_thread_first:
  assumes "TxOut tx \<noteq> []"
  shows "check_thread tx (0 \<le> thread_of tx) False 0 (snd x) = Inr a \<longleftrightarrow> a = admin_coin x \<and> thread_rule tx [x]"
proof (cases "admin_coin x \<and> 0 \<le> thread_of tx")
  case True
  then have l: "2 \<le> length (snd x)" "2 \<le> length (PkScript (TxOut tx ! 0))"
    using admin_script_length admin_first_output(2) by blast+
  then have "0 < length (snd x)" "1 < length (snd x)" "0 < length (PkScript (TxOut tx ! 0))" "1 < length (PkScript (TxOut tx ! 0))" by linarith+
  then show ?thesis using assms True take2_eq [OF l] by (auto simp: check_thread_def thread_rule_def)
next
  case False
  then show ?thesis using assms by (auto simp: check_thread_def thread_rule_def)
qed

lemma check_thread_later:
  assumes "TxOut tx \<noteq> []" and "0 < n"
  shows "check_thread tx adm a n (snd x) = Inr a' \<longleftrightarrow> a' = a \<and> \<not> admin_coin x \<and> (adm \<longrightarrow> a)"
  using assms by (auto simp: check_thread_def)

abbreviation input_ok :: "Params \<Rightarrow> 32 word \<Rightarrow> ledger \<Rightarrow> OutPoint \<Rightarrow> coin \<Rightarrow> bool" where
  "input_ok params ht L p x \<equiv> led_coin L p = Some x \<and> mature params ht L p \<and> 0 \<le> fst x"

lemma ex_list_all2_Cons: "(\<exists>ys. list_all2 P (x # xs) ys \<and> Q ys) \<longleftrightarrow> (\<exists>y ys. P x y \<and> list_all2 P xs ys \<and> Q (y # ys))"
  by (auto simp: list_all2_Cons1)

lemma check_inputs_later:
  assumes "view_ok v" and "TxOut tx \<noteq> []" and "0 < n" and "0 \<le> t" and "t \<le> MaxAtoms" and "adm \<longrightarrow> a"
  shows "foldE (check_input tx ht v params adm) (a, t) (enumerate n tis) = Inr (a', t') \<longleftrightarrow>
    (\<exists>coins. list_all2 (input_ok params ht (utxo_ledger v)) (map PreviousOutPoint tis) coins \<and>
      list_all (\<lambda>x. \<not> admin_coin x) coins \<and> a' = a \<and> t' = t + coins_value coins \<and> t' \<le> MaxAtoms)"
  using assms(3-5)
proof (induction tis arbitrary: n t)
  case Nil
  then show ?case by auto
next
  case (Cons ti tis)
  let ?L = "utxo_ledger v" and ?p = "PreviousOutPoint ti"
  have nn: "0 \<le> coins_value coins" if "list_all2 (input_ok params ht ?L) ps coins" for ps coins
    using that by (induction rule: list_all2_induct) auto
  have "foldE (check_input tx ht v params adm) (a, t) (enumerate n (ti # tis)) = Inr (a', t') \<longleftrightarrow>
      (\<exists>t1. check_input tx ht v params adm (a, t) (n, ti) = Inr (a, t1) \<and>
        foldE (check_input tx ht v params adm) (a, t1) (enumerate (Suc n) tis) = Inr (a', t'))"
  proof -
    have "fst s = a" if "check_input tx ht v params adm (a, t) (n, ti) = Inr s" for s
      using that check_input_iff [OF assms(1) Cons.prems(2,3), of tx ht params adm a n ti "fst s" "snd s"]
        check_thread_later [OF assms(2) Cons.prems(1)] by auto
    then show ?thesis by (auto simp: bindE_eq_Inr)
  qed
  also have "\<dots> \<longleftrightarrow> (\<exists>x coins. input_ok params ht ?L ?p x \<and>
      list_all2 (input_ok params ht ?L) (map PreviousOutPoint tis) coins \<and> list_all (\<lambda>x. \<not> admin_coin x) (x # coins) \<and>
      a' = a \<and> t' = t + coins_value (x # coins) \<and> t' \<le> MaxAtoms)" (is "?l \<longleftrightarrow> ?r")
  proof
    assume ?l
    then obtain t1 where t1: "check_input tx ht v params adm (a, t) (n, ti) = Inr (a, t1)"
        "foldE (check_input tx ht v params adm) (a, t1) (enumerate (Suc n) tis) = Inr (a', t')" by blast
    from t1(1) obtain x where x: "input_ok params ht ?L ?p x" "\<not> admin_coin x" "t1 = t + fst x" "t1 \<le> MaxAtoms"
      using check_input_iff [OF assms(1) Cons.prems(2,3)] check_thread_later [OF assms(2) Cons.prems(1)] by auto
    then have "0 \<le> t1" using Cons.prems(2) by linarith
    from Cons.IH [OF _ this x(4), of "Suc n"] t1(2) x show ?r by auto
  next
    assume ?r
    then obtain x coins where x: "input_ok params ht ?L ?p x" "\<not> admin_coin x"
      and c: "list_all2 (input_ok params ht ?L) (map PreviousOutPoint tis) coins" "list_all (\<lambda>x. \<not> admin_coin x) coins"
        "a' = a" "t' = t + fst x + coins_value coins" "t' \<le> MaxAtoms" by (auto simp: add.assoc)
    have t1: "0 \<le> t + fst x" "t + fst x \<le> MaxAtoms" using x(1) c(4,5) nn [OF c(1)] Cons.prems(2) by linarith+
    have "check_input tx ht v params adm (a, t) (n, ti) = Inr (a, t + fst x)"
      using check_input_iff [OF assms(1) Cons.prems(2,3)] check_thread_later [OF assms(2) Cons.prems(1)] x t1(2) assms(6) by blast
    moreover have "foldE (check_input tx ht v params adm) (a, t + fst x) (enumerate (Suc n) tis) = Inr (a', t')"
      using Cons.IH [OF _ t1, of "Suc n"] c by auto
    ultimately show ?l by blast
  qed
  also have "\<dots> \<longleftrightarrow> (\<exists>coins. list_all2 (input_ok params ht ?L) (map PreviousOutPoint (ti # tis)) coins \<and>
      list_all (\<lambda>x. \<not> admin_coin x) coins \<and> a' = a \<and> t' = t + coins_value coins \<and> t' \<le> MaxAtoms)"
    by (simp only: list.map ex_list_all2_Cons)
  finally show ?case .
qed

lemma check_inputs_all:
  assumes "view_ok v" and "TxOut tx \<noteq> []" and "TxIn tx \<noteq> []"
  shows "foldE (check_input tx ht v params (0 \<le> thread_of tx)) (False, 0) (enumerate 0 (TxIn tx)) = Inr (a', t') \<longleftrightarrow>
    (\<exists>coins. list_all2 (input_ok params ht (utxo_ledger v)) (map PreviousOutPoint (TxIn tx)) coins \<and>
      thread_rule tx coins \<and> a' = admin_coin (hd coins) \<and> t' = coins_value coins \<and> t' \<le> MaxAtoms)"
proof -
  obtain ti tis where tx: "TxIn tx = ti # tis" using assms(3) by (cases "TxIn tx") auto
  let ?L = "utxo_ledger v" and ?p = "PreviousOutPoint ti" and ?adm = "0 \<le> thread_of tx"
  let ?check = "check_input tx ht v params ?adm"
  have m: "(0 :: int) \<le> MaxAtoms" by (simp add: MaxAtoms_def AtomsPerGram_def)
  have first: "?check (False, 0) (0, ti) = Inr (a, t) \<longleftrightarrow>
      (\<exists>x. input_ok params ht ?L ?p x \<and> a = admin_coin x \<and> thread_rule tx [x] \<and> t = fst x \<and> t \<le> MaxAtoms)" for a t
    unfolding check_input_iff [OF assms(1) order.refl m] check_thread_first [OF assms(2)] by auto
  have rule: "thread_rule tx (x # coins) \<longleftrightarrow> thread_rule tx [x] \<and> list_all (\<lambda>x. \<not> admin_coin x) coins" for x coins
    by (auto simp: thread_rule_def)
  have later: "foldE ?check (admin_coin x, fst x) (enumerate 1 tis) = Inr (a', t') \<longleftrightarrow>
      (\<exists>coins. list_all2 (input_ok params ht ?L) (map PreviousOutPoint tis) coins \<and>
        list_all (\<lambda>x. \<not> admin_coin x) coins \<and> a' = admin_coin x \<and> t' = fst x + coins_value coins \<and> t' \<le> MaxAtoms)"
    if "input_ok params ht ?L ?p x" "thread_rule tx [x]" "fst x \<le> MaxAtoms" for x
  proof (rule check_inputs_later [OF assms(1,2)])
    show "?adm \<longrightarrow> admin_coin x" using that(2) by (simp add: thread_rule_def split: if_splits)
  qed (use that in simp_all)
  have nn: "0 \<le> coins_value coins" if "list_all2 (input_ok params ht ?L) ps coins" for ps coins
    using that by (induction rule: list_all2_induct) auto
  have "(\<exists>a t. (\<exists>x. P x \<and> a = f x \<and> Q x \<and> t = g x \<and> t \<le> M) \<and> R a t) \<longleftrightarrow> (\<exists>x. P x \<and> Q x \<and> g x \<le> M \<and> R (f x) (g x))"
    for P Q :: "coin \<Rightarrow> bool" and f :: "coin \<Rightarrow> bool" and g :: "coin \<Rightarrow> int" and M R by blast
  note pull = this
  have "foldE ?check (False, 0) (enumerate 0 (TxIn tx)) = Inr (a', t') \<longleftrightarrow>
      (\<exists>a t. ?check (False, 0) (0, ti) = Inr (a, t) \<and> foldE ?check (a, t) (enumerate 1 tis) = Inr (a', t'))"
    by (simp add: tx bindE_eq_Inr)
  also have "\<dots> \<longleftrightarrow>
      (\<exists>x. input_ok params ht ?L ?p x \<and> thread_rule tx [x] \<and> fst x \<le> MaxAtoms \<and>
        foldE ?check (admin_coin x, fst x) (enumerate 1 tis) = Inr (a', t'))"
    unfolding first
    by (rule pull [where P = "input_ok params ht ?L ?p" and Q = "\<lambda>x. thread_rule tx [x]" and f = "\<lambda>x. admin_coin x" and g = fst
          and R = "\<lambda>a t. foldE ?check (a, t) (enumerate 1 tis) = Inr (a', t')"])
  also have "\<dots> \<longleftrightarrow> (\<exists>x coins. input_ok params ht ?L ?p x \<and>
      list_all2 (input_ok params ht ?L) (map PreviousOutPoint tis) coins \<and> thread_rule tx (x # coins) \<and>
      a' = admin_coin (hd (x # coins)) \<and> t' = coins_value (x # coins) \<and> t' \<le> MaxAtoms)" (is "?l \<longleftrightarrow> ?r")
  proof
    assume ?l
    then obtain x where x: "input_ok params ht ?L ?p x" "thread_rule tx [x]" "fst x \<le> MaxAtoms"
        "foldE ?check (admin_coin x, fst x) (enumerate 1 tis) = Inr (a', t')" by blast
    with later [OF x(1-3)] obtain coins where "list_all2 (input_ok params ht ?L) (map PreviousOutPoint tis) coins"
        "list_all (\<lambda>x. \<not> admin_coin x) coins" "a' = admin_coin x" "t' = fst x + coins_value coins" "t' \<le> MaxAtoms" by blast
    with x rule [of x coins] show ?r by (intro exI [of _ x] exI [of _ coins]) simp
  next
    assume ?r
    then obtain x coins where x0: "input_ok params ht ?L ?p x" "list_all2 (input_ok params ht ?L) (map PreviousOutPoint tis) coins"
        "thread_rule tx (x # coins)" "a' = admin_coin (hd (x # coins))" "t' = coins_value (x # coins)" "t' \<le> MaxAtoms" by blast
    have x: "input_ok params ht ?L ?p x" "list_all2 (input_ok params ht ?L) (map PreviousOutPoint tis) coins"
        "thread_rule tx [x]" "list_all (\<lambda>x. \<not> admin_coin x) coins" "a' = admin_coin x" "t' = fst x + coins_value coins" "t' \<le> MaxAtoms"
      using x0 rule [of x coins] by simp_all
    have "fst x \<le> MaxAtoms" using x(6,7) nn [OF x(2)] by linarith
    with later [OF x(1,3)] x show ?l by blast
  qed
  finally show ?thesis unfolding tx by (simp only: list.map ex_list_all2_Cons)
qed

subsection \<open>Sane transactions\<close>

lemma check_outputs_sound:
  assumes "foldE (check_output tx th) t xs = Inr t'" and "0 \<le> t" and "t \<le> MaxAtoms"
  shows "t' = t + sum_list (map (Value \<circ> snd) xs) \<and> t' \<le> MaxAtoms \<and> list_all (\<lambda>x. 0 \<le> Value (snd x)) xs \<and>
    list_all (\<lambda>(i, out). \<exists>t t'. check_output tx th t (i, out) = Inr t') xs"
  using assms
proof (induction xs arbitrary: t)
  case (Cons x xs)
  obtain i out where x: "x = (i, out)" by fastforce
  obtain t1 where t1: "check_output tx th t x = Inr t1" "foldE (check_output tx th) t1 xs = Inr t'" using Cons.prems(1) by auto
  then have v: "0 \<le> Value out" "Value out \<le> MaxAtoms" "t1 = to_int64 (t + Value out)" "t1 \<le> MaxAtoms" "0 \<le> t1"
    by (auto simp: check_output_def x Let_def split: if_splits)
  then have "t1 = t + Value out" using in_int64_atoms(1) [OF Cons.prems(2,3)] by simp
  with Cons.IH [OF t1(2) v(5,4)] t1(1) v(1) show ?case by (auto simp: x)
qed simp

lemma check_duplicate_distinct:
  "foldE check_duplicate seen tis = Inr seen' \<Longrightarrow> distinct (map PreviousOutPoint tis) \<and> set (map PreviousOutPoint tis) \<inter> set seen = {}"
  by (induction tis arbitrary: seen) (fastforce simp: check_duplicate_def split: if_splits)+

lemma check_duplicate_complete:
  "distinct (map PreviousOutPoint tis) \<Longrightarrow> set (map PreviousOutPoint tis) \<inter> set seen = {} \<Longrightarrow> \<exists>seen'. foldE check_duplicate seen tis = Inr seen'"
  by (induction tis arbitrary: seen) (auto simp: check_duplicate_def)

lemma sane_tx:
  assumes "CheckTransactionSanity tx = Inr ()"
  shows "TxIn tx \<noteq> []" "TxOut tx \<noteq> []" "distinct (map PreviousOutPoint (TxIn tx))"
    "list_all (\<lambda>out. 0 \<le> Value out) (TxOut tx)" "0 \<le> out_value tx" "out_value tx \<le> MaxAtoms"
    "IsCoinBaseTx tx \<or> thread_of tx < 0 \<Longrightarrow> IsProvaTx tx"
    "list_all (\<lambda>(i, out). \<exists>t t'. check_output tx (thread_of tx) t (i, out) = Inr t') (enumerate 0 (TxOut tx))"
proof -
  obtain th outs where d: "GetAdminDetailsMsgTx tx = (th, outs)" by fastforce
  obtain t seen where ne: "TxIn tx \<noteq> []" "TxOut tx \<noteq> []"
    and t: "foldE (check_output tx th) 0 (enumerate 0 (TxOut tx)) = Inr t" and seen: "foldE check_duplicate [] (TxIn tx) = Inr seen"
    and prova: "IsCoinBaseTx tx \<or> th < 0 \<Longrightarrow> IsProvaTx tx"
    using assms by (auto simp: CheckTransactionSanity_def d Let_def split: if_splits)
  have "(0 :: int) \<le> MaxAtoms" by (simp add: MaxAtoms_def AtomsPerGram_def)
  note s = check_outputs_sound [OF t order.refl this]
  have *: "map (Value \<circ> snd) (enumerate 0 (TxOut tx)) = map Value (TxOut tx)" by (simp flip: map_map)
  have "set (TxOut tx) = snd ` set (enumerate 0 (TxOut tx))" by (simp flip: set_map)
  then show "list_all (\<lambda>out. 0 \<le> Value out) (TxOut tx)" using s by (simp add: list_all_iff)
  then show "0 \<le> out_value tx" by (simp add: out_values_nonneg)
  show "TxIn tx \<noteq> []" "TxOut tx \<noteq> []" using ne by auto
  show "distinct (map PreviousOutPoint (TxIn tx))" using check_duplicate_distinct [OF seen] by simp
  show "out_value tx \<le> MaxAtoms" using s by (simp add: *)
  show "IsCoinBaseTx tx \<or> thread_of tx < 0 \<Longrightarrow> IsProvaTx tx" using prova by (simp add: d)
  show "list_all (\<lambda>(i, out). \<exists>t t'. check_output tx (thread_of tx) t (i, out) = Inr t') (enumerate 0 (TxOut tx))" using s by (simp add: d)
qed

lemma foldl_out_value:
  assumes "list_all (\<lambda>out. 0 \<le> Value out) outs" and "0 \<le> t" and "t + sum_list (map Value outs) \<le> MaxAtoms"
  shows "foldl (\<lambda>total out. to_int64 (total + Value out)) t outs = t + sum_list (map Value outs)"
  using assms
proof (induction outs arbitrary: t)
  case (Cons out outs)
  have "0 \<le> sum_list (map Value outs)" using Cons.prems(1) by (simp add: out_values_nonneg)
  then have "in_int64 (t + Value out)"
    using Cons.prems by (simp add: in_int64_def MaxAtoms_def AtomsPerGram_def)
  with Cons.IH [of "t + Value out"] Cons.prems show ?case by (simp add: add.assoc)
qed simp

subsection \<open>The fee\<close>

lemma CheckTransactionInputs_eq:
  assumes "view_ok v" and "CheckTransactionSanity tx = Inr ()" and "\<not> IsCoinBaseTx tx"
  shows "CheckTransactionInputs tx ht v params = Inr fee \<longleftrightarrow>
    (\<exists>coins. list_all2 (input_ok params ht (utxo_ledger v)) (map PreviousOutPoint (TxIn tx)) coins \<and>
      thread_rule tx coins \<and> coins_value coins \<le> MaxAtoms \<and>
      (out_value tx \<le> coins_value coins \<or> is_issue tx \<and> length (TxIn tx) = 1) \<and>
      fee = max 0 (coins_value coins - out_value tx) \<and> fee \<le> MaximumFeeAmount params)"
proof -
  note sane = sane_tx [OF assms(2)]
  let ?run = "foldE (check_input tx ht v params (0 \<le> thread_of tx)) (False, 0) (enumerate 0 (TxIn tx))"
  let ?finish = "\<lambda>t. (out_value tx \<le> t \<or> is_issue tx \<and> length (TxIn tx) = 1) \<and> fee = max 0 (t - out_value tx) \<and> fee \<le> MaximumFeeAmount params"
  have out: "foldl (\<lambda>total out. to_int64 (total + Value out)) 0 (TxOut tx) = out_value tx"
    using foldl_out_value [OF sane(4), of 0] sane(6) by simp
  have one: "length (TxIn tx) = 1 \<longleftrightarrow> \<not> 1 < length (TxIn tx)" using sane(1) by (cases "TxIn tx") auto
  have "CheckTransactionInputs tx ht v params = Inr fee \<longleftrightarrow> (\<exists>a t. ?run = Inr (a, t) \<and>
      (let f = to_int64 (t - out_value tx); f = (if is_issue tx \<and> f < 0 then 0 else f)
       in \<not> (t < out_value tx \<and> (\<not> is_issue tx \<or> 1 < length (TxIn tx))) \<and> \<not> MaximumFeeAmount params < f \<and> fee = f))"
  proof -
    obtain th outs where d: "GetAdminDetailsMsgTx tx = (th, outs)" by fastforce
    show ?thesis
    proof (cases ?run)
      case (Inl e)
      then show ?thesis using assms(3) by (simp add: CheckTransactionInputs_def Let_def d)
    next
      case (Inr s)
      obtain a t where "s = (a, t)" by fastforce
      with Inr show ?thesis using assms(3)
        by (simp add: CheckTransactionInputs_def is_issue_def Let_def d out) (auto simp: not_less)
    qed
  qed
  also have "\<dots> \<longleftrightarrow> (\<exists>a t. ?run = Inr (a, t) \<and> ?finish t)"
  proof -
    have "(let f = to_int64 (t - out_value tx); f = (if is_issue tx \<and> f < 0 then 0 else f)
       in \<not> (t < out_value tx \<and> (\<not> is_issue tx \<or> 1 < length (TxIn tx))) \<and> \<not> MaximumFeeAmount params < f \<and> fee = f) \<longleftrightarrow> ?finish t"
      if *: "?run = Inr (a, t)" for a t
    proof -
      obtain coins where c: "list_all2 (input_ok params ht (utxo_ledger v)) (map PreviousOutPoint (TxIn tx)) coins" "t = coins_value coins" "t \<le> MaxAtoms"
        using * unfolding check_inputs_all [OF assms(1) sane(2,1)] by blast
      have "0 \<le> t" unfolding c(2) using c(1) by (induction rule: list_all2_induct) auto
      then have "to_int64 (t - out_value tx) = t - out_value tx" using in_int64_atoms(2) [OF _ c(3) sane(5,6)] by simp
      then show ?thesis unfolding one Let_def by auto
    qed
    then show ?thesis by blast
  qed
  also have "\<dots> \<longleftrightarrow> (\<exists>coins. list_all2 (input_ok params ht (utxo_ledger v)) (map PreviousOutPoint (TxIn tx)) coins \<and>
      thread_rule tx coins \<and> coins_value coins \<le> MaxAtoms \<and> ?finish (coins_value coins))"
    unfolding check_inputs_all [OF assms(1) sane(2,1)] by blast
  finally show ?thesis .
qed

subsection \<open>Payments\<close>

text \<open>Transactions that pay to one standard script.\<close>

definition pay_script :: bytes where
  "pay_script = 0x52 # 0x14 # replicate 20 7 @ [0x51, 0x52, 0x53, 0xba]"

definition pay_pops :: "parsedOpcode list" where
  "pay_pops = [\<lparr>opcode = 0x52, data = []\<rparr>, \<lparr>opcode = 0x14, data = replicate 20 7\<rparr>, \<lparr>opcode = 0x51, data = []\<rparr>,
     \<lparr>opcode = 0x52, data = []\<rparr>, \<lparr>opcode = 0x53, data = []\<rparr>, \<lparr>opcode = 0xba, data = []\<rparr>]"

definition pay_out :: "int \<Rightarrow> TxOut" where
  "pay_out a = \<lparr>Value = a, PkScript = pay_script\<rparr>"

definition pay_tx :: "bytes \<Rightarrow> OutPoint list \<Rightarrow> int list \<Rightarrow> MsgTx" where
  "pay_tx sig ins vals = \<lparr>Version = 1,
     TxIn = map (\<lambda>p. \<lparr>PreviousOutPoint = p, SignatureScript = sig, Sequence = 0\<rparr>) ins,
     TxOut = map pay_out vals, LockTime = 0\<rparr>"

lemma pay_parse: "parseScript pay_script = Inr pay_pops"
  by code_simp

lemma pay_pops_class: "isGeneralProva pay_pops" "isProva pay_pops" "\<not> isNullData pay_pops" "opcode (pay_pops ! 0) \<noteq> OP_RETURN"
  by code_simp+

lemma pay_class [simp]: "GetScriptClass pay_script = ProvaTy" "IsUnspendable pay_script = False"
  by (simp_all add: GetScriptClass_def typeOfScript_def IsUnspendable_def pay_parse pay_pops_class)

lemma pay_tx_simps [simp]:
  "map PreviousOutPoint (TxIn (pay_tx sig ins vals)) = ins" "length (TxIn (pay_tx sig ins vals)) = length ins"
  "TxOut (pay_tx sig ins vals) = map pay_out vals" "Value (pay_out a) = a" "PkScript (pay_out a) = pay_script"
  by (simp_all add: pay_tx_def pay_out_def comp_def)

lemma pay_details: "GetAdminDetailsMsgTx (pay_tx sig ins vals) = (-1, [])"
  by (cases vals) (simp_all add: GetAdminDetailsMsgTx_def pay_parse typeOfScript_def pay_pops_class)

lemma pay_prova: "vals \<noteq> [] \<Longrightarrow> IsProvaTx (pay_tx sig ins vals)"
proof -
  have "provaTx_loop (map pay_out vals) b" for b
    by (induction vals) (simp_all add: pay_parse pay_pops_class)
  then show "vals \<noteq> [] \<Longrightarrow> IsProvaTx (pay_tx sig ins vals)" by (simp add: IsProvaTx_def)
qed

lemma pay_outputs:
  assumes "list_all (\<lambda>a. 0 \<le> a) vals" and "0 \<le> t" and "t + sum_list vals \<le> MaxAtoms"
  shows "foldE (check_output tx (-1)) t (enumerate n (map pay_out vals)) = Inr (t + sum_list vals)"
  using assms
proof (induction vals arbitrary: t n)
  case (Cons a vals)
  have nn: "0 \<le> sum_list vals" using Cons.prems(1) by (induction vals) auto
  then have "in_int64 (t + a)" using Cons.prems in_int64_atoms(1) [of t a] by simp
  moreover have "a \<le> MaxAtoms" "t + a \<le> MaxAtoms" using Cons.prems nn by auto
  ultimately show ?case using Cons.IH [of "t + a" "Suc n"] Cons.prems nn
    by (simp add: check_output_def Let_def add.assoc)
qed simp

lemma pay_sane:
  assumes "ins \<noteq> []" and "distinct ins" and "vals \<noteq> []" and "list_all (\<lambda>a. 0 \<le> a) vals" and "sum_list vals \<le> MaxAtoms"
    and "serializeSize False (pay_tx sig ins vals) \<le> MaxBlockPayload"
    and "if IsCoinBaseTx (pay_tx sig ins vals) then 2 \<le> length sig \<and> length sig \<le> 100 else \<forall>p \<in> set ins. \<not> isNullOutpoint p"
  shows "CheckTransactionSanity (pay_tx sig ins vals) = Inr ()"
proof -
  let ?tx = "pay_tx sig ins vals"
  have dup: "\<exists>seen. foldE check_duplicate [] (TxIn ?tx) = Inr seen"
    using assms(2) by (intro check_duplicate_complete) simp_all
  have outs: "foldE (check_output ?tx (-1)) 0 (enumerate 0 (TxOut ?tx)) = Inr (sum_list vals)"
    using pay_outputs [OF assms(4), of 0] assms(5) by simp
  have "TxIn ?tx \<noteq> []" "TxOut ?tx \<noteq> []" using assms(1,3) by (simp_all add: pay_tx_def)
  moreover have "\<not> list_ex (\<lambda>ti. isNullOutpoint (PreviousOutPoint ti)) (TxIn ?tx) \<longleftrightarrow> (\<forall>p \<in> set ins. \<not> isNullOutpoint p)"
    by (auto simp: list_ex_iff pay_tx_def)
  moreover have "SignatureScript (TxIn ?tx ! 0) = sig" using assms(1) by (simp add: pay_tx_def)
  ultimately show ?thesis using dup outs assms pay_prova [OF assms(3), of sig ins]
    by (cases "IsCoinBaseTx ?tx")
      (auto simp: CheckTransactionSanity_def pay_details check_admin_tx_def Let_def MinCoinbaseScriptLen_def MaxCoinbaseScriptLen_def)
qed

section \<open>Properties\<close>

text \<open>
  C35. The check of inputs accepts a transaction that passed the context-free checks, and returns
  its fee, exactly if every input refers to an output that is unspent in the ledger of the view,
  not an immature coinbase, with an amount that is not negative; the inputs respect the admin
  threads; they hold no more than the maximum in total, and at least what the outputs pay, unless
  the transaction issues tokens.  The fee is then the exact difference, without overflow, or 0 for an
  issue that pays more than it spends, and is within the limit.
\<close>

theorem inputs_accepted:
  assumes "view_ok v" and "CheckTransactionSanity tx = Inr ()" and "\<not> IsCoinBaseTx tx"
  shows "CheckTransactionInputs tx ht v params = Inr fee \<longleftrightarrow>
    (\<exists>coins. list_all2 (\<lambda>p x. led_coin (utxo_ledger v) p = Some x \<and> mature params ht (utxo_ledger v) p \<and> 0 \<le> fst x)
        (map PreviousOutPoint (TxIn tx)) coins \<and>
      thread_rule tx coins \<and> coins_value coins \<le> MaxAtoms \<and>
      (out_value tx \<le> coins_value coins \<or> is_issue tx \<and> length (TxIn tx) = 1) \<and>
      fee = max 0 (coins_value coins - out_value tx) \<and> fee \<le> MaximumFeeAmount params)"
  by (rule CheckTransactionInputs_eq [OF assms])

theorem inputs_accepted_witness:
  "CheckTransactionInputs (pay_tx [] [\<lparr>Hash = replicate 32 5, Index = 0\<rparr>] [8]) 10 example_utxos (MainNetParams []) = Inr 1 \<and>
   CheckTransactionInputs (pay_tx [] [\<lparr>Hash = replicate 32 5, Index = 0\<rparr>] [10]) 10 example_utxos (MainNetParams []) \<noteq> Inr 0"
proof -
  let ?p = "\<lparr>Hash = replicate 32 5, Index = 0\<rparr> :: OutPoint" and ?v = example_utxos
  have v: "view_ok ?v" by (simp add: view_ok_def LookupEntry_def example_utxos_def entry_ok_def out_ok_def maybeDecompress_def)
  have cb: "\<not> IsCoinBaseTx (pay_tx [] [?p] vals)" for vals by (simp add: IsCoinBaseTx_def isNullOutpoint_def pay_tx_def)
  have "serializeSize False (pay_tx [] [?p] [a]) \<le> MaxBlockPayload" for a
    by (simp add: serializeSize_def pay_tx_def pay_out_def pay_script_def TxIn_SerializeSize_def TxOut_SerializeSize_def
        VarIntSerializeSize_def MaxBlockPayload_def)
  then have sane: "CheckTransactionSanity (pay_tx [] [?p] [a]) = Inr ()" if "0 \<le> a" "a \<le> MaxAtoms" for a
    using cb that by (intro pay_sane) (simp_all add: isNullOutpoint_def)
  have L: "utxo_ledger ?v (replicate 32 5) = Some ((1, False, 3), [0 \<mapsto> (9, [0x51])])"
    by (auto simp: utxo_ledger_def LookupEntry_def example_utxos_def with_coins_def entry_coins_def read_out_def maybeDecompress_def fun_eq_iff)
  have "led_coin (utxo_ledger ?v) ?p = Some (9, [0x51])" "mature (MainNetParams []) 10 (utxo_ledger ?v) ?p"
    by (simp_all add: led_coin_def mature_def L)
  moreover have "GetScriptClass [0x51] = NonStandardTy" by code_simp
  ultimately have "thread_rule (pay_tx [] [?p] vals) [(9, [0x51])]" "\<not> is_issue (pay_tx [] [?p] vals)"
      "list_all2 (\<lambda>p x. led_coin (utxo_ledger ?v) p = Some x \<and> mature (MainNetParams []) 10 (utxo_ledger ?v) p \<and> 0 \<le> fst x) [?p] coins \<longleftrightarrow>
       coins = [(9, [0x51])]" for vals coins
    by (auto simp: thread_rule_def is_issue_def pay_details list_all2_Cons1)
  then show ?thesis
    using inputs_accepted [OF v sane cb, of 8 10 "MainNetParams []" 1] inputs_accepted [OF v sane cb, of 10 10 "MainNetParams []" 0]
    by (simp add: MainNetParams_def MaxAtoms_def AtomsPerGram_def)
qed

end
