(* ===== verification/Chain_Node.thy ===== *)
theory Chain_Node
  imports Chain_Store Chain_Work Tx_Validate
begin

text \<open>
  The state of the block chain and the block nodes in memory, \<open>src/blockchain/chain.go\<close>: making and
  loading nodes, walking back along the chain, the past median time, the difficulty that a block
  must have (\<open>difficulty.go\<close>), and reading headers and blocks from the database (\<open>chainio.go\<close>).

  Nodes are kept in a store by their hash, and a pointer to a node is the hash, nil is \<open>None\<close>;
  dereferencing a pointer to a node that is not there panics.  Functions that load nodes return the new
  state; when one fails, the nodes loaded before the failure, which only cache the database, are not
  returned.  The database is the stored blocks and the buckets of \<open>Admin_Store\<close> and \<open>Chain_Store\<close>.
\<close>

section \<open>State\<close>

record blockNode =
  bn_parent :: "bytes option"
  bn_children :: "bytes list"
  bn_hash :: bytes
  bn_parentHash :: bytes
  bn_height :: "32 word"
  bn_workSum :: int
  bn_inMainChain :: bool
  bn_version :: "32 word"
  bn_bits :: "32 word"
  bn_nonce :: nat
  bn_timestamp :: int
  bn_merkleRoot :: bytes
  bn_size :: "32 word"
  bn_signature :: bytes
  bn_validatingPubKey :: bytes

record BestState =
  bst_Hash :: bytes
  bst_Height :: "32 word"
  bst_Bits :: "32 word"
  bst_BlockSize :: "64 word"
  bst_NumTxns :: "64 word"
  bst_TotalTxns :: "64 word"
  bst_MedianTime :: int

record orphanBlock =
  ob_block :: MsgBlock
  ob_expiration :: int

text \<open>The database: stored blocks, block index, unspent outputs, spend journal, admin state and best state.\<close>

record chain_db =
  db_blocks :: "bytes \<rightharpoonup> bytes"
  db_index :: "bucket \<times> bucket"
  db_utxos :: bucket
  db_journal :: bucket
  db_keys :: "bytes option"
  db_state :: "bytes option"

record BlockChain =
  bc_checkpoints :: "Checkpoint list"
  bc_params :: Params
  bc_genesis :: MsgBlock
  bc_db :: chain_db
  bc_noVerify :: bool
  bc_nodes :: "bytes \<rightharpoonup> blockNode"
  bc_index :: "bytes \<Rightarrow> bool"
  bc_depNodes :: "bytes \<rightharpoonup> bytes list"
  bc_bestNode :: bytes
  bc_admin :: KeyViewpoint
  bc_orphans :: "(bytes \<times> orphanBlock) list"
  bc_prevOrphans :: "bytes \<Rightarrow> orphanBlock list"
  bc_oldestOrphan :: "orphanBlock option"
  bc_nextCheckpoint :: "Checkpoint option"
  bc_checkpointBlock :: "MsgBlock option"
  bc_snapshot :: BestState

definition deref :: "BlockChain \<Rightarrow> bytes \<Rightarrow> blockNode cres" where
  "deref b p = (case bc_nodes b p of None \<Rightarrow> Inl (Lower Panic) | Some n \<Rightarrow> Inr n)"

definition set_node :: "blockNode \<Rightarrow> BlockChain \<Rightarrow> BlockChain" where
  "set_node n b = b\<lparr>bc_nodes := (bc_nodes b)(bn_hash n \<mapsto> n)\<rparr>"

definition newBlockNode :: "BlockHeader \<Rightarrow> bytes \<Rightarrow> blockNode" where
  "newBlockNode blockHeader blockHash =
     \<lparr>bn_parent = None, bn_children = [], bn_hash = blockHash, bn_parentHash = PrevBlock blockHeader,
      bn_height = Height blockHeader, bn_workSum = CalcWork (Bits blockHeader), bn_inMainChain = False,
      bn_version = BVersion blockHeader, bn_bits = Bits blockHeader, bn_nonce = Nonce blockHeader,
      bn_timestamp = Timestamp blockHeader, bn_merkleRoot = MerkleRoot blockHeader, bn_size = 0,
      bn_signature = replicate BlockSignatureSize 0, bn_validatingPubKey = ValidatingPubKey blockHeader\<rparr>"

definition node_Header :: "blockNode \<Rightarrow> BlockHeader" where
  "node_Header node =
     \<lparr>BVersion = bn_version node, PrevBlock = bn_parentHash node, MerkleRoot = bn_merkleRoot node,
      Timestamp = bn_timestamp node, Bits = bn_bits node, Height = bn_height node, Size = bn_size node,
      Nonce = bn_nonce node, ValidatingPubKey = bn_validatingPubKey node, BSignature = bn_signature node\<rparr>"

definition removeChildNode :: "bytes list \<Rightarrow> bytes option \<Rightarrow> bytes list" where
  "removeChildNode children node = (case node of None \<Rightarrow> children | Some h \<Rightarrow> remove1 h children)"

definition newBestState :: "blockNode \<Rightarrow> 64 word \<Rightarrow> 64 word \<Rightarrow> 64 word \<Rightarrow> int \<Rightarrow> BestState" where
  "newBestState node blockSize numTxns totalTxns medianTime =
     \<lparr>bst_Hash = bn_hash node, bst_Height = bn_height node, bst_Bits = bn_bits node, bst_BlockSize = blockSize,
      bst_NumTxns = numTxns, bst_TotalTxns = totalTxns, bst_MedianTime = medianTime\<rparr>"

section \<open>Headers and blocks in the database\<close>

definition FetchBlock :: "chain_db \<Rightarrow> bytes \<Rightarrow> bytes cres" where
  "FetchBlock db h = (case db_blocks db h of None \<Rightarrow> Inl ErrBlockNotFound | Some b \<Rightarrow> Inr b)"

definition wireE :: "wire_err + 'a \<times> bytes \<Rightarrow> 'a cres" where
  "wireE r = (case r of Inl e \<Rightarrow> Inl (WireErr e) | Inr (x, _) \<Rightarrow> Inr x)"

definition dbFetchHeaderByHash :: "chain_db \<Rightarrow> bytes \<Rightarrow> BlockHeader cres" where
  "dbFetchHeaderByHash db h =
     bindE (FetchBlock db h) (\<lambda>blockBytes. wireE (readBlockHeader (take MaxBlockHeaderPayload blockBytes)))"

definition dbFetchHeaderByHeight :: "chain_db \<Rightarrow> 32 word \<Rightarrow> BlockHeader cres" where
  "dbFetchHeaderByHeight db height = bindE (dbFetchHashByHeight (db_index db) height) (dbFetchHeaderByHash db)"

definition dbFetchBlockByHash :: "chain_db \<Rightarrow> bytes \<Rightarrow> MsgBlock cres" where
  "dbFetchBlockByHash db h = bindE (FetchBlock db h) (\<lambda>blockBytes. wireE (MsgBlock_BtcDecode blockBytes))"

definition dbFetchBlockByHeight :: "chain_db \<Rightarrow> 32 word \<Rightarrow> MsgBlock cres" where
  "dbFetchBlockByHeight db height =
     bindE (dbFetchHashByHeight (db_index db) height) (\<lambda>h.
     bindE (FetchBlock db h) (\<lambda>blockBytes. wireE (MsgBlock_BtcDecode blockBytes)))"

definition dbMainChainHasBlock :: "chain_db \<Rightarrow> bytes \<Rightarrow> bool" where
  "dbMainChainHasBlock db h \<longleftrightarrow> fst (db_index db) h \<noteq> None"

text \<open>The range of heights is limited to the height of the best block.\<close>

definition HeightRange :: "BlockChain \<Rightarrow> 32 word \<Rightarrow> 32 word \<Rightarrow> bytes list cres" where
  "HeightRange b startHeight endHeight =
     (if endHeight < startHeight then Inl PlainErr
      else if startHeight = endHeight then Inr []
      else
        bindE (deref b (bc_bestNode b)) (\<lambda>best.
        let latestHeight = bn_height best
        in if startHeight > latestHeight then Inr []
           else
             let endHeight = (if endHeight > latestHeight + 1 then latestHeight + 1 else endHeight)
             in foldE (\<lambda>hashes i. bindE (dbFetchHashByHeight (db_index (bc_db b)) (word_of_nat i)) (\<lambda>h. Inr (hashes @ [h])))
                  [] [unat startHeight ..< unat endHeight]))"

definition FetchHeader :: "BlockChain \<Rightarrow> bytes \<Rightarrow> BlockHeader cres" where
  "FetchHeader b h =
     (if bc_index b h then bindE (deref b h) (\<lambda>node. Inr (node_Header node))
      else dbFetchHeaderByHash (bc_db b) h)"

section \<open>Loading nodes\<close>

text \<open>
  Three cases: the parent is in memory, children are in memory, or neither.  In the second case the
  work sum is that of the first child without the work of the node itself.
\<close>

definition loadBlockNode :: "BlockChain \<Rightarrow> bytes \<Rightarrow> (bytes \<times> BlockChain) cres" where
  "loadBlockNode b h =
     bindE (dbFetchHeaderByHash (bc_db b) h) (\<lambda>blockHeader.
     let node = (newBlockNode blockHeader h)\<lparr>bn_inMainChain := True\<rparr>; prevHash = PrevBlock blockHeader
     in bindE
          (if bc_index b prevHash then
             bindE (deref b prevHash) (\<lambda>parentNode.
               Inr (set_node (node\<lparr>bn_workSum := bn_workSum parentNode + bn_workSum node, bn_parent := Some prevHash\<rparr>)
                      (set_node (parentNode\<lparr>bn_children := bn_children parentNode @ [h]\<rparr>) b)))
           else
             (case bc_depNodes b h of
                None \<Rightarrow> Inl AssertErr
              | Some childNodes \<Rightarrow>
                  bindE (lowerE (idxE childNodes 0)) (\<lambda>first.
                  bindE (deref b first) (\<lambda>child.
                    let node = node\<lparr>bn_workSum := bn_workSum child - bn_workSum node, bn_children := childNodes\<rparr>
                    in foldE (\<lambda>b c. bindE (deref b c) (\<lambda>childNode. Inr (set_node (childNode\<lparr>bn_parent := Some h\<rparr>) b)))
                         (set_node node b) childNodes))))
          (\<lambda>b. Inr (h, b\<lparr>bc_index := (bc_index b)(h := True),
                       bc_depNodes := (bc_depNodes b)(prevHash \<mapsto>
                         (case bc_depNodes b prevHash of None \<Rightarrow> [] | Some nodes \<Rightarrow> nodes) @ [h])\<rparr>)))"

definition getPrevNodeFromBlock :: "BlockChain \<Rightarrow> MsgBlock \<Rightarrow> (bytes option \<times> BlockChain) cres" where
  "getPrevNodeFromBlock b block =
     (let prevHash = PrevBlock (Header block)
      in if prevHash = replicate 32 0 then Inr (None, b)
         else if bc_index b prevHash then Inr (Some prevHash, b)
         else bindE (loadBlockNode b prevHash) (\<lambda>(p, b). Inr (Some p, b)))"

definition getPrevNodeFromNode :: "BlockChain \<Rightarrow> bytes \<Rightarrow> (bytes option \<times> BlockChain) cres" where
  "getPrevNodeFromNode b p =
     bindE (deref b p) (\<lambda>node.
       case bn_parent node of
         Some q \<Rightarrow> Inr (Some q, b)
       | None \<Rightarrow>
           if bn_hash node = GenesisHash (bc_params b) \<or> bn_height node = 0 then Inr (None, b)
           else bindE (loadBlockNode b (bn_parentHash node)) (\<lambda>(q, b). Inr (Some q, b)))"

fun relativeNode :: "BlockChain \<Rightarrow> bytes \<Rightarrow> nat \<Rightarrow> (bytes \<times> BlockChain) cres" where
  "relativeNode b iterNode 0 = Inr (iterNode, b)"
| "relativeNode b iterNode (Suc i) =
     bindE (deref b iterNode) (\<lambda>node.
       case bn_parent node of
         Some q \<Rightarrow> relativeNode b q i
       | None \<Rightarrow>
           if bn_hash node = GenesisHash (bc_params b) then Inr (iterNode, b)
           else bindE (loadBlockNode b (bn_parentHash node)) (\<lambda>(q, b). relativeNode b q i))"

section \<open>Walking back\<close>

text \<open>The loop ends early when loading a node fails; a panic is not caught.\<close>

fun majority_loop :: "nat \<Rightarrow> 32 word \<Rightarrow> nat \<Rightarrow> BlockChain \<Rightarrow> bytes option \<Rightarrow> nat \<Rightarrow> (nat \<times> BlockChain) cres" where
  "majority_loop 0 minVer numRequired b iterNode numFound = Inr (numFound, b)"
| "majority_loop (Suc i) minVer numRequired b iterNode numFound =
     (case iterNode of
        None \<Rightarrow> Inr (numFound, b)
      | Some p \<Rightarrow>
          if \<not> numFound < numRequired then Inr (numFound, b)
          else
            bindE (deref b p) (\<lambda>node.
            let numFound = (if bn_version node \<ge> minVer then numFound + 1 else numFound)
            in case getPrevNodeFromNode b p of
                 Inl (Lower e) \<Rightarrow> Inl (Lower e)
               | Inl _ \<Rightarrow> Inr (numFound, b)
               | Inr (q, b) \<Rightarrow> majority_loop i minVer numRequired b q numFound))"

definition isMajorityVersion :: "BlockChain \<Rightarrow> 32 word \<Rightarrow> bytes option \<Rightarrow> nat \<Rightarrow> (bool \<times> BlockChain) cres" where
  "isMajorityVersion b minVer startNode numRequired =
     bindE (majority_loop (BlockUpgradeNumToCheck (bc_params b)) minVer numRequired b startNode 0)
       (\<lambda>(numFound, b). Inr (numFound \<ge> numRequired, b))"

fun past_times :: "nat \<Rightarrow> BlockChain \<Rightarrow> bytes option \<Rightarrow> (int list \<times> BlockChain) cres" where
  "past_times 0 b iterNode = Inr ([], b)"
| "past_times (Suc i) b iterNode =
     (case iterNode of
        None \<Rightarrow> Inr ([], b)
      | Some p \<Rightarrow>
          bindE (deref b p) (\<lambda>node.
          bindE (getPrevNodeFromNode b p) (\<lambda>(q, b).
          bindE (past_times i b q) (\<lambda>(timestamps, b). Inr (bn_timestamp node # timestamps, b)))))"

definition calcPastMedianTime :: "BlockChain \<Rightarrow> bytes option \<Rightarrow> (int \<times> BlockChain) cres" where
  "calcPastMedianTime b startNode =
     (if startNode = None then Inr (Timestamp (Header (bc_genesis b)), b)
      else
        bindE (past_times medianTimeBlocks b startNode) (\<lambda>(timestamps, b).
          Inr (sort timestamps ! (length timestamps div 2), b)))"

text \<open>The sum of the targets of the last nodes, and the node before them.\<close>

fun sum_difficulty :: "nat \<Rightarrow> BlockChain \<Rightarrow> bytes option \<Rightarrow> int \<Rightarrow> (int \<times> bytes option \<times> BlockChain) cres" where
  "sum_difficulty 0 b firstNode avgDifficulty = Inr (avgDifficulty, firstNode, b)"
| "sum_difficulty (Suc i) b firstNode avgDifficulty =
     (case firstNode of
        None \<Rightarrow> Inr (avgDifficulty, None, b)
      | Some p \<Rightarrow>
          bindE (deref b p) (\<lambda>node.
          bindE (getPrevNodeFromNode b p) (\<lambda>(q, b).
          sum_difficulty i b q (avgDifficulty + CompactToBig (bn_bits node)))))"

definition calcNextRequiredDifficulty :: "BlockChain \<Rightarrow> bytes option \<Rightarrow> (32 word \<times> BlockChain) cres" where
  "calcNextRequiredDifficulty b lastNode =
     (if lastNode = None then Inr (PowLimitBits (bc_params b), b)
      else
        let window = PowAveragingWindow (bc_params b)
        in bindE (sum_difficulty (nat window) b lastNode 0) (\<lambda>(avgDifficulty, firstNode, b).
           if firstNode = None then Inr (PowLimitBits (bc_params b), b)
           else if window = 0 then Inl (Lower Panic)
           else
             let avgDifficulty = avgDifficulty div window
             in bindE (calcPastMedianTime b firstNode) (\<lambda>(medianFirstNodeTime, b).
                bindE (calcPastMedianTime b lastNode) (\<lambda>(medianLastNodeTime, b).
                bindE (lowerE (nextRequiredDifficulty (bc_params b) medianFirstNodeTime medianLastNodeTime avgDifficulty)) (\<lambda>bits.
                  Inr (bits, b))))))"

definition CalcNextRequiredDifficulty :: "BlockChain \<Rightarrow> (32 word \<times> BlockChain) cres" where
  "CalcNextRequiredDifficulty b = calcNextRequiredDifficulty b (Some (bc_bestNode b))"

end
