(* ===== verification/Chain_Rules.thy ===== *)
theory Chain_Rules
  imports Chain_Node
begin

unbundle bit_operations_syntax

text \<open>
  Rules that look at the chain behind a block: the limit on the share of a validator
  (\<open>src/blockchain/ratelimit.go\<close> and \<open>validate.go\<close>), relative lock times and the two branches of
  a reorganisation (\<open>chain.go\<close>), and checkpoints (\<open>checkpoints.go\<close>).  The theorems bound the number
  of blocks that a validator has in a window, and describe the branches.
\<close>

section \<open>The share of a validator\<close>

fun share_loop :: "bytes \<Rightarrow> int \<Rightarrow> int \<Rightarrow> bytes list \<Rightarrow> bool" where
  "share_loop validatePubKey maxBlocks blockCount [] = False"
| "share_loop validatePubKey maxBlocks blockCount (key # keys) =
     (let blockCount = (if key = validatePubKey then blockCount + 1 else blockCount)
      in if blockCount \<ge> maxBlocks then True else share_loop validatePubKey maxBlocks blockCount keys)"

definition IsGenerationShareRateLimited :: "bytes \<Rightarrow> bytes list \<Rightarrow> int \<Rightarrow> bool \<Rightarrow> bytes \<Rightarrow> bool" where
  "IsGenerationShareRateLimited validatePubKey prevPubKeys maxBlocks prospectiveInclusion lastValidatePubKey =
     share_loop validatePubKey maxBlocks
       (if prospectiveInclusion \<and> validatePubKey = lastValidatePubKey then 1 else 0) prevPubKeys"

text \<open>The keys of the blocks before a node, the latest first.\<close>

fun prev_keys :: "nat \<Rightarrow> BlockChain \<Rightarrow> bytes option \<Rightarrow> (bytes list \<times> BlockChain) cres" where
  "prev_keys 0 b iterNode = Inr ([], b)"
| "prev_keys (Suc i) b iterNode =
     (case iterNode of
        None \<Rightarrow> Inr ([], b)
      | Some p \<Rightarrow>
          bindE (getPrevNodeFromNode b p) (\<lambda>(q, b).
            case q of
              None \<Rightarrow> Inr ([], b)
            | Some r \<Rightarrow>
                bindE (deref b r) (\<lambda>node.
                bindE (prev_keys i b q) (\<lambda>(keys, b). Inr (bn_validatingPubKey node # keys, b)))))"

definition isValidateKeyRateLimited :: "BlockChain \<Rightarrow> bytes \<Rightarrow> bytes \<Rightarrow> bool \<Rightarrow> (bool \<times> BlockChain) cres" where
  "isValidateKeyRateLimited b p validatePubKey prospectiveInclusion =
     (if ChainWindowMaxBlocks (bc_params b) = 0 then Inr (False, b)
      else
        bindE (deref b p) (\<lambda>node.
        let window = (if prospectiveInclusion then PowAveragingWindow (bc_params b) - 1 else PowAveragingWindow (bc_params b))
        in bindE (prev_keys (nat window) b (Some p)) (\<lambda>(prevPubKeys, b).
             Inr (IsGenerationShareRateLimited validatePubKey prevPubKeys (ChainWindowMaxBlocks (bc_params b))
                    prospectiveInclusion (bn_validatingPubKey node), b))))"

definition IsValidateKeyRateLimited :: "BlockChain \<Rightarrow> bytes \<Rightarrow> (bool \<times> BlockChain) cres" where
  "IsValidateKeyRateLimited b validatePubKey = isValidateKeyRateLimited b (bc_bestNode b) validatePubKey True"

section \<open>Relative lock times\<close>

definition sequence_lock_input ::
  "UtxoViewpoint \<Rightarrow> 32 word \<Rightarrow> SequenceLock \<times> BlockChain \<Rightarrow> TxIn \<Rightarrow> (SequenceLock \<times> BlockChain) cres" where
  "sequence_lock_input utxoView nextHeight st txIn =
     (case st of (sequenceLock, b) \<Rightarrow>
      case LookupEntry utxoView (Hash (PreviousOutPoint txIn)) of
        None \<Rightarrow> Inl (RuleErr ErrMissingTx)
      | Some utxo \<Rightarrow>
          let inputHeight = (if ue_blockHeight utxo = 0x7fffffff then nextHeight else ue_blockHeight utxo);
              sequenceNum = Sequence txIn;
              relativeLock = int (unat (sequenceNum AND word_of_int SequenceLockTimeMask))
          in if sequenceNum AND word_of_int SequenceLockTimeDisabled = word_of_int SequenceLockTimeDisabled
             then Inr (sequenceLock, b)
             else if sequenceNum AND word_of_int SequenceLockTimeIsSeconds = word_of_int SequenceLockTimeIsSeconds then
               bindE (deref b (bc_bestNode b)) (\<lambda>best.
               let inputDepth = (bn_height best - inputHeight) + 1
               in bindE (relativeNode b (bc_bestNode b) (unat inputDepth)) (\<lambda>(p, b).
                  bindE (calcPastMedianTime b (Some p)) (\<lambda>(medianTime, b).
                  let timeLockSeconds = push_bit 9 relativeLock - 1;
                      timeLock = to_int64 (medianTime + timeLockSeconds)
                  in Inr (if timeLock > sl_Seconds sequenceLock then sequenceLock\<lparr>sl_Seconds := timeLock\<rparr> else sequenceLock, b))))
             else
               let blockHeight = to_int32 (sint inputHeight + (relativeLock - 1))
               in Inr (if blockHeight > sl_BlockHeight sequenceLock then sequenceLock\<lparr>sl_BlockHeight := blockHeight\<rparr>
                       else sequenceLock, b))"

definition calcSequenceLock :: "BlockChain \<Rightarrow> MsgTx \<Rightarrow> UtxoViewpoint \<Rightarrow> bool \<Rightarrow> (SequenceLock \<times> BlockChain) cres" where
  "calcSequenceLock b mTx utxoView mempool =
     (let sequenceLock = \<lparr>sl_Seconds = -1, sl_BlockHeight = -1\<rparr>;
          sequenceLockActive = (Version mTx \<ge> 2 \<and> (mempool \<or> True))
      in if \<not> sequenceLockActive \<or> IsCoinBaseTx mTx then Inr (sequenceLock, b)
         else
           let nextHeight = bst_Height (bc_snapshot b) + 1
           in foldE (sequence_lock_input utxoView nextHeight) (sequenceLock, b) (TxIn mTx))"

definition LockTimeToSequence :: "bool \<Rightarrow> 32 word \<Rightarrow> 32 word" where
  "LockTimeToSequence isSeconds locktime =
     (if \<not> isSeconds then locktime else word_of_int SequenceLockTimeIsSeconds OR drop_bit 9 locktime)"

section \<open>Checkpoints\<close>

definition CheckpointConfirmations :: "32 word" where "CheckpointConfirmations = 2016"

definition HasCheckpoints :: "BlockChain \<Rightarrow> bool" where
  "HasCheckpoints b \<longleftrightarrow> length (bc_checkpoints b) > 0"

definition LatestCheckpoint :: "BlockChain \<Rightarrow> Checkpoint option" where
  "LatestCheckpoint b = (if \<not> HasCheckpoints b then None else Some (last (bc_checkpoints b)))"

text \<open>The map from heights to checkpoints is filled in the order of the list, so the last one of a height counts.\<close>

definition verifyCheckpoint :: "BlockChain \<Rightarrow> 32 word \<Rightarrow> bytes \<Rightarrow> bool" where
  "verifyCheckpoint b height h =
     (if \<not> HasCheckpoints b then True
      else
        case find (\<lambda>c. cp_Height c = height) (rev (bc_checkpoints b)) of
          None \<Rightarrow> True
        | Some checkpoint \<Rightarrow> cp_Hash checkpoint = h)"

definition last_index :: "(Checkpoint \<Rightarrow> bool) \<Rightarrow> Checkpoint list \<Rightarrow> nat option" where
  "last_index P cs = find (\<lambda>i. P (cs ! i)) (rev [0 ..< length cs])"

definition checkpoint_after :: "Checkpoint list \<Rightarrow> nat option \<Rightarrow> Checkpoint option" where
  "checkpoint_after checkpoints checkpointIndex =
     (case checkpointIndex of
        None \<Rightarrow> None
      | Some i \<Rightarrow> if i < length checkpoints - 1 then Some (checkpoints ! (i + 1)) else None)"

definition findPreviousCheckpoint :: "BlockChain \<Rightarrow> (MsgBlock option \<times> BlockChain) cres" where
  "findPreviousCheckpoint b =
     (let checkpoints = bc_checkpoints b
      in if \<not> HasCheckpoints b then Inr (None, b)
         else
           case (bc_checkpointBlock b, bc_nextCheckpoint b) of
             (None, None) \<Rightarrow>
               (case last_index (\<lambda>c. dbMainChainHasBlock (bc_db b) (cp_Hash c)) checkpoints of
                  None \<Rightarrow> Inr (None, b\<lparr>bc_nextCheckpoint := Some (checkpoints ! 0)\<rparr>)
                | Some checkpointIndex \<Rightarrow>
                    bindE (dbFetchBlockByHash (bc_db b) (cp_Hash (checkpoints ! checkpointIndex))) (\<lambda>block.
                      Inr (Some block, b\<lparr>bc_checkpointBlock := Some block,
                                        bc_nextCheckpoint := checkpoint_after checkpoints (Some checkpointIndex)\<rparr>)))
           | (_, None) \<Rightarrow> Inr (bc_checkpointBlock b, b)
           | (_, Some next) \<Rightarrow>
               bindE (deref b (bc_bestNode b)) (\<lambda>best.
                 if bn_height best < cp_Height next then Inr (bc_checkpointBlock b, b)
                 else
                   bindE (dbFetchBlockByHash (bc_db b) (cp_Hash next)) (\<lambda>block.
                     Inr (Some block, b\<lparr>bc_checkpointBlock := Some block,
                       bc_nextCheckpoint := checkpoint_after checkpoints (last_index (\<lambda>c. cp_Hash c = cp_Hash next) checkpoints)\<rparr>))))"

definition isNonstandardTransaction :: "MsgTx \<Rightarrow> bool" where
  "isNonstandardTransaction tx \<longleftrightarrow> list_ex (\<lambda>txOut. GetScriptClass (PkScript txOut) = NonStandardTy) (TxOut tx)"

text \<open>The subtraction wraps around for a chain of less than 2016 blocks.\<close>

definition IsCheckpointCandidate :: "'x crypto_scheme \<Rightarrow> BlockChain \<Rightarrow> MsgBlock \<Rightarrow> bool cres" where
  "IsCheckpointCandidate c b block =
     (case dbFetchHeightByHash (db_index (bc_db b)) (BlockHash c (Header block)) of
        Inl ErrNotInMainChain \<Rightarrow> Inr False
      | Inl e \<Rightarrow> Inl e
      | Inr blockHeight \<Rightarrow>
          if blockHeight \<noteq> Height (Header block) then Inl PlainErr
          else
            bindE (deref b (bc_bestNode b)) (\<lambda>best.
              if blockHeight > bn_height best - CheckpointConfirmations then Inr False
              else
                bindE (dbFetchHeaderByHash (bc_db b) (PrevBlock (Header block))) (\<lambda>prevHeader.
                bindE (dbFetchHeaderByHeight (bc_db b) (blockHeight + 1)) (\<lambda>nextHeader.
                  if Timestamp prevHeader > Timestamp (Header block) \<or> Timestamp nextHeader < Timestamp (Header block)
                  then Inr False
                  else Inr (list_all (\<lambda>tx. \<not> isNonstandardTransaction tx) (Transactions block))))))"

section \<open>The branches of a reorganisation\<close>

text \<open>The parent pointers are followed as far as they go; \<open>None\<close> is a walk that does not end.\<close>

partial_function (option) attach_walk :: "BlockChain \<Rightarrow> bytes \<Rightarrow> bytes list \<Rightarrow> (bytes \<times> bytes list) cres option" where
  "attach_walk b ancestor attachNodes =
     (case deref b ancestor of
        Inl e \<Rightarrow> Some (Inl e)
      | Inr node \<Rightarrow>
          (case bn_parent node of
             None \<Rightarrow> Some (Inr (ancestor, attachNodes))
           | Some parent \<Rightarrow>
               if bn_inMainChain node then Some (Inr (ancestor, attachNodes))
               else attach_walk b parent (ancestor # attachNodes)))"

partial_function (option) detach_walk :: "BlockChain \<Rightarrow> bytes \<Rightarrow> bytes \<Rightarrow> bytes list \<Rightarrow> bytes list cres option" where
  "detach_walk b ancestor n detachNodes =
     (case deref b n of
        Inl e \<Rightarrow> Some (Inl e)
      | Inr node \<Rightarrow>
          (case bn_parent node of
             None \<Rightarrow> Some (Inr detachNodes)
           | Some parent \<Rightarrow>
               if n = ancestor then Some (Inr detachNodes)
               else detach_walk b ancestor parent (detachNodes @ [n])))"

definition returns :: "'a cres option \<Rightarrow> 'a cres" where
  "returns r = (case r of None \<Rightarrow> Inl (Lower NoReturn) | Some x \<Rightarrow> x)"

definition getReorganizeNodes :: "BlockChain \<Rightarrow> bytes option \<Rightarrow> (bytes list \<times> bytes list) cres" where
  "getReorganizeNodes b node =
     (case node of
        None \<Rightarrow> Inr ([], [])
      | Some node \<Rightarrow>
          bindE (returns (attach_walk b node [])) (\<lambda>(ancestor, attachNodes).
          bindE (returns (detach_walk b ancestor (bc_bestNode b) [])) (\<lambda>detachNodes.
            Inr (detachNodes, attachNodes))))"

section \<open>Segments of the chain\<close>

text \<open>A segment of the chain in memory, the latest block first, and the key of a block.\<close>

fun segment :: "BlockChain \<Rightarrow> bytes list \<Rightarrow> bool" where
  "segment b (p # q # ps) \<longleftrightarrow> (\<exists>n. bc_nodes b p = Some n \<and> bn_parent n = Some q) \<and> segment b (q # ps)"
| "segment b [p] \<longleftrightarrow> bc_nodes b p \<noteq> None"
| "segment b [] \<longleftrightarrow> True"

definition node_key :: "BlockChain \<Rightarrow> bytes \<Rightarrow> bytes" where
  "node_key b p = (case bc_nodes b p of None \<Rightarrow> [] | Some n \<Rightarrow> bn_validatingPubKey n)"

lemma segment_first: "segment b (p # ps) \<Longrightarrow> \<exists>n. bc_nodes b p = Some n"
  by (cases ps) auto

lemma segment_tl: "segment b (p # ps) \<Longrightarrow> segment b ps"
  by (cases ps) auto

lemma segment_drop: "segment b ps \<Longrightarrow> segment b (drop i ps)"
proof (induction i arbitrary: ps)
  case (Suc i)
  then show ?case by (cases ps) (auto dest: segment_tl)
qed simp

lemma prev_in_segment: "segment b (p # q # ps) \<Longrightarrow> getPrevNodeFromNode b p = Inr (Some q, b)"
  by (auto simp: getPrevNodeFromNode_def deref_def)

text \<open>The segment has as many blocks as are asked for, or goes back to the first block of the chain.\<close>

definition first_block :: "BlockChain \<Rightarrow> bytes \<Rightarrow> bool" where
  "first_block b p \<longleftrightarrow>
     (case bc_nodes b p of
        None \<Rightarrow> False
      | Some n \<Rightarrow> bn_parent n = None \<and> (bn_hash n = GenesisHash (bc_params b) \<or> bn_height n = 0))"

lemma prev_keys_segment:
  "segment b (p # ps) \<Longrightarrow> w \<le> length ps \<or> first_block b (last (p # ps)) \<Longrightarrow>
    prev_keys w b (Some p) = Inr (map (node_key b) (take w ps), b)"
proof (induction w arbitrary: p ps)
  case (Suc w)
  show ?case
  proof (cases ps)
    case Nil
    then show ?thesis
      using Suc.prems(2) by (auto simp: first_block_def getPrevNodeFromNode_def deref_def split: option.splits)
  next
    case (Cons q qs)
    obtain n where "bc_nodes b q = Some n" using Suc.prems(1) Cons by (auto dest: segment_first)
    then show ?thesis
      using Suc.IH [of q qs] Suc.prems prev_in_segment [of b p q qs] by (simp add: Cons deref_def node_key_def split: if_splits)
  qed
qed simp

section \<open>Shares\<close>

lemma share_loop_iff: "share_loop k m c keys \<longleftrightarrow> keys \<noteq> [] \<and> m \<le> c + int (count_list keys k)"
proof (induction k m c keys rule: share_loop.induct)
  case (2 k m c key keys)
  then show ?case by (cases keys) (auto simp: Let_def)
qed simp

lemma rate_limited_segment:
  assumes "segment b (p # ps)" and "w \<le> length ps \<or> first_block b (last (p # ps))" and "ChainWindowMaxBlocks (bc_params b) \<noteq> 0"
    and "PowAveragingWindow (bc_params b) = (if pro then int w + 1 else int w)"
  shows "isValidateKeyRateLimited b p k pro =
    Inr (take w ps \<noteq> [] \<and> ChainWindowMaxBlocks (bc_params b) \<le>
      (if pro \<and> k = node_key b p then 1 else 0) + int (count_list (map (node_key b) (take w ps)) k), b)"
proof -
  obtain n where n: "bc_nodes b p = Some n" using assms(1) by (auto dest: segment_first)
  then have "deref b p = Inr n" and "node_key b p = bn_validatingPubKey n" by (simp_all add: deref_def node_key_def)
  then show ?thesis
    using assms(3,4) prev_keys_segment [OF assms(1,2)]
    by (simp add: isValidateKeyRateLimited_def IsGenerationShareRateLimited_def share_loop_iff Let_def)
qed

text \<open>Only the latest block with a key in a window needs to be looked at.\<close>

lemma count_take_mono: "n \<le> w \<Longrightarrow> count_list (take n ks) x \<le> count_list (take w ks) x"
  using take_add [of n "w - n" ks] by simp

lemma window_share:
  assumes "\<And>i. i < n \<Longrightarrow> ks ! i = x \<Longrightarrow> count_list (take w (drop (Suc i) ks)) x < m" and "n \<le> Suc w" and "n \<le> length ks"
  shows "count_list (take n ks) x \<le> m"
  using assms
proof (induction n arbitrary: ks)
  case (Suc n)
  then obtain k ks' where ks: "ks = k # ks'" by (cases ks) auto
  show ?case
  proof (cases "k = x")
    case True
    have "count_list (take w ks') x < m" using Suc.prems(1) [of 0] True by (simp add: ks)
    moreover have "count_list (take n ks') x \<le> count_list (take w ks') x" using Suc.prems(2) by (simp add: count_take_mono)
    ultimately show ?thesis using True by (simp add: ks)
  next
    case False
    have "count_list (take n ks') x \<le> m"
      using Suc.prems(1) [of "Suc i" for i] Suc.prems(2,3) by (intro Suc.IH) (simp_all add: ks)
    with False show ?thesis by (simp add: ks)
  qed
qed simp

section \<open>Walks along the parents\<close>

lemma attach_walk_segment:
  assumes "bc_nodes b a = Some n" and "bn_inMainChain n \<or> bn_parent n = None"
  shows "segment b (ns @ [a]) \<Longrightarrow> \<forall>p \<in> set ns. \<forall>n. bc_nodes b p = Some n \<longrightarrow> \<not> bn_inMainChain n \<Longrightarrow>
    attach_walk b (hd (ns @ [a])) acc = Some (Inr (a, rev ns @ acc))"
proof (induction ns arbitrary: acc)
  case Nil
  then show ?case using assms by (subst attach_walk.simps) (auto simp: deref_def split: option.splits)
next
  case (Cons p ns)
  obtain q qs where q: "ns @ [a] = q # qs" by (cases ns) auto
  obtain n where "bc_nodes b p = Some n" "bn_parent n = Some q" using Cons.prems(1) q by auto
  then show ?case
    using Cons.IH [of "p # acc"] Cons.prems q by (subst attach_walk.simps) (simp add: deref_def)
qed

lemma detach_walk_segment:
  "segment b (ms @ [a]) \<Longrightarrow> a \<notin> set ms \<Longrightarrow> detach_walk b a (hd (ms @ [a])) acc = Some (Inr (acc @ ms))"
proof (induction ms arbitrary: acc)
  case Nil
  then show ?case by (subst detach_walk.simps) (auto simp: deref_def split: option.splits)
next
  case (Cons p ms)
  obtain q qs where q: "ms @ [a] = q # qs" by (cases ms) auto
  obtain n where "bc_nodes b p = Some n" "bn_parent n = Some q" using Cons.prems(1) q by auto
  then show ?case
    using Cons.IH [of "acc @ [p]"] Cons.prems q by (subst detach_walk.simps) (auto simp: deref_def)
qed

section \<open>An example\<close>

text \<open>A node with a hash, a parent and a key, and a chain with such nodes, whose window is of two blocks.\<close>

definition example_node :: "bytes \<Rightarrow> bytes option \<Rightarrow> bytes \<Rightarrow> bool \<Rightarrow> bytes \<times> blockNode" where
  "example_node h parent key main =
     (h, (newBlockNode example_header h)\<lparr>bn_parent := parent, bn_validatingPubKey := key, bn_inMainChain := main\<rparr>)"

definition example_chain :: "(bytes \<times> blockNode) list \<Rightarrow> bytes \<Rightarrow> BlockChain" where
  "example_chain ns best =
     \<lparr>bc_checkpoints = [], bc_params = (MainNetParams [])\<lparr>PowAveragingWindow := 2, ChainWindowMaxBlocks := 2\<rparr>,
      bc_genesis = \<lparr>Header = example_header, Transactions = []\<rparr>,
      bc_db = \<lparr>db_blocks = \<lambda>_. None, db_index = (\<lambda>_. None, \<lambda>_. None), db_utxos = \<lambda>_. None, db_journal = \<lambda>_. None,
               db_keys = None, db_state = None\<rparr>,
      bc_noVerify = False, bc_nodes = map_of ns, bc_index = \<lambda>p. p \<in> fst ` set ns, bc_depNodes = \<lambda>_. None,
      bc_bestNode = best, bc_admin = NewKeyViewpoint, bc_orphans = [], bc_prevOrphans = \<lambda>_. [], bc_oldestOrphan = None,
      bc_nextCheckpoint = None, bc_checkpointBlock = None,
      bc_snapshot = \<lparr>bst_Hash = best, bst_Height = 0, bst_Bits = 0, bst_BlockSize = 0, bst_NumTxns = 0, bst_TotalTxns = 0,
                     bst_MedianTime = 0\<rparr>\<rparr>"

section \<open>Properties\<close>

text \<open>
  C38. Where every block passed the check of the rate limit, no validator has more than the
  permitted number of blocks among a window of blocks and the block after it.  The blocks of the window,
  and another window before it, are in memory.
\<close>

theorem validator_share_bounded:
  assumes "segment b ps" and "0 < ChainWindowMaxBlocks (bc_params b)" and "PowAveragingWindow (bc_params b) = int w"
    and "\<And>j. j + w < length ps \<Longrightarrow> isValidateKeyRateLimited b (ps ! j) (node_key b (ps ! j)) False = Inr (False, b)"
    and "i + 2 * w < length ps"
  shows "int (count_list (map (node_key b) (take (w + 1) (drop i ps))) k) \<le> ChainWindowMaxBlocks (bc_params b)"
proof -
  define ks where "ks = map (node_key b) (drop i ps)"
  have "count_list (take w (drop (Suc j) ks)) k < nat (ChainWindowMaxBlocks (bc_params b))" if j: "j < Suc w" "ks ! j = k" for j
  proof -
    have l: "i + j + w < length ps" using j(1) assms(5) by simp
    then have d: "drop (i + j) ps = ps ! (i + j) # drop (Suc (i + j)) ps" by (simp add: Cons_nth_drop_Suc)
    have "node_key b (ps ! (i + j)) = k" using j(2) l by (simp add: ks_def)
    moreover have "segment b (ps ! (i + j) # drop (Suc (i + j)) ps)" using segment_drop [OF assms(1), of "i + j"] d by simp
    moreover have wl: "w \<le> length (drop (Suc (i + j)) ps)" using l by simp
    from rate_limited_segment [OF calculation(2) disjI1 [OF wl], of False k] have "isValidateKeyRateLimited b (ps ! (i + j)) k False =
        Inr (take w (drop (Suc (i + j)) ps) \<noteq> [] \<and> ChainWindowMaxBlocks (bc_params b) \<le>
          int (count_list (map (node_key b) (take w (drop (Suc (i + j)) ps))) k), b)"
      using l assms(2,3) by simp
    ultimately have "count_list (map (node_key b) (take w (drop (Suc (i + j)) ps))) k < nat (ChainWindowMaxBlocks (bc_params b))"
      using assms(4) [OF l] assms(2) by (cases "take w (drop (Suc (i + j)) ps) = []") auto
    then show ?thesis by (simp add: ks_def take_map drop_map add.commute)
  qed
  from window_share [where n = "Suc w", OF this] have "count_list (take (Suc w) ks) k \<le> nat (ChainWindowMaxBlocks (bc_params b))"
    using assms(5) by (simp add: ks_def)
  then show ?thesis using assms(2) by (simp add: ks_def take_map)
qed

theorem validator_share_bounded_witness:
  "let b = example_chain [example_node [4] (Some [3]) [7] True, example_node [3] (Some [2]) [7] True,
             example_node [2] (Some [1]) [8] True, example_node [1] (Some [0]) [7] True, example_node [0] None [7] True] [4]
   in count_list (map (node_key b) [[4], [3], [2]]) [7] = 2 \<and>
      int (count_list (map (node_key b) (take (2 + 1) (drop 0 [[4], [3], [2], [1], [0]]))) [7]) \<le> 2"
proof -
  let ?b = "example_chain [example_node [4] (Some [3]) [7] True, example_node [3] (Some [2]) [7] True,
             example_node [2] (Some [1]) [8] True, example_node [1] (Some [0]) [7] True, example_node [0] None [7] True] [4]"
  let ?ps = "[[4], [3], [2], [1], [0]] :: bytes list"
  note defs = example_chain_def example_node_def node_key_def
  have limited: "isValidateKeyRateLimited ?b (?ps ! j) (node_key ?b (?ps ! j)) False = Inr (False, ?b)" if "j + 2 < length ?ps" for j
  proof -
    have "j = 0 \<or> j = 1 \<or> j = 2" using that by auto
    then show ?thesis
      by (auto simp: isValidateKeyRateLimited_def prev_keys.simps getPrevNodeFromNode_def deref_def defs numeral_2_eq_2
          IsGenerationShareRateLimited_def)
  qed
  have "int (count_list (map (node_key ?b) (take (2 + 1) (drop 0 ?ps))) [7]) \<le> ChainWindowMaxBlocks (bc_params ?b)"
    by (rule validator_share_bounded [OF _ _ _ limited]) (simp_all add: defs)
  then show ?thesis by (simp add: defs Let_def)
qed

text \<open>
  C40. Asking in advance whether a key may extend the best chain gives the answer of the check
  that is made when a block with this key is connected, except in one case: only one block per
  window is permitted, the key is that of the best block, and no block behind the best block is
  looked at, because the window is of one block or the best block is the first one.  Then the
  answer differs.  The blocks of the window, or all blocks back to the first one, are in memory.
\<close>

theorem prospective_share:
  assumes "segment b (p # bc_bestNode b # ps)" and "PowAveragingWindow (bc_params b) = int w" and "1 \<le> w"
    and "0 \<le> ChainWindowMaxBlocks (bc_params b)" and "w \<le> length ps + 1 \<or> first_block b (last (bc_bestNode b # ps))"
  shows "IsValidateKeyRateLimited b k = isValidateKeyRateLimited b p k False \<longleftrightarrow>
    \<not> (ChainWindowMaxBlocks (bc_params b) = 1 \<and> (w = 1 \<or> ps = []) \<and> k = node_key b (bc_bestNode b))"
proof (cases "ChainWindowMaxBlocks (bc_params b) = 0")
  case True
  then show ?thesis by (simp add: IsValidateKeyRateLimited_def isValidateKeyRateLimited_def)
next
  case False
  let ?m = "ChainWindowMaxBlocks (bc_params b)"
  obtain v where v: "w = Suc v" using assms(3) by (cases w) auto
  let ?c = "int (count_list (map (node_key b) (take v ps)) k)" and ?e = "if k = node_key b (bc_bestNode b) then 1 else 0 :: int"
  have "IsValidateKeyRateLimited b k = Inr (take v ps \<noteq> [] \<and> ?m \<le> ?e + ?c, b)"
    using rate_limited_segment [of b "bc_bestNode b" ps v True k] segment_tl [OF assms(1)] assms(2,5) False v
    by (auto simp: IsValidateKeyRateLimited_def)
  moreover have "isValidateKeyRateLimited b p k False = Inr (?m \<le> ?e + ?c, b)"
    using rate_limited_segment [of b p "bc_bestNode b # ps" w False k] assms(1,2,5) False v by auto
  moreover have "take v ps = [] \<longleftrightarrow> w = 1 \<or> ps = []" by (simp add: v)
  moreover have "?m \<le> ?e + ?c \<longleftrightarrow> ?m = 1 \<and> k = node_key b (bc_bestNode b)" if "take v ps = []"
    using assms(4) False by (simp only: that list.map count_list.simps) auto
  ultimately show ?thesis by (cases "take v ps = []") auto
qed

theorem prospective_share_witness:
  "let b = example_chain [example_node [3] (Some [2]) [7] False, example_node [2] (Some [1]) [7] True,
             example_node [1] (Some [0]) [7] True, example_node [0] None [8] True] [2];
       b' = (example_chain [example_node [1] (Some [0]) [7] False, example_node [0] None [7] True] [0])
              \<lparr>bc_params := (MainNetParams [0])\<lparr>PowAveragingWindow := 2, ChainWindowMaxBlocks := 1\<rparr>\<rparr>
   in isValidateKeyRateLimited b [3] [7] False = Inr (True, b) \<and> IsValidateKeyRateLimited b [7] = Inr (True, b) \<and>
      IsValidateKeyRateLimited b' [7] \<noteq> isValidateKeyRateLimited b' [1] [7] False"
proof -
  let ?b = "example_chain [example_node [3] (Some [2]) [7] False, example_node [2] (Some [1]) [7] True,
             example_node [1] (Some [0]) [7] True, example_node [0] None [8] True] [2]"
  let ?b' = "(example_chain [example_node [1] (Some [0]) [7] False, example_node [0] None [7] True] [0])
              \<lparr>bc_params := (MainNetParams [0])\<lparr>PowAveragingWindow := 2, ChainWindowMaxBlocks := 1\<rparr>\<rparr>"
  note defs = example_chain_def example_node_def
  have "IsValidateKeyRateLimited ?b [7] = isValidateKeyRateLimited ?b [3] [7] False"
    using prospective_share [of ?b "[3]" "[[1], [0]]" 2 "[7]"] by (simp add: defs)
  moreover have "isValidateKeyRateLimited ?b [3] [7] False = Inr (True, ?b)"
    by (simp add: isValidateKeyRateLimited_def getPrevNodeFromNode_def deref_def defs numeral_2_eq_2 IsGenerationShareRateLimited_def)
  moreover have "IsValidateKeyRateLimited ?b' [7] \<noteq> isValidateKeyRateLimited ?b' [1] [7] False"
    using prospective_share [of ?b' "[1]" "[]" 2 "[7]"]
    by (simp add: defs first_block_def node_key_def newBlockNode_def MainNetParams_def)
  ultimately show ?thesis by (simp add: Let_def)
qed

text \<open>
  C39. The two branches of a reorganisation: if \<open>ns\<close> are the blocks from a node of a side chain
  down to the block \<open>a\<close> where it leaves the main chain, and \<open>ms\<close> those from the best block down to
  \<open>a\<close>, then the search returns, the blocks to detach are \<open>ms\<close>, the latest first, and the blocks to
  attach are \<open>ns\<close>, the oldest first.
\<close>

theorem reorganize_branches:
  assumes "segment b (ns @ [a])" and "segment b (ms @ [a])" and "a \<notin> set ms" and "bc_bestNode b = hd (ms @ [a])"
    and "\<forall>p \<in> set ns. \<forall>n. bc_nodes b p = Some n \<longrightarrow> \<not> bn_inMainChain n"
    and "\<exists>n. bc_nodes b a = Some n \<and> (bn_inMainChain n \<or> bn_parent n = None)"
  shows "getReorganizeNodes b (Some (hd (ns @ [a]))) = Inr (ms, rev ns)"
proof -
  obtain n where n: "bc_nodes b a = Some n" "bn_inMainChain n \<or> bn_parent n = None" using assms(6) by auto
  show ?thesis
    using attach_walk_segment [OF n assms(1,5), of "[]"] detach_walk_segment [OF assms(2,3), of "[]"] assms(4)
    by (simp add: getReorganizeNodes_def returns_def)
qed

theorem reorganize_branches_witness:
  "getReorganizeNodes (example_chain [example_node [4] (Some [3]) [7] False, example_node [3] (Some [1]) [7] False,
      example_node [2] (Some [1]) [7] True, example_node [1] (Some [0]) [7] True, example_node [0] None [8] True] [2]) (Some [4]) =
   Inr ([[2]], [[3], [4]])"
  using reorganize_branches [of "example_chain [example_node [4] (Some [3]) [7] False, example_node [3] (Some [1]) [7] False,
      example_node [2] (Some [1]) [7] True, example_node [1] (Some [0]) [7] True, example_node [0] None [8] True] [2]"
      "[[4], [3]]" "[1]" "[[2]]"]
  by (simp add: example_chain_def example_node_def)

end
