(* ===== verification/Spec2Isabelle.thy ===== *)
theory Spec2Isabelle
  imports Script_Builder Prova_Spend Merkle Chain_Rules
begin

text \<open>
  A verification development for the Prova node, a permissioned block chain derived from btcd.

  \<^bold>\<open>Parts and theories.\<close>  \<open>Prova_Prelude\<close> has the error monad (\<open>bindE\<close>, \<open>foldE\<close>,
  \<open>repeatE\<close>), machine integers and byte string encodings that all parts share.

  \<^item> Script language, \<open>src/txscript\<close>: \<open>Script_Error\<close> (\<open>error.go\<close>), \<open>Script_Num\<close>
    (\<open>scriptnum.go\<close>), \<open>Script_Stack\<close> (\<open>stack.go\<close>), \<open>Script_Optable\<close> and \<open>Script_Opcode\<close>
    (the opcode table and parsing of \<open>opcode.go\<close> and \<open>script.go\<close>), \<open>Script_Builder\<close>
    (\<open>scriptbuilder.go\<close>), \<open>Script_Standard\<close> (\<open>standard.go\<close>, key ids and admin operations of
    \<open>script.go\<close>), \<open>Sig_Hash\<close> (signature hashes of \<open>script.go\<close>, \<open>hashcache.go\<close>).
  \<^item> Script engine: \<open>Engine_State\<close> (the engine record, the encoding checks of \<open>engine.go\<close> and
    \<open>sigcache.go\<close>), \<open>Engine_Ops\<close> and \<open>Engine_Sigs\<close> (the opcode handlers of \<open>opcode.go\<close>),
    \<open>Script_Engine\<close> (\<open>NewEngine\<close>, \<open>Step\<close>, \<open>Execute\<close>).  \<open>Safe_Multisig\<close> shows what
    \<open>OP_CHECKSAFEMULTISIG\<close> accepts, \<open>Prova_Spend\<close> what a whole run accepts.
  \<^item> Wire format, \<open>src/wire\<close>: \<open>Wire_Codec\<close> (\<open>common.go\<close>), \<open>Wire_Tx\<close> (\<open>msgtx.go\<close>),
    \<open>Wire_Block\<close> (\<open>msgblock.go\<close>, \<open>blockheader.go\<close>).
  \<^item> Keys, \<open>src/btcec\<close>: \<open>Btcec_Keys\<close> (\<open>pubkey.go\<close>, \<open>signature.go\<close>), and \<open>Crypto_Params\<close>,
    the record of the functions that are parameters of the model; \<open>Key_Sets\<close> (\<open>pubkeyset.go\<close>,
    \<open>keyidmap.go\<close>).
  \<^item> Chain state, \<open>src/blockchain\<close>: \<open>Chain_Base\<close> (\<open>error.go\<close>, the parameters of
    \<open>src/chaincfg/params.go\<close>), \<open>Key_View\<close> (\<open>keyviewpoint.go\<close> and the check of outputs of
    \<open>validate.go\<close>), \<open>Compress\<close> (\<open>compress.go\<close>), \<open>Utxo_View\<close> (\<open>utxoviewpoint.go\<close>),
    \<open>Admin_Store\<close> and \<open>Chain_Store\<close> (the database records of \<open>chainio.go\<close>),
    \<open>Tx_Validate\<close> (the transaction rules of \<open>validate.go\<close>), \<open>Merkle\<close> (\<open>merkle.go\<close>),
    \<open>Chain_Work\<close> (\<open>difficulty.go\<close>), \<open>Chain_Node\<close> (the block nodes of \<open>chain.go\<close>) and
    \<open>Chain_Rules\<close> (\<open>ratelimit.go\<close>, \<open>checkpoints.go\<close>, relative lock times and the branches of a
    reorganisation of \<open>chain.go\<close>).

  \<^bold>\<open>How the code is rendered.\<close>  A Go function that returns a value and an error is a function
  into a sum type, \<open>Inl\<close> the error; a run-time panic is the error \<open>Panic\<close>, a call that does not
  return \<open>NoReturn\<close>.  Structs are records, pointer receivers state passing.  Bytes are words of
  length 8; the fields of messages keep their width, or are integers with the wrap-around written
  out.  Error messages and logging are left out.

  \<^bold>\<open>Parameters.\<close>  The hash functions (SHA-1, SHA-256, RIPEMD-160, Keccak), ECDSA verification
  and the entry that the signature cache evicts are fields of the records \<open>crypto\<close> and
  \<open>vmenv\<close>; theorems that need a digest length name it as a hypothesis.  The arithmetic of the curve
  (\<open>src/btcec/btcec.go\<close>, \<open>field.go\<close>) is arithmetic modulo the prime, and what is built on its
  point multiplication is a parameter: verification, and signing (\<open>signRFC6979\<close>), which
  \<open>header_Sign\<close> takes as an argument.

  \<^bold>\<open>Loops.\<close>  All loops are total functions, with these exceptions: the loop of
  \<open>opcodeCheckSafeMultiSig\<close> is a partial function, since it may run for ever, and a theorem says
  exactly when it does; the two walks along parent pointers of \<open>getReorganizeNodes\<close> are partial
  functions, and the theorem about them shows that they return.  No fuel is used.

  \<^bold>\<open>What the theorems show.\<close>

  \<^item> Scripts: parsing and unparsing are inverse, the stack operations and the script numbers do
    what their comments say, the engine keeps its limits and returns, and a Prova output is spent
    exactly with the required signatures.
  \<^item> Messages, keys and signatures: the decoders accept exactly what the encoders write, and
    hashes commit to what they should.
  \<^item> State: disconnecting a block undoes connecting it, for the key view and for the view of unspent
    outputs; what is written to the database is read back, and represents the view.
  \<^item> Rules: which transactions the check of inputs accepts and with which fee, the Merkle root, the
    rounding of targets, the share of a validator, and the branches of a reorganisation.

  \<^bold>\<open>Interfaces.\<close>  The locale \<open>codec\<close> states the two-way law of an encoder and a decoder,
  \<open>finite_set_ops\<close> the operations on key sets, \<open>undo_log\<close> that undoing the steps of a block in reverse
  order restores the state; each is interpreted on the definitions of the model.

  \<^bold>\<open>Not modelled.\<close>  The checks of whole blocks and the code that connects them in memory and in
  the database at once (\<open>checkConnectBlock\<close>, \<open>connectBlock\<close>, \<open>reorganizeChain\<close>, \<open>ProcessBlock\<close>);
  the parallel script validation of \<open>scriptval.go\<close>, the median time source, block locators and
  notifications; the arithmetic of the curve; the database engine, optional indexes, memory pool,
  mining, the other messages between peers, the RPC server and configuration.
\<close>

end
